(* ===== verification/Machine.thy ===== *)
theory Machine
  imports Main "HOL-Library.Word"
begin

unbundle bit_operations_syntax

text \<open>
  Prelude of the development: the machine types of the target (an LP64 AArch64 system),
  the ways in which a C function of the program can stop instead of returning, the
  sequencing of such functions, and the facts on words, lists and bit tests that the
  components share. Fact collections: \<open>res_simps\<close> (sequencing), \<open>ring_simps\<close>
  (ring-index arithmetic modulo the buffer size), \<open>bit_facts\<close> (bit tests).
\<close>

named_theorems res_simps \<open>sequencing of fallible operations\<close>
named_theorems ring_simps \<open>arithmetic of ring indices\<close>
named_theorems bit_facts \<open>bit tests on masks and shifts\<close>

section \<open>Machine types\<close>

type_synonym u8 = "8 word"
type_synonym u16 = "16 word"
type_synonym u32 = "32 word"
type_synonym u64 = "64 word"

text \<open>\<open>typedef unsigned long seL4_Word\<close>; also \<open>uintptr_t\<close> and \<open>size_t\<close>.\<close>
type_synonym seL4_Word = "64 word"

section \<open>Outcomes of a C function\<close>

text \<open>
  A call either returns (\<open>Inr\<close>) or stops the component (\<open>Inl\<close>): a failed
  \<open>rpc_assert\<close>/\<open>assert\<close>, a dereferenced null pointer, an access outside an array, a
  shift the language leaves undefined, a loop that never exits, a call to \<open>ZF_LOGF\<close>.
\<close>
datatype fault =
    Assert_Failed
  | Null_Deref
  | Out_Of_Bounds
  | Undefined_Shift
  | Diverges
  | Fatal

type_synonym 'a res = "fault + 'a"

definition res_bind :: "'a res \<Rightarrow> ('a \<Rightarrow> 'b res) \<Rightarrow> 'b res" where
  "res_bind m f = (case m of Inl e \<Rightarrow> Inl e | Inr x \<Rightarrow> f x)"

lemma res_bind_Inr [simp, res_simps]: "res_bind (Inr x) f = f x"
  by (simp add: res_bind_def)

lemma res_bind_Inl [simp, res_simps]: "res_bind (Inl e) f = Inl e"
  by (simp add: res_bind_def)

lemma res_bind_eq_Inr [res_simps]:
  "res_bind m f = Inr y \<longleftrightarrow> (\<exists>x. m = Inr x \<and> f x = Inr y)"
  by (cases m) auto

lemma res_bind_cong [fundef_cong]:
  "m = m' \<Longrightarrow> (\<And>x. m' = Inr x \<Longrightarrow> f x = f' x) \<Longrightarrow> res_bind m f = res_bind m' f'"
  by (cases m') auto

text \<open>A loop whose non-termination is \<open>None\<close>, as an operation.\<close>
definition run_loop :: "'a option \<Rightarrow> 'a res" where
  "run_loop x = (case x of None \<Rightarrow> Inl Diverges | Some y \<Rightarrow> Inr y)"

lemma run_loop_simps [simp, res_simps]:
  "run_loop (Some y) = Inr y" "run_loop None = Inl Diverges"
  by (simp_all add: run_loop_def)

section \<open>Ring indices\<close>

text \<open>
  A ring position is a free running \<open>uint32_t\<close>; the slot it names is its value modulo
  the buffer size 32, which the code computes with a mask. As 32 divides \<open>2 ^ 32\<close> the
  slot sequence does not jump when the position wraps around.
\<close>

lemma unat_and_31 [ring_simps]: "unat (x AND (31 :: 'a::len word)) = unat x mod 32"
proof -
  have "(31 :: 'a word) = mask 5"
    by (simp add: mask_eq_exp_minus_1)
  then have "x AND 31 = take_bit 5 x"
    by (simp add: take_bit_eq_mask)
  then have "unat (x AND 31) = take_bit 5 (unat x)"
    by (simp only: unsigned_take_bit_eq)
  then show ?thesis
    by (simp add: take_bit_eq_mod)
qed

lemma unat_add_of_nat_mod_32 [ring_simps]:
  "unat (c + of_nat n :: u32) mod 32 = (unat c + n) mod 32"
proof -
  have "unat (c + of_nat n :: u32) = (unat c + n) mod 2 ^ 32"
    by (simp add: unat_word_ariths unat_of_nat mod_simps)
  then have "unat (c + of_nat n :: u32) mod 32 = (unat c + n) mod (32 * 2 ^ 27) mod 32"
    by simp
  then show ?thesis
    by (simp only: mod_mod_cancel dvd_triv_left)
qed

lemma mod_32_inject:
  "(c + i) mod 32 = (c + j) mod 32 \<Longrightarrow> i < 32 \<Longrightarrow> j < 32 \<Longrightarrow> i = j" for c i j :: nat
proof (induction i j rule: linorder_wlog)
  case (le i j)
  then have "32 dvd (c + j) - (c + i)"
    by (metis mod_eq_dvd_iff_nat add_le_cancel_left)
  with le show ?case
    by (auto dest: dvd_imp_le)
next
  case (sym i j)
  then show ?case by simp
qed

lemma mod_32_less [simp]: "(n::nat) mod 32 < 32"
  by simp

section \<open>Casts and masks\<close>

lemma unat_ucast_u32_u64 [simp]: "unat (ucast (x :: u32) :: u64) = unat x"
proof -
  have "unat x < 2 ^ 32" using unsigned_less [of x] by simp
  then show ?thesis by (simp add: unsigned_ucast_eq take_bit_nat_eq_self)
qed

lemma and_mask_unat: "unat n < 2 ^ w \<Longrightarrow> n AND mask w = n" for n :: "'a::len word"
proof -
  assume "unat n < 2 ^ w"
  then have "unat (take_bit w n) = unat n"
    by (simp add: unsigned_take_bit_eq take_bit_nat_eq_self)
  then show ?thesis by (metis take_bit_eq_mask word_unat_eq_iff)
qed

lemma ucast_ucast_down_u32 [simp]: "ucast (ucast x :: u64) = x" for x :: u32
  by (rule bit_word_eqI) (simp add: bit_simps)

end
