(* ===== verification/Bitmap.thy ===== *)
theory Bitmap
  imports Machine
begin

unbundle bit_operations_syntax

text \<open>
  The bitmap helpers of \<open>include/sel4/rpc_queue.h\<close> that user-level code compiles when the
  Linux kernel's own are absent: \<open>_find_first_zero_bit\<close>, \<open>_set_bit\<close> and \<open>_clear_bit\<close>
  over an array of \<open>unsigned long\<close>. An access outside the array is the outcome
  \<open>Out_Of_Bounds\<close>. The lemmas relate each helper to the set of indices whose bit is one.
\<close>

section \<open>Definitions\<close>

type_synonym bitmap = "u64 list"

text \<open>\<open>DECLARE_BITMAP(name, bits)\<close>: the number of words of a bitmap of \<open>bits\<close> bits.\<close>
definition bitmap_words :: "nat \<Rightarrow> nat" where
  "bitmap_words bits = (bits + 8 * 8 - 1) div (8 * 8)"

text \<open>\<open>__builtin_ctzl\<close>: the index of the lowest one bit (unused for the argument 0).\<close>
function ctzl_from :: "u64 \<Rightarrow> nat \<Rightarrow> nat" where
  "ctzl_from v i = (if i < 64 \<and> \<not> bit v i then ctzl_from v (Suc i) else i)"
  by pat_completeness auto
termination
  by (relation "measure (\<lambda>(v, i). 64 - i)") auto

declare ctzl_from.simps [simp del]

definition ctzl :: "u64 \<Rightarrow> nat" where
  "ctzl v = ctzl_from v 0"

text \<open>The loop of \<open>_find_first_zero_bit\<close> from word \<open>i\<close> on.\<close>
function find_first_zero_bit_loop :: "bitmap \<Rightarrow> nat \<Rightarrow> nat \<Rightarrow> nat res" where
  "find_first_zero_bit_loop addr sz i =
     (if i * 64 < sz then
        if i < length addr then
          let v = NOT (addr ! i) in
          if v \<noteq> 0 then Inr (min (i * 64 + ctzl v) sz)
          else find_first_zero_bit_loop addr sz (Suc i)
        else Inl Out_Of_Bounds
      else Inr sz)"
  by pat_completeness auto
termination
  by (relation "measure (\<lambda>(addr, sz, i). sz - i)") auto

declare find_first_zero_bit_loop.simps [simp del]

definition find_first_zero_bit :: "bitmap \<Rightarrow> nat \<Rightarrow> nat res" where
  "find_first_zero_bit addr sz = find_first_zero_bit_loop addr sz 0"

definition bitmap_set_bit :: "nat \<Rightarrow> bitmap \<Rightarrow> bitmap res" where
  "bitmap_set_bit nr addr =
     (let mask = push_bit (nr mod 64) 1; w = nr div 64 in
      if w < length addr then Inr (addr[w := addr ! w OR mask]) else Inl Out_Of_Bounds)"

definition bitmap_clear_bit :: "nat \<Rightarrow> bitmap \<Rightarrow> bitmap res" where
  "bitmap_clear_bit nr addr =
     (let mask = push_bit (nr mod 64) 1; w = nr div 64 in
      if w < length addr then Inr (addr[w := addr ! w AND NOT mask]) else Inl Out_Of_Bounds)"

text \<open>The abstract content of a bitmap: the indices whose bit is one.\<close>
definition bitmap_test :: "bitmap \<Rightarrow> nat \<Rightarrow> bool" where
  "bitmap_test addr k \<longleftrightarrow> k div 64 < length addr \<and> bit (addr ! (k div 64)) (k mod 64)"

definition bits_set :: "bitmap \<Rightarrow> nat \<Rightarrow> nat set" where
  "bits_set addr sz = {k. k < sz \<and> bitmap_test addr k}"

section \<open>Trailing zeros\<close>

lemma ctzl_from_bounds: "i \<le> 64 \<Longrightarrow> i \<le> ctzl_from v i \<and> ctzl_from v i \<le> 64"
proof (induction v i rule: ctzl_from.induct)
  case (1 v i)
  then show ?case by (subst (1 2) ctzl_from.simps) (auto simp: not_less_eq_eq)
qed

lemma ctzl_from_zeros: "i \<le> k \<Longrightarrow> k < ctzl_from v i \<Longrightarrow> \<not> bit v k"
proof (induction v i rule: ctzl_from.induct)
  case (1 v i)
  show ?case
  proof (cases "i < 64 \<and> \<not> bit v i")
    case True
    with "1.prems" have "k < ctzl_from v (Suc i)"
      by (simp add: ctzl_from.simps [of v i])
    with 1 True show ?thesis
      by (cases "i = k") auto
  next
    case False
    with "1.prems" show ?thesis by (simp add: ctzl_from.simps [of v i])
  qed
qed

lemma ctzl_from_bit: "ctzl_from v i < 64 \<Longrightarrow> bit v (ctzl_from v i)"
proof (induction v i rule: ctzl_from.induct)
  case (1 v i)
  then show ?case
    by (cases "i < 64 \<and> \<not> bit v i") (auto simp: ctzl_from.simps [of v i])
qed

lemma ctzl_bit: "bit v (ctzl v)" "ctzl v < 64" if "v \<noteq> 0"
proof -
  show "ctzl v < 64"
  proof (rule ccontr)
    assume "\<not> ctzl v < 64"
    then have "\<not> bit v k" for k
      using ctzl_from_zeros [of 0 k v] bit_imp_le_length [of v k] by (auto simp: ctzl_def)
    then have "v = 0" by (auto intro: bit_eqI)
    with that show False by simp
  qed
  then show "bit v (ctzl v)"
    by (simp add: ctzl_def ctzl_from_bit)
qed

lemma ctzl_least: "k < ctzl v \<Longrightarrow> \<not> bit v k"
  using ctzl_from_zeros [of 0 k v] by (simp add: ctzl_def)

section \<open>First zero bit\<close>

text \<open>A bitmap big enough for \<open>sz\<close> bits.\<close>
abbreviation bitmap_holds :: "bitmap \<Rightarrow> nat \<Rightarrow> bool" where
  "bitmap_holds addr sz \<equiv> sz \<le> 64 * length addr"

lemma find_first_zero_bit_loop_spec:
  assumes "bitmap_holds addr sz" "\<forall>k < i * 64. k < sz \<longrightarrow> bitmap_test addr k"
  shows "\<exists>n \<le> sz. find_first_zero_bit_loop addr sz i = Inr n
           \<and> (\<forall>k < n. bitmap_test addr k) \<and> (n < sz \<longrightarrow> \<not> bitmap_test addr n)"
  using assms
proof (induction addr sz i rule: find_first_zero_bit_loop.induct)
  case (1 addr sz i)
  show ?case
  proof (cases "i * 64 < sz")
    case False
    with "1.prems" show ?thesis
      by (subst find_first_zero_bit_loop.simps) auto
  next
    case True
    with "1.prems" have i: "i < length addr" by simp
    show ?thesis
    proof (cases "NOT (addr ! i) = 0")
      case True
      then have "addr ! i = NOT 0" by (metis bit.double_compl)
      then have full: "bitmap_test addr k" if "i * 64 \<le> k" "k < Suc i * 64" for k
        using that i div_nat_eqI [of 64 i k] by (simp add: bitmap_test_def bit_simps algebra_simps)
      have "\<forall>k < Suc i * 64. k < sz \<longrightarrow> bitmap_test addr k"
        using "1.prems"(2) full by (metis not_less)
      with "1.IH" [OF \<open>i * 64 < sz\<close> i] True "1.prems"(1) show ?thesis
        by (subst find_first_zero_bit_loop.simps) (simp add: i)
    next
      case False
      define c where "c = ctzl (NOT (addr ! i))"
      have c: "c < 64" "\<not> bit (addr ! i) c" "\<And>k. k < c \<Longrightarrow> bit (addr ! i) k"
        using ctzl_bit [OF False] ctzl_least [of _ "NOT (addr ! i)"]
        by (auto simp: c_def bit_not_iff)
      have here: "bitmap_test addr k \<longleftrightarrow> bit (addr ! i) (k - i * 64)"
        if "i * 64 \<le> k" "k < Suc i * 64" for k
      proof -
        have "k div 64 = i" using that by (intro div_nat_eqI) auto
        moreover from this have "k mod 64 = k - i * 64" by (metis minus_div_mult_eq_mod)
        ultimately show ?thesis using i by (simp add: bitmap_test_def)
      qed
      have below: "bitmap_test addr k" if "k < i * 64 + c" "k < sz" for k
        using that c here [of k] "1.prems"(2) by (cases "k < i * 64") auto
      have "\<not> bitmap_test addr (i * 64 + c)"
        using c here [of "i * 64 + c"] by simp
      with below False \<open>i * 64 < sz\<close> i show ?thesis
        by (subst find_first_zero_bit_loop.simps)
          (auto simp: c_def [symmetric] min_def not_le)
    qed
  qed
qed

lemma find_first_zero_bit_spec:
  assumes "bitmap_holds addr sz"
  obtains n where "find_first_zero_bit addr sz = Inr n" "n \<le> sz"
    "\<And>k. k < n \<Longrightarrow> bitmap_test addr k" "n < sz \<Longrightarrow> \<not> bitmap_test addr n"
  using find_first_zero_bit_loop_spec [of sz addr 0] assms
  by (auto simp: find_first_zero_bit_def)

section \<open>Setting and clearing a bit\<close>

lemma bitmap_set_bit_test:
  "bitmap_set_bit nr addr = Inr addr' \<Longrightarrow> bitmap_test addr' k \<longleftrightarrow> k = nr \<or> bitmap_test addr k"
  by (auto simp: bitmap_set_bit_def bitmap_test_def Let_def bit_simps nth_list_update
      split: if_splits) (metis div_mult_mod_eq)+

lemma bitmap_clear_bit_test:
  "bitmap_clear_bit nr addr = Inr addr' \<Longrightarrow> bitmap_test addr' k \<longleftrightarrow> k \<noteq> nr \<and> bitmap_test addr k"
  by (auto simp: bitmap_clear_bit_def bitmap_test_def Let_def bit_simps nth_list_update
      split: if_splits) (metis div_mult_mod_eq)+

lemma bitmap_set_bit_ok:
  "nr < 64 * length addr \<Longrightarrow> \<exists>addr'. bitmap_set_bit nr addr = Inr addr' \<and> length addr' = length addr"
  by (simp add: bitmap_set_bit_def Let_def less_mult_imp_div_less mult.commute)

lemma bitmap_clear_bit_ok:
  "nr < 64 * length addr \<Longrightarrow> \<exists>addr'. bitmap_clear_bit nr addr = Inr addr' \<and> length addr' = length addr"
  by (simp add: bitmap_clear_bit_def Let_def less_mult_imp_div_less mult.commute)

section \<open>Properties\<close>

text \<open>
  \<open>_find_first_zero_bit\<close> on a bitmap big enough for \<open>size\<close> bits returns, without reading
  outside the array, the lowest index below \<open>size\<close> whose bit is zero, and \<open>size\<close> when
  there is none.
\<close>
lemma find_first_zero_bit_lowest:
  assumes "bitmap_holds addr sz"
  shows "find_first_zero_bit addr sz =
    Inr (if bits_set addr sz = {..<sz} then sz else (LEAST k. k < sz \<and> k \<notin> bits_set addr sz))"
  using assms
proof (rule find_first_zero_bit_spec)
  fix n assume n: "find_first_zero_bit addr sz = Inr n" "n \<le> sz"
    "\<And>k. k < n \<Longrightarrow> bitmap_test addr k" "n < sz \<Longrightarrow> \<not> bitmap_test addr n"
  show ?thesis
  proof (cases "n < sz")
    case True
    with n(3,4) have "(LEAST k. k < sz \<and> k \<notin> bits_set addr sz) = n" "n \<notin> bits_set addr sz"
      by (auto intro!: Least_equality simp: bits_set_def) (meson not_le)
    with n(1) True show ?thesis by auto
  next
    case False
    with n show ?thesis by (auto simp: bits_set_def)
  qed
qed

end
