(* ===== verification/Msg_Pool.thy ===== *)
theory Msg_Pool
  imports Bitmap
begin

text \<open>
  Message buffers of \<open>include/sel4/rpc_queue.h\<close> and their lending: the message and buffer
  types, the conversion between a message's address and its id, and
  \<open>rpcmsg_lend_buffer\<close>/\<open>rpcmsg_reclaim_buffer\<close> over the caller's bitmap
  \<open>rpcmsg_buffer_state_t\<close>.

  A \<open>rpcmsg_t *\<close> into a message buffer is its element offset from \<open>buffer->messages\<close>
  (a \<open>nat\<close>): every queue of one request-reply chain is built on the same buffer, so an
  offset names the same message in all of them. A null pointer is \<open>None\<close>.

  The locale \<open>slot_pool\<close> states what users of the lending bitmap rely on; it is
  interpreted on the definitions of this theory.
\<close>

section \<open>Definitions\<close>

definition RPCMSG_BUFFER_SIZE :: nat where
  "RPCMSG_BUFFER_SIZE = 32"

definition RPCMSG_BUFFER_MASK :: u32 where
  "RPCMSG_BUFFER_MASK = of_nat RPCMSG_BUFFER_SIZE - 1"

definition RPCMSG_HTD_MAX :: u32 where
  "RPCMSG_HTD_MAX = of_nat (RPCMSG_BUFFER_SIZE div 4)"

record rpcmsg =
  mr0 :: seL4_Word
  mr1 :: seL4_Word
  mr2 :: seL4_Word
  mr3 :: seL4_Word

text \<open>\<open>rpcmsg_buffer_t\<close>: the array \<open>messages[RPCMSG_BUFFER_SIZE]\<close>.\<close>
type_synonym rpcmsg_buffer = "rpcmsg list"

type_synonym msgptr = nat

definition zero_msg :: rpcmsg where
  "zero_msg = \<lparr>mr0 = 0, mr1 = 0, mr2 = 0, mr3 = 0\<rparr>"

definition rpcmsg_buffer_init :: "rpcmsg_buffer \<Rightarrow> rpcmsg_buffer" where
  "rpcmsg_buffer_init b = replicate RPCMSG_BUFFER_SIZE zero_msg"

definition rpcmsg_msg_to_id :: "msgptr \<Rightarrow> u16 res" where
  "rpcmsg_msg_to_id msg =
     (let i = of_nat msg :: u16 in
      if unat i < RPCMSG_BUFFER_SIZE then Inr i else Inl Assert_Failed)"

definition rpcmsg_id_to_msg :: "u16 \<Rightarrow> msgptr res" where
  "rpcmsg_id_to_msg i =
     (if unat i < RPCMSG_BUFFER_SIZE then Inr (unat i) else Inl Assert_Failed)"

text \<open>\<open>rpcmsg_buffer_state_init\<close>: \<open>memset\<close> of the whole bitmap to zero.\<close>
definition rpcmsg_buffer_state_init :: "bitmap \<Rightarrow> bitmap" where
  "rpcmsg_buffer_state_init st = replicate (bitmap_words RPCMSG_BUFFER_SIZE) 0"

definition rpcmsg_lend_buffer :: "bitmap \<Rightarrow> (msgptr option \<times> bitmap) res" where
  "rpcmsg_lend_buffer st =
     res_bind (find_first_zero_bit st RPCMSG_BUFFER_SIZE) (\<lambda>n.
       let i = of_nat n :: u16 in
       if RPCMSG_BUFFER_SIZE \<le> unat i then Inr (None, st)
       else res_bind (bitmap_set_bit (unat i) st) (\<lambda>st'.
              res_bind (rpcmsg_id_to_msg i) (\<lambda>msg. Inr (Some msg, st'))))"

definition rpcmsg_reclaim_buffer :: "bitmap \<Rightarrow> msgptr \<Rightarrow> bitmap res" where
  "rpcmsg_reclaim_buffer st msg =
     res_bind (rpcmsg_msg_to_id msg) (\<lambda>i. bitmap_clear_bit (unat i) st)"

text \<open>The ids that are lent, and a bitmap of the declared size.\<close>
definition lent :: "bitmap \<Rightarrow> msgptr set" where
  "lent st = bits_set st RPCMSG_BUFFER_SIZE"

definition pool_ok :: "bitmap \<Rightarrow> bool" where
  "pool_ok st \<longleftrightarrow> length st = bitmap_words RPCMSG_BUFFER_SIZE"

section \<open>Ids and addresses\<close>

lemma buffer_size_simps [simp]:
  "RPCMSG_BUFFER_SIZE = 32" "RPCMSG_BUFFER_MASK = 31" "RPCMSG_HTD_MAX = 8"
  by (simp_all add: RPCMSG_BUFFER_SIZE_def RPCMSG_BUFFER_MASK_def RPCMSG_HTD_MAX_def)

lemma bitmap_words_32 [simp]: "bitmap_words 32 = 1"
  by (simp add: bitmap_words_def)

lemma length_buffer_init [simp]: "length (rpcmsg_buffer_init b) = 32"
  by (simp add: rpcmsg_buffer_init_def)

lemma unat_of_nat_u16 [simp]: "n < 65536 \<Longrightarrow> unat (of_nat n :: u16) = n"
  by (simp add: unat_of_nat)

lemma msg_to_id_ok [simp]: "m < 32 \<Longrightarrow> rpcmsg_msg_to_id m = Inr (of_nat m)"
  by (simp add: rpcmsg_msg_to_id_def)

lemma id_to_msg_ok [simp]: "unat i < 32 \<Longrightarrow> rpcmsg_id_to_msg i = Inr (unat i)"
  by (simp add: rpcmsg_id_to_msg_def)

lemma id_to_msg_bad [simp]: "32 \<le> unat i \<Longrightarrow> rpcmsg_id_to_msg i = Inl Assert_Failed"
  by (simp add: rpcmsg_id_to_msg_def)

section \<open>The lending interface\<close>

locale slot_pool =
  fixes acquire :: "'s \<Rightarrow> ('i option \<times> 's) res"
    and release :: "'s \<Rightarrow> 'i \<Rightarrow> 's res"
    and held :: "'s \<Rightarrow> 'i set"
    and ids :: "'i set"
    and ok :: "'s \<Rightarrow> bool"
  assumes finite_ids: "finite ids"
    and held_ids: "ok s \<Longrightarrow> held s \<subseteq> ids"
    and acquire_free: "ok s \<Longrightarrow> held s \<noteq> ids \<Longrightarrow>
      \<exists>i s'. acquire s = Inr (Some i, s') \<and> ok s' \<and> i \<in> ids - held s \<and> held s' = insert i (held s)"
    and acquire_exhausted: "ok s \<Longrightarrow> held s = ids \<Longrightarrow> acquire s = Inr (None, s)"
    and release_id: "ok s \<Longrightarrow> i \<in> ids \<Longrightarrow>
      \<exists>s'. release s i = Inr s' \<and> ok s' \<and> held s' = held s - {i}"
begin

lemma finite_held: "ok s \<Longrightarrow> finite (held s)"
  using finite_ids held_ids finite_subset by blast

text \<open>An acquisition never stops, and its answer is decided by whether an id is free.\<close>
lemma acquire_total:
  assumes "ok s"
  obtains (none) "held s = ids" "acquire s = Inr (None, s)"
  | (some) i s' where "acquire s = Inr (Some i, s')" "ok s'" "i \<in> ids" "i \<notin> held s"
      "held s' = insert i (held s)" "card (held s') = Suc (card (held s))"
proof (cases "held s = ids")
  case True
  with assms none show thesis by (simp add: acquire_exhausted)
next
  case False
  with assms acquire_free obtain i s' where
    "acquire s = Inr (Some i, s')" "ok s'" "i \<in> ids - held s" "held s' = insert i (held s)"
    by blast
  with some finite_held [OF assms] show thesis by auto
qed

lemma acquire_release:
  assumes "ok s" "acquire s = Inr (Some i, s')"
  shows "\<exists>s''. release s' i = Inr s'' \<and> ok s'' \<and> held s'' = held s"
  using assms(1)
proof (cases rule: acquire_total)
  case none
  with assms show ?thesis by simp
next
  case (some i2 s2)
  with assms(2) have "ok s'" "i \<in> ids" "i \<notin> held s" "held s' = insert i (held s)"
    by auto
  with release_id [of s' i] show ?thesis by auto
qed

text \<open>An id that is held is never handed out again.\<close>
lemma acquire_fresh: "ok s \<Longrightarrow> acquire s = Inr (Some i, s') \<Longrightarrow> i \<notin> held s"
  by (erule acquire_total) auto

lemma acquire_below_capacity:
  assumes "ok s" "card (held s) < card ids"
  shows "\<exists>i s'. acquire s = Inr (Some i, s') \<and> ok s' \<and> i \<in> ids \<and> i \<notin> held s
           \<and> held s' = insert i (held s)"
  using assms(1) by (rule acquire_total) (use assms(2) in auto)

end

section \<open>The bitmap implements the interface\<close>

lemma lent_Collect: "lent st = {i. i < 32 \<and> bitmap_test st i}"
  by (simp add: lent_def bits_set_def)

lemma lent_subset: "lent st \<subseteq> {..<32}"
  by (auto simp: lent_Collect)

lemma pool_first_zero:
  assumes "pool_ok st"
  shows "\<exists>n \<le> 32. find_first_zero_bit st 32 = Inr n \<and> (\<forall>k < n. k \<in> lent st) \<and> n \<notin> lent st"
proof -
  have "bitmap_holds st 32" using assms by (simp add: pool_ok_def)
  then show ?thesis
    by (rule find_first_zero_bit_spec) (force simp: lent_Collect)
qed

lemma lend_exhausted:
  assumes "pool_ok st" "lent st = {..<32}"
  shows "rpcmsg_lend_buffer st = Inr (None, st)"
proof -
  obtain n where n: "find_first_zero_bit st 32 = Inr n" "n \<le> 32" "n \<notin> lent st"
    using pool_first_zero [OF assms(1)] by blast
  with assms(2) have "n = 32" by auto
  with n show ?thesis by (simp add: rpcmsg_lend_buffer_def)
qed

text \<open>Lending takes the lowest free id.\<close>
lemma lend_lowest:
  assumes "pool_ok st" "lent st \<noteq> {..<32}"
  obtains i st' where "rpcmsg_lend_buffer st = Inr (Some i, st')" "pool_ok st'" "i < 32"
    "i \<notin> lent st" "\<And>k. k < i \<Longrightarrow> k \<in> lent st" "lent st' = insert i (lent st)"
proof -
  obtain n where n: "find_first_zero_bit st 32 = Inr n" "n \<le> 32"
    "\<And>k. k < n \<Longrightarrow> k \<in> lent st" "n \<notin> lent st"
    using pool_first_zero [OF assms(1)] by blast
  then have "n < 32"
    using assms(2) lent_subset [of st] by (cases "n = 32") auto
  moreover obtain st' where st': "bitmap_set_bit n st = Inr st'" "length st' = length st"
    using bitmap_set_bit_ok [of n st] \<open>n < 32\<close> assms(1) by (auto simp: pool_ok_def)
  ultimately show thesis
    using n bitmap_set_bit_test [OF st'(1)] assms(1)
    by (intro that [of n st']) (auto simp: rpcmsg_lend_buffer_def pool_ok_def lent_Collect)
qed

lemma reclaim_lent:
  assumes "pool_ok st" "i < 32"
  obtains st' where "rpcmsg_reclaim_buffer st i = Inr st'" "pool_ok st'" "lent st' = lent st - {i}"
proof -
  obtain st' where st': "bitmap_clear_bit i st = Inr st'" "length st' = length st"
    using bitmap_clear_bit_ok [of i st] assms by (auto simp: pool_ok_def)
  with assms bitmap_clear_bit_test [OF st'(1)] show thesis
    by (intro that [of st']) (auto simp: rpcmsg_reclaim_buffer_def pool_ok_def lent_Collect)
qed

interpretation pool: slot_pool rpcmsg_lend_buffer rpcmsg_reclaim_buffer lent "{..<32}" pool_ok
proof unfold_locales
  show "finite {..<32::nat}" by simp
next
  fix st assume "pool_ok st"
  then show "lent st \<subseteq> {..<32}" by (simp add: lent_subset)
next
  fix st assume "pool_ok st" "lent st \<noteq> {..<32}"
  then show "\<exists>i s'. rpcmsg_lend_buffer st = Inr (Some i, s') \<and> pool_ok s'
      \<and> i \<in> {..<32} - lent st \<and> lent s' = insert i (lent st)"
    by (rule lend_lowest) auto
next
  fix st assume "pool_ok st" "lent st = {..<32}"
  then show "rpcmsg_lend_buffer st = Inr (None, st)" by (rule lend_exhausted)
next
  fix st and i :: nat assume "pool_ok st" "i \<in> {..<32}"
  then show "\<exists>s'. rpcmsg_reclaim_buffer st i = Inr s' \<and> pool_ok s' \<and> lent s' = lent st - {i}"
    by (auto elim: reclaim_lent)
qed

lemma lent_init [simp]: "lent (rpcmsg_buffer_state_init st) = {}"
  by (auto simp: lent_Collect rpcmsg_buffer_state_init_def bitmap_test_def)

lemma pool_ok_init [simp]: "pool_ok (rpcmsg_buffer_state_init st)"
  by (simp add: pool_ok_def rpcmsg_buffer_state_init_def)

section \<open>Properties\<close>

text \<open>
  Lending and reclaiming message buffers: while fewer than 32 are lent, the lowest id
  that is not lent is handed out and becomes lent; when all are lent, nothing is handed
  out and nothing changes; reclaiming what was just lent restores the set of lent ids.
\<close>
lemma lend_reclaim:
  assumes "pool_ok st"
  shows "if lent st = {..<32} then rpcmsg_lend_buffer st = Inr (None, st)
    else \<exists>i st' st''. rpcmsg_lend_buffer st = Inr (Some i, st') \<and> i < 32 \<and> i \<notin> lent st
      \<and> {..<i} \<subseteq> lent st \<and> pool_ok st' \<and> lent st' = insert i (lent st)
      \<and> rpcmsg_reclaim_buffer st' i = Inr st'' \<and> pool_ok st'' \<and> lent st'' = lent st"
proof (cases "lent st = {..<32}")
  case False
  with assms show ?thesis
  proof (rule lend_lowest)
    fix i st' assume lend: "rpcmsg_lend_buffer st = Inr (Some i, st')" "pool_ok st'" "i < 32"
      "i \<notin> lent st" "\<And>k. k < i \<Longrightarrow> k \<in> lent st" "lent st' = insert i (lent st)"
    with pool.acquire_release [OF assms lend(1)] False show ?thesis by auto
  qed
qed (use assms pool.acquire_exhausted in simp)

lemma lent_all [simp]: "lent [mask 32] = {..<32}"
  by (auto simp: lent_Collect bitmap_test_def bit_mask_iff)

lemma lent_low [simp]: "n < 32 \<Longrightarrow> lent [mask n] = {..<n}"
  by (auto simp: lent_Collect bitmap_test_def bit_mask_iff)

end
