(* ===== verification/Rpc_Queue.thy ===== *)
theory Rpc_Queue
  imports Msg_Pool
begin

unbundle bit_operations_syntax

text \<open>
  The ring queue of \<open>include/sel4/rpc_queue.h\<close> as one thread runs it with no other thread
  active: markers, bounds and the ring; acquiring an entry, committing it, enqueue and
  dequeue over an element function; the event queue and the request-reply queue built on
  them. The loops around the compare-and-swap and the head/tail distance wait are kept;
  not leaving one is the outcome \<open>Diverges\<close>. The interleaving of several threads on one
  queue is the subject of theory \<open>Rpc_Mpmc\<close>, over the same definitions.

  The locale \<open>bounded_fifo\<close> states the contract of a bounded queue of messages; it is
  interpreted on the event queue and on the request-reply queue.
\<close>

section \<open>Definitions\<close>

record rpcmsg_marker =
  marker_pos :: u32
  marker_count :: u32

record rpcmsg_queue_bound =
  bound_tail :: rpcmsg_marker
  bound_head :: rpcmsg_marker

record rpcmsg_queue =
  queue_prod :: rpcmsg_queue_bound
  queue_cons :: rpcmsg_queue_bound
  queue_ring :: "u16 list"

text \<open>The member \<open>val\<close> of the union \<open>rpcmsg_marker_t\<close> overlays \<open>marker.pos\<close>.\<close>
abbreviation marker_val :: "rpcmsg_marker \<Rightarrow> u32" where
  "marker_val m \<equiv> marker_pos m"

definition zero_marker :: rpcmsg_marker where
  "zero_marker = \<lparr>marker_pos = 0, marker_count = 0\<rparr>"

definition rpcmsg_queue_init :: "rpcmsg_queue \<Rightarrow> rpcmsg_queue" where
  "rpcmsg_queue_init q =
     \<lparr>queue_prod = \<lparr>bound_tail = zero_marker, bound_head = zero_marker\<rparr>,
      queue_cons = \<lparr>bound_tail = zero_marker, bound_head = zero_marker\<rparr>,
      queue_ring = replicate RPCMSG_BUFFER_SIZE 0\<rparr>"

definition rpcmsg_queue_full :: "rpcmsg_queue \<Rightarrow> bool" where
  "rpcmsg_queue_full q \<longleftrightarrow>
     of_nat RPCMSG_BUFFER_SIZE + marker_val (bound_tail (queue_cons q))
       - marker_val (bound_tail (queue_prod q)) = 0"

definition rpcmsg_queue_empty :: "rpcmsg_queue \<Rightarrow> bool" where
  "rpcmsg_queue_empty q \<longleftrightarrow>
     marker_val (bound_head (queue_prod q)) = marker_val (bound_head (queue_cons q))"

text \<open>
  \<open>atomic_compare_and_swap(p, o, n)\<close> of user-level code: success, the new memory content,
  and the new content of the expected value, which a failure overwrites with the memory's.
\<close>
definition atomic_compare_and_swap ::
  "rpcmsg_marker \<Rightarrow> rpcmsg_marker \<Rightarrow> rpcmsg_marker \<Rightarrow> bool \<times> rpcmsg_marker \<times> rpcmsg_marker" where
  "atomic_compare_and_swap mem old new = (if mem = old then (True, new, old) else (False, mem, mem))"

partial_function (option) rpcmsg_tail_wait ::
  "rpcmsg_queue_bound \<Rightarrow> rpcmsg_marker \<Rightarrow> rpcmsg_marker option" where
  "rpcmsg_tail_wait bound tail =
     (if RPCMSG_HTD_MAX < marker_pos tail - marker_pos (bound_head bound)
      then rpcmsg_tail_wait bound (bound_tail bound)
      else Some tail)"

definition prod_entries :: "rpcmsg_queue \<Rightarrow> rpcmsg_marker \<Rightarrow> u32" where
  "prod_entries q ot =
     of_nat RPCMSG_BUFFER_SIZE + marker_pos (bound_head (queue_cons q)) - marker_pos ot"

definition cons_entries :: "rpcmsg_queue \<Rightarrow> rpcmsg_marker \<Rightarrow> u32" where
  "cons_entries q ot = marker_pos (bound_head (queue_prod q)) - marker_pos ot"

definition next_marker :: "rpcmsg_marker \<Rightarrow> rpcmsg_marker" where
  "next_marker ot = \<lparr>marker_pos = marker_pos ot + 1, marker_count = marker_count ot + 1\<rparr>"

definition commit_marker :: "rpcmsg_marker \<Rightarrow> rpcmsg_marker \<Rightarrow> rpcmsg_marker" where
  "commit_marker oh t =
     (let nh = oh\<lparr>marker_count := marker_count oh + 1\<rparr> in
      if marker_count nh = marker_count t then nh\<lparr>marker_pos := marker_pos t\<rparr> else nh)"

text \<open>The \<open>do ... while\<close> of \<open>rpcmsg_acquire_prod_entry\<close>: return value, entry, queue.\<close>
partial_function (option) acquire_prod_loop ::
  "rpcmsg_queue \<Rightarrow> rpcmsg_marker \<Rightarrow> (int \<times> u32 \<times> rpcmsg_queue) option" where
  "acquire_prod_loop q ot0 =
     (case rpcmsg_tail_wait (queue_prod q) ot0 of
        None \<Rightarrow> None
      | Some ot \<Rightarrow>
          if prod_entries q ot = 0 then Some (-1, marker_pos ot, q)
          else (case atomic_compare_and_swap (bound_tail (queue_prod q)) ot (next_marker ot) of
                  (ok, tail, ot') \<Rightarrow>
                    if ok then Some (0, marker_pos ot, q\<lparr>queue_prod := (queue_prod q)\<lparr>bound_tail := tail\<rparr>\<rparr>)
                    else acquire_prod_loop q ot'))"

definition rpcmsg_acquire_prod_entry :: "rpcmsg_queue \<Rightarrow> (int \<times> u32 \<times> rpcmsg_queue) res" where
  "rpcmsg_acquire_prod_entry q = run_loop (acquire_prod_loop q (bound_tail (queue_prod q)))"

partial_function (option) acquire_cons_loop ::
  "rpcmsg_queue \<Rightarrow> rpcmsg_marker \<Rightarrow> (int \<times> u32 \<times> rpcmsg_queue) option" where
  "acquire_cons_loop q ot0 =
     (case rpcmsg_tail_wait (queue_cons q) ot0 of
        None \<Rightarrow> None
      | Some ot \<Rightarrow>
          if cons_entries q ot = 0 then Some (-1, marker_pos ot, q)
          else (case atomic_compare_and_swap (bound_tail (queue_cons q)) ot (next_marker ot) of
                  (ok, tail, ot') \<Rightarrow>
                    if ok then Some (0, marker_pos ot, q\<lparr>queue_cons := (queue_cons q)\<lparr>bound_tail := tail\<rparr>\<rparr>)
                    else acquire_cons_loop q ot'))"

definition rpcmsg_acquire_cons_entry :: "rpcmsg_queue \<Rightarrow> (int \<times> u32 \<times> rpcmsg_queue) res" where
  "rpcmsg_acquire_cons_entry q = run_loop (acquire_cons_loop q (bound_tail (queue_cons q)))"

partial_function (option) commit_loop ::
  "rpcmsg_queue_bound \<Rightarrow> rpcmsg_marker \<Rightarrow> rpcmsg_queue_bound option" where
  "commit_loop bound oh =
     (let t = bound_tail bound in
      case atomic_compare_and_swap (bound_head bound) oh (commit_marker oh t) of
        (ok, head, oh') \<Rightarrow>
          if ok then Some (bound\<lparr>bound_head := head\<rparr>) else commit_loop bound oh')"

definition rpcmsg_commit_update :: "rpcmsg_queue_bound \<Rightarrow> rpcmsg_queue_bound res" where
  "rpcmsg_commit_update bound = run_loop (commit_loop bound (bound_head bound))"

type_synonym 'd enqueue_elem_fn =
  "rpcmsg_queue \<Rightarrow> rpcmsg_buffer \<Rightarrow> u32 \<Rightarrow> 'd \<Rightarrow> (rpcmsg_queue \<times> rpcmsg_buffer) res"
type_synonym 'd dequeue_elem_fn = "rpcmsg_queue \<Rightarrow> rpcmsg_buffer \<Rightarrow> u32 \<Rightarrow> 'd res"

definition rpcmsg_enqueue ::
  "rpcmsg_queue \<Rightarrow> rpcmsg_buffer \<Rightarrow> 'd enqueue_elem_fn \<Rightarrow> 'd
     \<Rightarrow> (int \<times> rpcmsg_queue \<times> rpcmsg_buffer) res" where
  "rpcmsg_enqueue q b enqueue_fn data =
     res_bind (rpcmsg_acquire_prod_entry q) (\<lambda>(rc, entry, q).
       if rc \<noteq> 0 then Inr (-1, q, b)
       else res_bind (enqueue_fn q b (entry AND RPCMSG_BUFFER_MASK) data) (\<lambda>(q, b).
              res_bind (rpcmsg_commit_update (queue_prod q)) (\<lambda>bound.
                Inr (0, q\<lparr>queue_prod := bound\<rparr>, b))))"

text \<open>\<open>data\<close> is the old content of the caller's \<open>*data\<close>, left alone on failure.\<close>
definition rpcmsg_dequeue ::
  "rpcmsg_queue \<Rightarrow> rpcmsg_buffer \<Rightarrow> 'd dequeue_elem_fn \<Rightarrow> 'd
     \<Rightarrow> (int \<times> 'd \<times> rpcmsg_queue) res" where
  "rpcmsg_dequeue q b dequeue_fn data =
     res_bind (rpcmsg_acquire_cons_entry q) (\<lambda>(rc, entry, q).
       if rc \<noteq> 0 then Inr (-1, data, q)
       else res_bind (dequeue_fn q b (entry AND RPCMSG_BUFFER_MASK)) (\<lambda>data.
              res_bind (rpcmsg_commit_update (queue_cons q)) (\<lambda>bound.
                Inr (0, data, q\<lparr>queue_cons := bound\<rparr>))))"

text \<open>Writes and reads of the two arrays, with their bounds.\<close>
definition ring_write :: "rpcmsg_queue \<Rightarrow> u32 \<Rightarrow> u16 \<Rightarrow> rpcmsg_queue res" where
  "ring_write q k i =
     (if unat k < length (queue_ring q)
      then Inr (q\<lparr>queue_ring := (queue_ring q)[unat k := i]\<rparr>) else Inl Out_Of_Bounds)"

definition ring_read :: "rpcmsg_queue \<Rightarrow> u32 \<Rightarrow> u16 res" where
  "ring_read q k =
     (if unat k < length (queue_ring q) then Inr (queue_ring q ! unat k) else Inl Out_Of_Bounds)"

definition msg_write :: "rpcmsg_buffer \<Rightarrow> msgptr \<Rightarrow> rpcmsg \<Rightarrow> rpcmsg_buffer res" where
  "msg_write b m v = (if m < length b then Inr (b[m := v]) else Inl Out_Of_Bounds)"

definition msg_read :: "rpcmsg_buffer \<Rightarrow> msgptr \<Rightarrow> rpcmsg res" where
  "msg_read b m = (if m < length b then Inr (b ! m) else Inl Out_Of_Bounds)"

definition rpcmsg_event_enqueue_fn :: "rpcmsg enqueue_elem_fn" where
  "rpcmsg_event_enqueue_fn q b ring_index data =
     res_bind (rpcmsg_id_to_msg (ucast ring_index)) (\<lambda>msg.
       res_bind (msg_write b msg data) (\<lambda>b.
         res_bind (rpcmsg_msg_to_id msg) (\<lambda>i.
           res_bind (ring_write q ring_index i) (\<lambda>q. Inr (q, b)))))"

definition rpcmsg_event_tx ::
  "rpcmsg_queue \<Rightarrow> rpcmsg_buffer \<Rightarrow> seL4_Word \<Rightarrow> seL4_Word \<Rightarrow> seL4_Word \<Rightarrow> seL4_Word
     \<Rightarrow> (int \<times> rpcmsg_queue \<times> rpcmsg_buffer) res" where
  "rpcmsg_event_tx q b r0 r1 r2 r3 =
     rpcmsg_enqueue q b rpcmsg_event_enqueue_fn \<lparr>mr0 = r0, mr1 = r1, mr2 = r2, mr3 = r3\<rparr>"

definition rpcmsg_event_dequeue_fn :: "rpcmsg dequeue_elem_fn" where
  "rpcmsg_event_dequeue_fn q b ring_index =
     res_bind (ring_read q ring_index) (\<lambda>i.
       res_bind (rpcmsg_id_to_msg i) (msg_read b))"

definition rpcmsg_event_rx ::
  "rpcmsg_queue \<Rightarrow> rpcmsg_buffer \<Rightarrow> rpcmsg \<Rightarrow> (int \<times> rpcmsg \<times> rpcmsg_queue) res" where
  "rpcmsg_event_rx q b msg = rpcmsg_dequeue q b rpcmsg_event_dequeue_fn msg"

definition rpcmsg_rpc_enqueue_fn :: "msgptr enqueue_elem_fn" where
  "rpcmsg_rpc_enqueue_fn q b ring_index data =
     res_bind (rpcmsg_msg_to_id data) (\<lambda>i.
       res_bind (ring_write q ring_index i) (\<lambda>q. Inr (q, b)))"

text \<open>\<open>rpcmsg_request\<close> on the request queue, its buffer and the caller's lending bitmap.\<close>
definition rpcmsg_request ::
  "rpcmsg_queue \<Rightarrow> rpcmsg_buffer \<Rightarrow> bitmap
     \<Rightarrow> seL4_Word \<Rightarrow> seL4_Word \<Rightarrow> seL4_Word \<Rightarrow> seL4_Word
     \<Rightarrow> (int \<times> rpcmsg_queue \<times> rpcmsg_buffer \<times> bitmap) res" where
  "rpcmsg_request q b st r0 r1 r2 r3 =
     res_bind (rpcmsg_lend_buffer st) (\<lambda>(msg, st).
       case msg of
         None \<Rightarrow> Inl Null_Deref
       | Some msg \<Rightarrow>
           res_bind (msg_write b msg \<lparr>mr0 = r0, mr1 = r1, mr2 = r2, mr3 = r3\<rparr>) (\<lambda>b.
             res_bind (rpcmsg_enqueue q b rpcmsg_rpc_enqueue_fn msg) (\<lambda>(rc, q, b).
               if rc \<noteq> 0 then res_bind (rpcmsg_reclaim_buffer st msg) (\<lambda>st. Inr (-1, q, b, st))
               else res_bind (rpcmsg_msg_to_id msg) (\<lambda>i. Inr (int (unat i), q, b, st)))))"

definition rpcmsg_rpc_dequeue_fn :: "msgptr option dequeue_elem_fn" where
  "rpcmsg_rpc_dequeue_fn q b ring_index =
     res_bind (ring_read q ring_index) (\<lambda>i.
       res_bind (rpcmsg_id_to_msg i) (\<lambda>m. Inr (Some m)))"

definition rpcmsg_receive ::
  "rpcmsg_queue \<Rightarrow> rpcmsg_buffer \<Rightarrow> (msgptr option \<times> rpcmsg_queue) res" where
  "rpcmsg_receive q b =
     res_bind (rpcmsg_dequeue q b rpcmsg_rpc_dequeue_fn None) (\<lambda>(rc, msg, q).
       if rc = 0 then Inr (msg, q) else Inr (None, q))"

definition rpcmsg_reply ::
  "rpcmsg_queue \<Rightarrow> rpcmsg_buffer \<Rightarrow> msgptr \<Rightarrow> (int \<times> rpcmsg_queue \<times> rpcmsg_buffer) res" where
  "rpcmsg_reply q b msg = rpcmsg_enqueue q b rpcmsg_rpc_enqueue_fn msg"

text \<open>
  \<open>rpcmsg_receive_response\<close>: \<open>transaction_id\<close> is \<open>None\<close> for a null pointer, otherwise the
  old content of \<open>*transaction_id\<close>.
\<close>
definition rpcmsg_receive_response ::
  "rpcmsg_queue \<Rightarrow> rpcmsg_buffer \<Rightarrow> u16 option \<Rightarrow> (msgptr option \<times> u16 option \<times> rpcmsg_queue) res"
where
  "rpcmsg_receive_response q b transaction_id =
     res_bind (rpcmsg_dequeue q b rpcmsg_rpc_dequeue_fn None) (\<lambda>(rc, msg, q).
       if rc = 0 \<and> transaction_id \<noteq> None then
         (case msg of
            None \<Rightarrow> Inl Assert_Failed
          | Some m \<Rightarrow> res_bind (rpcmsg_msg_to_id m) (\<lambda>i. Inr (msg, Some i, q)))
       else Inr (msg, transaction_id, q))"

definition rpcmsg_forward ::
  "rpcmsg_queue \<Rightarrow> rpcmsg_buffer \<Rightarrow> msgptr \<Rightarrow> (int \<times> rpcmsg_queue \<times> rpcmsg_buffer) res" where
  "rpcmsg_forward q b msg = rpcmsg_enqueue q b rpcmsg_rpc_enqueue_fn msg"

section \<open>Ring slots\<close>

text \<open>The ring slots of \<open>n\<close> consecutive positions from \<open>c\<close> on, oldest first.\<close>
definition slots :: "nat \<Rightarrow> nat \<Rightarrow> nat list" where
  "slots c n = map (\<lambda>i. (c + i) mod 32) [0..<n]"

lemma length_slots [simp]: "length (slots c n) = n"
  by (simp add: slots_def)

lemma slots_0 [simp]: "slots c 0 = []"
  by (simp add: slots_def)

lemma slots_snoc: "slots c (Suc n) = slots c n @ [(c + n) mod 32]"
  by (simp add: slots_def)

lemma slots_cons: "slots c (Suc n) = c mod 32 # slots (Suc c) n"
  unfolding slots_def by (simp only: map_upt_Suc) simp

lemma slots_mod: "slots (c mod 32) n = slots c n"
  by (simp add: slots_def mod_simps)

lemma set_slots_less: "s \<in> set (slots c n) \<Longrightarrow> s < 32"
  by (auto simp: slots_def)

lemma slot_fresh: "n < 32 \<Longrightarrow> (c + n) mod 32 \<notin> set (slots c n)"
  by (auto simp: slots_def dest!: mod_32_inject)

lemma slots_Suc_word: "slots (unat (c + 1 :: u32)) n = slots (Suc (unat c)) n"
  using unat_add_of_nat_mod_32 [of c 1] by (metis slots_mod of_nat_1 Suc_eq_plus1)

section \<open>Quiescent queues\<close>

text \<open>
  A queue no operation is in progress on: each bound's head has caught up with its tail,
  and at most 32 entries are queued. The invariant every completed operation keeps.
\<close>
definition queue_len :: "rpcmsg_queue \<Rightarrow> nat" where
  "queue_len q =
     unat (marker_pos (bound_head (queue_prod q)) - marker_pos (bound_head (queue_cons q)))"

definition queue_slots :: "rpcmsg_queue \<Rightarrow> nat list" where
  "queue_slots q = slots (unat (marker_pos (bound_head (queue_cons q)))) (queue_len q)"

definition queue_ok :: "rpcmsg_queue \<Rightarrow> bool" where
  "queue_ok q \<longleftrightarrow>
     bound_head (queue_prod q) = bound_tail (queue_prod q)
     \<and> bound_head (queue_cons q) = bound_tail (queue_cons q)
     \<and> length (queue_ring q) = 32 \<and> queue_len q \<le> 32"

text \<open>The queue after one completed enqueue or dequeue that leaves the ring as \<open>r\<close>.\<close>
definition advance_prod :: "rpcmsg_queue \<Rightarrow> u16 list \<Rightarrow> rpcmsg_queue" where
  "advance_prod q r =
     (let m = next_marker (bound_tail (queue_prod q)) in
      q\<lparr>queue_prod := \<lparr>bound_tail = m, bound_head = m\<rparr>, queue_ring := r\<rparr>)"

definition advance_cons :: "rpcmsg_queue \<Rightarrow> rpcmsg_queue" where
  "advance_cons q =
     (let m = next_marker (bound_tail (queue_cons q)) in
      q\<lparr>queue_cons := \<lparr>bound_tail = m, bound_head = m\<rparr>\<rparr>)"

definition prod_slot :: "rpcmsg_queue \<Rightarrow> nat" where
  "prod_slot q = unat (marker_pos (bound_tail (queue_prod q)) AND 31)"

definition cons_slot :: "rpcmsg_queue \<Rightarrow> nat" where
  "cons_slot q = unat (marker_pos (bound_tail (queue_cons q)) AND 31)"

lemma queue_len_queue_slots [simp]: "length (queue_slots q) = queue_len q"
  by (simp add: queue_slots_def)

lemma queue_slots_less: "s \<in> set (queue_slots q) \<Longrightarrow> s < 32"
  by (auto simp: queue_slots_def dest: set_slots_less)

lemma slot_less [simp]: "prod_slot q < 32" "cons_slot q < 32"
  by (simp_all add: prod_slot_def cons_slot_def ring_simps)

lemma queue_init_ok [simp]: "queue_ok (rpcmsg_queue_init q)" "queue_slots (rpcmsg_queue_init q) = []"
  by (simp_all add: queue_ok_def rpcmsg_queue_init_def queue_len_def queue_slots_def zero_marker_def)

subsection \<open>The loops on a quiescent queue\<close>

lemma tail_wait_quiet:
  "marker_pos tail = marker_pos (bound_head bound) \<Longrightarrow> rpcmsg_tail_wait bound tail = Some tail"
  by (subst rpcmsg_tail_wait.simps) simp

lemma acquire_prod_quiet:
  "bound_head (queue_prod q) = bound_tail (queue_prod q) \<Longrightarrow>
   rpcmsg_acquire_prod_entry q =
     (let t = bound_tail (queue_prod q) in
      if prod_entries q t = 0 then Inr (-1, marker_pos t, q)
      else Inr (0, marker_pos t, q\<lparr>queue_prod := (queue_prod q)\<lparr>bound_tail := next_marker t\<rparr>\<rparr>))"
  unfolding rpcmsg_acquire_prod_entry_def
  by (subst acquire_prod_loop.simps) (simp add: tail_wait_quiet atomic_compare_and_swap_def Let_def)

lemma acquire_cons_quiet:
  "bound_head (queue_cons q) = bound_tail (queue_cons q) \<Longrightarrow>
   rpcmsg_acquire_cons_entry q =
     (let t = bound_tail (queue_cons q) in
      if cons_entries q t = 0 then Inr (-1, marker_pos t, q)
      else Inr (0, marker_pos t, q\<lparr>queue_cons := (queue_cons q)\<lparr>bound_tail := next_marker t\<rparr>\<rparr>))"
  unfolding rpcmsg_acquire_cons_entry_def
  by (subst acquire_cons_loop.simps) (simp add: tail_wait_quiet atomic_compare_and_swap_def Let_def)

lemma commit_last:
  "bound_tail bound = next_marker (bound_head bound) \<Longrightarrow>
   rpcmsg_commit_update bound = Inr (bound\<lparr>bound_head := bound_tail bound\<rparr>)"
  unfolding rpcmsg_commit_update_def
  by (subst commit_loop.simps)
    (simp add: atomic_compare_and_swap_def Let_def commit_marker_def next_marker_def)

lemma sub_eq_32_iff: "a - b = (32 :: u32) \<longleftrightarrow> unat (a - b) = 32"
  by (simp only: word_unat_eq_iff) simp

lemma prod_entries_0_iff:
  assumes "queue_ok q"
  shows "prod_entries q (bound_tail (queue_prod q)) = 0 \<longleftrightarrow> queue_len q = 32"
proof -
  define p c where "p = marker_pos (bound_head (queue_prod q))"
    and "c = marker_pos (bound_head (queue_cons q))"
  have "32 + c - p = 0 \<longleftrightarrow> p - c = 32" by (auto simp: algebra_simps)
  also have "\<dots> \<longleftrightarrow> unat (p - c) = 32" by (rule sub_eq_32_iff)
  finally show ?thesis
    using assms by (simp add: queue_ok_def prod_entries_def queue_len_def p_def c_def)
qed

lemma cons_entries_0_iff:
  "queue_ok q \<Longrightarrow> cons_entries q (bound_tail (queue_cons q)) = 0 \<longleftrightarrow> queue_len q = 0"
  by (simp add: queue_ok_def cons_entries_def queue_len_def unat_eq_0)

subsection \<open>Advancing\<close>

lemma queue_len_advance_prod:
  assumes "queue_ok q" "queue_len q < 32"
  shows "queue_len (advance_prod q r) = Suc (queue_len q)"
proof -
  define d where "d = marker_pos (bound_head (queue_prod q)) - marker_pos (bound_head (queue_cons q))"
  have "unat (d + 1) = Suc (unat d)"
    using assms(2) by (simp add: unat_word_ariths d_def queue_len_def)
  with assms(1) show ?thesis
    by (simp add: queue_len_def advance_prod_def next_marker_def queue_ok_def d_def Let_def algebra_simps)
qed

lemma queue_len_advance_cons:
  assumes "queue_ok q" "queue_len q \<noteq> 0"
  shows "queue_len q = Suc (queue_len (advance_cons q))"
proof -
  define d where "d = marker_pos (bound_head (queue_prod q)) - marker_pos (bound_head (queue_cons q))"
  have "d \<noteq> 0" using assms(2) by (auto simp: d_def queue_len_def)
  then have "unat d = Suc (unat (d - 1))"
    by (simp add: unat_minus_one unat_gt_0)
  with assms(1) show ?thesis
    by (simp add: queue_len_def advance_cons_def next_marker_def queue_ok_def d_def Let_def algebra_simps)
qed

lemma queue_ok_advance_prod:
  "queue_ok q \<Longrightarrow> queue_len q < 32 \<Longrightarrow> length r = 32 \<Longrightarrow> queue_ok (advance_prod q r)"
  using queue_len_advance_prod [of q r]
  by (simp add: queue_ok_def advance_prod_def Let_def)

lemma queue_ok_advance_cons: "queue_ok q \<Longrightarrow> queue_len q \<noteq> 0 \<Longrightarrow> queue_ok (advance_cons q)"
  using queue_len_advance_cons [of q]
  by (simp add: queue_ok_def advance_cons_def Let_def)

lemma prod_slot_eq:
  assumes "queue_ok q"
  shows "prod_slot q = (unat (marker_pos (bound_head (queue_cons q))) + queue_len q) mod 32"
proof -
  have "marker_pos (bound_tail (queue_prod q)) =
      marker_pos (bound_head (queue_cons q)) + of_nat (queue_len q)"
    using assms by (simp add: queue_ok_def queue_len_def)
  then show ?thesis by (simp add: prod_slot_def ring_simps)
qed

lemma slots_advance_prod:
  assumes "queue_ok q" "queue_len q < 32"
  shows "queue_slots (advance_prod q r) = queue_slots q @ [prod_slot q]"
  using assms queue_len_advance_prod [OF assms, of r]
  by (simp add: queue_slots_def prod_slot_eq slots_snoc advance_prod_def Let_def)

lemma prod_slot_fresh: "queue_ok q \<Longrightarrow> queue_len q < 32 \<Longrightarrow> prod_slot q \<notin> set (queue_slots q)"
  by (simp add: prod_slot_eq queue_slots_def slot_fresh)

lemma slots_advance_cons:
  assumes "queue_ok q" "queue_len q \<noteq> 0"
  shows "queue_slots q = cons_slot q # queue_slots (advance_cons q)"
proof -
  have "queue_slots q =
      slots (unat (marker_pos (bound_tail (queue_cons q)))) (Suc (queue_len (advance_cons q)))"
    using assms queue_len_advance_cons [OF assms] by (simp add: queue_slots_def queue_ok_def)
  then show ?thesis
    by (simp add: slots_cons cons_slot_def ring_simps queue_slots_def advance_cons_def Let_def
        next_marker_def slots_Suc_word)
qed

section \<open>Enqueue and dequeue on a quiescent queue\<close>

lemma enqueue_full:
  "queue_ok q \<Longrightarrow> queue_len q = 32 \<Longrightarrow> rpcmsg_enqueue q b f d = Inr (-1, q, b)"
  using prod_entries_0_iff [of q]
  by (simp add: rpcmsg_enqueue_def acquire_prod_quiet queue_ok_def Let_def)

lemma enqueue_advances:
  assumes "queue_ok q" "queue_len q < 32"
    and elem: "\<And>q1. queue_ring q1 = queue_ring q \<Longrightarrow>
      f q1 b (marker_pos (bound_tail (queue_prod q)) AND 31) d = Inr (q1\<lparr>queue_ring := r\<rparr>, b')"
  shows "rpcmsg_enqueue q b f d = Inr (0, advance_prod q r, b')"
  using assms(1,2) prod_entries_0_iff [OF assms(1)]
  by (simp add: rpcmsg_enqueue_def acquire_prod_quiet queue_ok_def Let_def elem commit_last advance_prod_def)

lemma dequeue_empty:
  "queue_ok q \<Longrightarrow> queue_len q = 0 \<Longrightarrow> rpcmsg_dequeue q b f d = Inr (-1, d, q)"
  using cons_entries_0_iff [of q]
  by (simp add: rpcmsg_dequeue_def acquire_cons_quiet queue_ok_def Let_def)

lemma dequeue_advances:
  assumes "queue_ok q" "queue_len q \<noteq> 0"
    and elem: "\<And>q1. queue_ring q1 = queue_ring q \<Longrightarrow>
      f q1 b (marker_pos (bound_tail (queue_cons q)) AND 31) = Inr v"
  shows "rpcmsg_dequeue q b f d = Inr (0, v, advance_cons q)"
  using assms(1,2) cons_entries_0_iff [OF assms(1)]
  by (simp add: rpcmsg_dequeue_def acquire_cons_quiet queue_ok_def Let_def elem commit_last advance_cons_def)

lemma unat_ucast_u16 [simp]: "unat (ucast k :: u16) = unat k" if "unat (k :: u32) < 32"
  using that by (simp add: unsigned_ucast_eq take_bit_nat_eq_self)

lemma event_elem:
  "unat k < 32 \<Longrightarrow> length b = 32 \<Longrightarrow> length (queue_ring q) = 32 \<Longrightarrow>
   rpcmsg_event_enqueue_fn q b k d =
     Inr (q\<lparr>queue_ring := (queue_ring q)[unat k := of_nat (unat k)]\<rparr>, b[unat k := d])"
  by (simp add: rpcmsg_event_enqueue_fn_def msg_write_def ring_write_def)

lemma rpc_elem:
  "unat k < 32 \<Longrightarrow> m < 32 \<Longrightarrow> length (queue_ring q) = 32 \<Longrightarrow>
   rpcmsg_rpc_enqueue_fn q b k m = Inr (q\<lparr>queue_ring := (queue_ring q)[unat k := of_nat m]\<rparr>, b)"
  by (simp add: rpcmsg_rpc_enqueue_fn_def ring_write_def)

section \<open>The contract of a bounded queue\<close>

text \<open>Sending a list of messages, stopping at the first failure; receiving at most \<open>n\<close>.\<close>
fun send_all :: "('s \<Rightarrow> 'a \<Rightarrow> (int \<times> 's) res) \<Rightarrow> 's \<Rightarrow> 'a list \<Rightarrow> (int \<times> 's) res" where
  "send_all send s [] = Inr (0, s)"
| "send_all send s (x # xs) =
     res_bind (send s x) (\<lambda>(rc, s). if rc \<noteq> 0 then Inr (rc, s) else send_all send s xs)"

fun drain :: "('s \<Rightarrow> ('a option \<times> 's) res) \<Rightarrow> nat \<Rightarrow> 's \<Rightarrow> ('a list \<times> 's) res" where
  "drain recv 0 s = Inr ([], s)"
| "drain recv (Suc n) s =
     res_bind (recv s) (\<lambda>(m, s).
       case m of None \<Rightarrow> Inr ([], s)
       | Some x \<Rightarrow> res_bind (drain recv n s) (\<lambda>(xs, s). Inr (x # xs, s)))"

locale bounded_fifo =
  fixes send :: "'s \<Rightarrow> 'a \<Rightarrow> (int \<times> 's) res"
    and recv :: "'s \<Rightarrow> ('a option \<times> 's) res"
    and queued :: "'s \<Rightarrow> 'a list"
    and ok :: "'s \<Rightarrow> bool"
    and valid :: "'a \<Rightarrow> bool"
    and cap :: nat
  assumes queued_cap: "ok s \<Longrightarrow> length (queued s) \<le> cap"
    and send_ok: "ok s \<Longrightarrow> valid x \<Longrightarrow> length (queued s) < cap \<Longrightarrow>
      \<exists>s'. send s x = Inr (0, s') \<and> ok s' \<and> queued s' = queued s @ [x]"
    and send_full: "ok s \<Longrightarrow> length (queued s) = cap \<Longrightarrow> send s x = Inr (-1, s)"
    and recv_ok: "ok s \<Longrightarrow> queued s = x # xs \<Longrightarrow>
      \<exists>s'. recv s = Inr (Some x, s') \<and> ok s' \<and> queued s' = xs"
    and recv_empty: "ok s \<Longrightarrow> queued s = [] \<Longrightarrow> recv s = Inr (None, s)"
begin

lemma send_all_fits:
  "ok s \<Longrightarrow> \<forall>x \<in> set xs. valid x \<Longrightarrow> length (queued s) + length xs \<le> cap \<Longrightarrow>
   \<exists>s'. send_all send s xs = Inr (0, s') \<and> ok s' \<and> queued s' = queued s @ xs"
proof (induction xs arbitrary: s)
  case Nil
  then show ?case by simp
next
  case (Cons x xs)
  from Cons.prems send_ok [of s x] obtain s1 where
    s1: "send s x = Inr (0, s1)" "ok s1" "queued s1 = queued s @ [x]"
    by auto
  with Cons.prems Cons.IH [of s1] show ?case by auto
qed

lemma drain_all:
  "ok s \<Longrightarrow> length (queued s) \<le> n \<Longrightarrow>
   \<exists>s'. drain recv n s = Inr (queued s, s') \<and> ok s' \<and> queued s' = []"
proof (induction n arbitrary: s)
  case 0
  then show ?case by simp
next
  case (Suc n)
  show ?case
  proof (cases "queued s")
    case Nil
    with Suc.prems recv_empty [of s] show ?thesis by simp
  next
    case (Cons x xs)
    with Suc.prems recv_ok [of s x xs] obtain s1 where
      s1: "recv s = Inr (Some x, s1)" "ok s1" "queued s1 = xs"
      by auto
    with Suc.prems Cons Suc.IH [of s1] show ?thesis by auto
  qed
qed

text \<open>What is sent on an empty queue is received once, in order, and nothing else.\<close>
lemma fifo_roundtrip:
  assumes "ok s" "queued s = []" "\<forall>x \<in> set xs. valid x" "length xs \<le> cap"
  shows "\<exists>s1 s2. send_all send s xs = Inr (0, s1) \<and> drain recv cap s1 = Inr (xs, s2)
           \<and> ok s2 \<and> queued s2 = []"
proof -
  obtain s1 where "send_all send s xs = Inr (0, s1)" "ok s1" "queued s1 = xs"
    using send_all_fits [OF assms(1,3)] assms(2,4) by auto
  with drain_all [of s1 cap] assms(4) show ?thesis by auto
qed

text \<open>A send fails exactly when the queue is full, and then changes nothing.\<close>
lemma send_fails_iff:
  assumes "ok s" "valid x"
  shows "send s x = Inr (-1, s) \<longleftrightarrow> length (queued s) = cap"
  using assms send_ok [of s x] send_full [of s x] queued_cap [of s]
  by (cases "length (queued s) < cap") auto

end

section \<open>The event queue and the request-reply queue implement it\<close>

definition event_send :: "rpcmsg_queue \<times> rpcmsg_buffer \<Rightarrow> rpcmsg \<Rightarrow> (int \<times> rpcmsg_queue \<times> rpcmsg_buffer) res" where
  "event_send s m = rpcmsg_event_tx (fst s) (snd s) (mr0 m) (mr1 m) (mr2 m) (mr3 m)"

definition event_recv :: "rpcmsg_queue \<times> rpcmsg_buffer \<Rightarrow> (rpcmsg option \<times> rpcmsg_queue \<times> rpcmsg_buffer) res" where
  "event_recv s =
     res_bind (rpcmsg_event_rx (fst s) (snd s) zero_msg) (\<lambda>(rc, m, q).
       Inr (if rc = 0 then Some m else None, q, snd s))"

definition event_msgs :: "rpcmsg_queue \<times> rpcmsg_buffer \<Rightarrow> rpcmsg list" where
  "event_msgs s = map (\<lambda>k. snd s ! unat (queue_ring (fst s) ! k)) (queue_slots (fst s))"

text \<open>Every queued event sits in the message of its own ring slot.\<close>
definition event_ok :: "rpcmsg_queue \<times> rpcmsg_buffer \<Rightarrow> bool" where
  "event_ok s \<longleftrightarrow> queue_ok (fst s) \<and> length (snd s) = 32
     \<and> (\<forall>k \<in> set (queue_slots (fst s)). unat (queue_ring (fst s) ! k) = k)"

definition rpc_send :: "rpcmsg_queue \<times> rpcmsg_buffer \<Rightarrow> msgptr \<Rightarrow> (int \<times> rpcmsg_queue \<times> rpcmsg_buffer) res" where
  "rpc_send s m = rpcmsg_reply (fst s) (snd s) m"

definition rpc_recv :: "rpcmsg_queue \<times> rpcmsg_buffer \<Rightarrow> (msgptr option \<times> rpcmsg_queue \<times> rpcmsg_buffer) res" where
  "rpc_recv s = res_bind (rpcmsg_receive (fst s) (snd s)) (\<lambda>(m, q). Inr (m, q, snd s))"

definition rpc_ids :: "rpcmsg_queue \<Rightarrow> msgptr list" where
  "rpc_ids q = map (\<lambda>k. unat (queue_ring q ! k)) (queue_slots q)"

definition rpc_ok :: "rpcmsg_queue \<Rightarrow> bool" where
  "rpc_ok q \<longleftrightarrow> queue_ok q \<and> (\<forall>k \<in> set (queue_slots q). unat (queue_ring q ! k) < 32)"

lemma ring_advance_prod [simp]: "queue_ring (advance_prod q r) = r"
  by (simp add: advance_prod_def Let_def)

lemma ring_advance_cons [simp]: "queue_ring (advance_cons q) = queue_ring q"
  by (simp add: advance_cons_def Let_def)

lemma queue_ok_length [simp]: "queue_ok q \<Longrightarrow> length (queue_ring q) = 32"
  by (simp add: queue_ok_def)

lemma ring_old_slots:
  "queue_ok q \<Longrightarrow> queue_len q < 32 \<Longrightarrow> k \<in> set (queue_slots q) \<Longrightarrow>
   (queue_ring q)[prod_slot q := v] ! k = queue_ring q ! k"
  using prod_slot_fresh [of q] by (metis nth_list_update_neq)

lemma unat_of_nat_slot [simp]: "unat (of_nat (prod_slot q) :: u16) = prod_slot q"
  by (rule unat_of_nat_u16) (use slot_less(1) [of q] in linarith)

lemma uint_of_nat_u16 [simp]: "n < 32 \<Longrightarrow> uint (of_nat n :: u16) = int n"
  by (subst uint_nat) (simp del: of_nat_unat)

lemma rpcmsg_eta [simp]: "\<lparr>mr0 = mr0 m, mr1 = mr1 m, mr2 = mr2 m, mr3 = mr3 m\<rparr> = m"
  by simp

lemma length_event_msgs [simp]: "length (event_msgs s) = queue_len (fst s)"
  by (simp add: event_msgs_def)

lemma length_rpc_ids [simp]: "length (rpc_ids q) = queue_len q"
  by (simp add: rpc_ids_def)

subsection \<open>Events\<close>

lemma event_tx_ok:
  fixes d :: rpcmsg
  assumes "event_ok (q, b)" "queue_len q < 32"
  defines "q' \<equiv> advance_prod q ((queue_ring q)[prod_slot q := of_nat (prod_slot q)])"
    and "b' \<equiv> b[prod_slot q := d]"
  shows "rpcmsg_enqueue q b rpcmsg_event_enqueue_fn d = Inr (0, q', b')"
    "event_ok (q', b')" "event_msgs (q', b') = event_msgs (q, b) @ [d]"
proof -
  have q: "queue_ok q" and b: "length b = 32" using assms(1) by (auto simp: event_ok_def)
  note slots = slots_advance_prod [OF q assms(2)] and fresh = prod_slot_fresh [OF q assms(2)]
  have k: "unat (marker_pos (bound_tail (queue_prod q)) AND 31) = prod_slot q"
    by (simp add: prod_slot_def)
  show "rpcmsg_enqueue q b rpcmsg_event_enqueue_fn d = Inr (0, q', b')"
    unfolding q'_def using q b assms(2)
    by (intro enqueue_advances) (auto simp: event_elem k b'_def)
  show "event_ok (q', b')"
    using assms(1,2) q b
    by (auto simp: event_ok_def q'_def b'_def slots ring_old_slots queue_ok_advance_prod)
  have "b' ! unat (queue_ring q ! k) = b ! unat (queue_ring q ! k)"
    if "k \<in> set (queue_slots q)" for k
    using that assms(1) fresh unfolding b'_def by (metis event_ok_def fst_conv nth_list_update_neq)
  moreover have "b' ! prod_slot q = d" using b by (simp add: b'_def)
  ultimately show "event_msgs (q', b') = event_msgs (q, b) @ [d]"
    using assms(2) q b by (auto simp: event_msgs_def q'_def slots ring_old_slots)
qed

lemma event_rx_ok:
  assumes "event_ok (q, b)" "event_msgs (q, b) = x # xs"
  shows "rpcmsg_dequeue q b rpcmsg_event_dequeue_fn d = Inr (0, x, advance_cons q)"
    "event_ok (advance_cons q, b)" "event_msgs (advance_cons q, b) = xs"
proof -
  have q: "queue_ok q" "queue_len q \<noteq> 0" and b: "length b = 32"
    using assms length_event_msgs [of "(q, b)"] by (auto simp: event_ok_def)
  note slots = slots_advance_cons [OF q]
  show "event_ok (advance_cons q, b)" "event_msgs (advance_cons q, b) = xs"
    using assms q by (auto simp: event_ok_def event_msgs_def slots queue_ok_advance_cons)
  have "unat (queue_ring q ! cons_slot q) = cons_slot q" "b ! cons_slot q = x"
    using assms by (auto simp: event_ok_def event_msgs_def slots)
  then have "rpcmsg_event_dequeue_fn q1 b (marker_pos (bound_tail (queue_cons q)) AND 31) = Inr x"
    if "queue_ring q1 = queue_ring q" for q1
    using that q b slot_less(2) [of q]
    by (simp add: rpcmsg_event_dequeue_fn_def ring_read_def msg_read_def cons_slot_def)
  then show "rpcmsg_dequeue q b rpcmsg_event_dequeue_fn d = Inr (0, x, advance_cons q)"
    by (rule dequeue_advances [OF q])
qed

interpretation evq: bounded_fifo event_send event_recv event_msgs event_ok "\<lambda>_. True" 32
proof unfold_locales
  fix s :: "rpcmsg_queue \<times> rpcmsg_buffer"
  obtain q b where s: "s = (q, b)" by (cases s)
  assume ok: "event_ok s"
  then show "length (event_msgs s) \<le> 32"
    by (simp add: event_ok_def queue_ok_def)
  show "\<exists>s'. event_send s x = Inr (0, s') \<and> event_ok s' \<and> event_msgs s' = event_msgs s @ [x]"
    if "length (event_msgs s) < 32" for x :: rpcmsg
    using that ok event_tx_ok [of q b x]
    by (simp add: s event_send_def rpcmsg_event_tx_def)
  show "event_send s x = Inr (-1, s)" if "length (event_msgs s) = 32" for x
    using that ok by (simp add: s event_send_def rpcmsg_event_tx_def event_ok_def enqueue_full)
  show "\<exists>s'. event_recv s = Inr (Some x, s') \<and> event_ok s' \<and> event_msgs s' = xs"
    if "event_msgs s = x # xs" for x xs
    using that ok event_rx_ok [of q b x xs]
    by (simp add: s event_recv_def rpcmsg_event_rx_def)
  show "event_recv s = Inr (None, s)" if "event_msgs s = []"
    using that ok by (simp add: s event_recv_def rpcmsg_event_rx_def event_ok_def event_msgs_def
        dequeue_empty flip: queue_len_queue_slots)
qed

subsection \<open>Requests and replies\<close>

lemma rpc_tx_ok:
  assumes "rpc_ok q" "queue_len q < 32" "m < 32"
  defines "q' \<equiv> advance_prod q ((queue_ring q)[prod_slot q := of_nat m])"
  shows "rpcmsg_enqueue q b rpcmsg_rpc_enqueue_fn m = Inr (0, q', b)"
    "rpc_ok q'" "rpc_ids q' = rpc_ids q @ [m]"
proof -
  have q: "queue_ok q" using assms by (simp add: rpc_ok_def)
  note slots = slots_advance_prod [OF q assms(2)]
  have k: "unat (marker_pos (bound_tail (queue_prod q)) AND 31) = prod_slot q"
    by (simp add: prod_slot_def)
  show "rpcmsg_enqueue q b rpcmsg_rpc_enqueue_fn m = Inr (0, q', b)"
    unfolding q'_def using q assms(2,3)
    by (intro enqueue_advances) (auto simp: rpc_elem k)
  show "rpc_ok q'"
    using assms(1-3) q by (auto simp: rpc_ok_def q'_def slots ring_old_slots queue_ok_advance_prod)
  show "rpc_ids q' = rpc_ids q @ [m]"
    using assms(2,3) q by (auto simp: rpc_ids_def q'_def slots ring_old_slots)
qed

lemma rpc_rx_ok:
  assumes "rpc_ok q" "rpc_ids q = m # ms"
  shows "rpcmsg_dequeue q b rpcmsg_rpc_dequeue_fn d = Inr (0, Some m, advance_cons q)"
    "rpc_ok (advance_cons q)" "rpc_ids (advance_cons q) = ms" "m < 32"
proof -
  have q: "queue_ok q" "queue_len q \<noteq> 0"
    using assms length_rpc_ids [of q] by (auto simp: rpc_ok_def)
  note slots = slots_advance_cons [OF q]
  show "rpc_ok (advance_cons q)" "rpc_ids (advance_cons q) = ms"
    using assms q by (auto simp: rpc_ok_def rpc_ids_def slots queue_ok_advance_cons)
  have m: "unat (queue_ring q ! cons_slot q) = m" "m < 32"
    using assms by (auto simp: rpc_ok_def rpc_ids_def slots)
  then show "m < 32" by simp
  have "rpcmsg_rpc_dequeue_fn q1 b (marker_pos (bound_tail (queue_cons q)) AND 31) = Inr (Some m)"
    if "queue_ring q1 = queue_ring q" for q1
    using that q m slot_less(2) [of q]
    by (simp add: rpcmsg_rpc_dequeue_fn_def ring_read_def cons_slot_def)
  then show "rpcmsg_dequeue q b rpcmsg_rpc_dequeue_fn d = Inr (0, Some m, advance_cons q)"
    by (rule dequeue_advances [OF q])
qed

lemma rpc_ok_queue_ok: "rpc_ok q \<Longrightarrow> queue_ok q"
  by (simp add: rpc_ok_def)

lemma rpc_empty:
  "rpc_ok q \<Longrightarrow> rpc_ids q = [] \<Longrightarrow> rpcmsg_dequeue q b f d = Inr (-1, d, q)"
  by (rule dequeue_empty) (auto simp: rpc_ok_def simp flip: length_rpc_ids)

interpretation rpcq: bounded_fifo rpc_send rpc_recv "\<lambda>s. rpc_ids (fst s)" "\<lambda>s. rpc_ok (fst s)" "\<lambda>m. m < 32" 32
proof unfold_locales
  fix s :: "rpcmsg_queue \<times> rpcmsg_buffer"
  obtain q b where s: "s = (q, b)" by (cases s)
  assume ok: "rpc_ok (fst s)"
  then show "length (rpc_ids (fst s)) \<le> 32"
    by (simp add: rpc_ok_def queue_ok_def)
  show "\<exists>s'. rpc_send s x = Inr (0, s') \<and> rpc_ok (fst s') \<and> rpc_ids (fst s') = rpc_ids (fst s) @ [x]"
    if "x < 32" "length (rpc_ids (fst s)) < 32" for x
    using that ok rpc_tx_ok [of q x] by (simp add: s rpc_send_def rpcmsg_reply_def)
  show "rpc_send s x = Inr (-1, s)" if "length (rpc_ids (fst s)) = 32" for x
    using that ok by (simp add: s rpc_send_def rpcmsg_reply_def rpc_ok_def enqueue_full)
  show "\<exists>s'. rpc_recv s = Inr (Some x, s') \<and> rpc_ok (fst s') \<and> rpc_ids (fst s') = xs"
    if "rpc_ids (fst s) = x # xs" for x xs
    using that ok rpc_rx_ok [of q x xs] by (simp add: s rpc_recv_def rpcmsg_receive_def)
  show "rpc_recv s = Inr (None, s)" if "rpc_ids (fst s) = []"
    using that ok by (simp add: s rpc_recv_def rpcmsg_receive_def rpc_empty)
qed

section \<open>Lending, requests and responses\<close>

lemma request_exhausted:
  "pool_ok st \<Longrightarrow> lent st = {..<32} \<Longrightarrow> rpcmsg_request q b st r0 r1 r2 r3 = Inl Null_Deref"
  by (simp add: rpcmsg_request_def pool.acquire_exhausted)

lemma request_ok:
  assumes "rpc_ok q" "length b = 32" "pool_ok st" "lent st \<noteq> {..<32}" "queue_len q < 32"
  obtains i q' st' where
    "rpcmsg_request q b st r0 r1 r2 r3 =
       Inr (int i, q', b[i := \<lparr>mr0 = r0, mr1 = r1, mr2 = r2, mr3 = r3\<rparr>], st')"
    "i < 32" "i \<notin> lent st" "pool_ok st'" "lent st' = insert i (lent st)"
    "rpc_ok q'" "rpc_ids q' = rpc_ids q @ [i]"
  using assms(3)
proof (cases rule: pool.acquire_total)
  case none
  with assms show thesis by simp
next
  case (some i st')
  define b' where "b' = b[i := \<lparr>mr0 = r0, mr1 = r1, mr2 = r2, mr3 = r3\<rparr>]"
  have i: "i < 32" using some by simp
  note tx = rpc_tx_ok [OF assms(1,5) i]
  have "rpcmsg_request q b st r0 r1 r2 r3 =
      Inr (int i, advance_prod q ((queue_ring q)[prod_slot q := of_nat i]), b', st')"
    using some i assms(2) tx(1) [of b'] by (simp add: rpcmsg_request_def msg_write_def b'_def)
  with some i tx(2,3) that show thesis unfolding b'_def by blast
qed

lemma request_full:
  assumes "rpc_ok q" "length b = 32" "pool_ok st" "lent st \<noteq> {..<32}" "queue_len q = 32"
  obtains b' st' where "rpcmsg_request q b st r0 r1 r2 r3 = Inr (-1, q, b', st')"
    "pool_ok st'" "lent st' = lent st" "\<And>m. m \<in> lent st \<Longrightarrow> b' ! m = b ! m"
  using assms(3)
proof (cases rule: pool.acquire_total)
  case none
  with assms show thesis by simp
next
  case (some i st1)
  define b' where "b' = b[i := \<lparr>mr0 = r0, mr1 = r1, mr2 = r2, mr3 = r3\<rparr>]"
  obtain st' where st': "rpcmsg_reclaim_buffer st1 i = Inr st'" "pool_ok st'" "lent st' = lent st"
    using pool.acquire_release [OF assms(3) some(1)] by blast
  have "rpcmsg_request q b st r0 r1 r2 r3 = Inr (-1, q, b', st')"
    using some assms st' enqueue_full [of q b' rpcmsg_rpc_enqueue_fn i]
    by (simp add: rpcmsg_request_def msg_write_def b'_def rpc_ok_def)
  moreover have "b' ! m = b ! m" if "m \<in> lent st" for m
    using that some(4) by (metis b'_def nth_list_update_neq)
  ultimately show thesis using st' that by blast
qed

lemma receive_response_ok:
  "rpc_ok q \<Longrightarrow> rpc_ids q = m # ms \<Longrightarrow>
   rpcmsg_receive_response q b (Some tid) = Inr (Some m, Some (of_nat m), advance_cons q)"
  using rpc_rx_ok [of q m ms] by (simp add: rpcmsg_receive_response_def)

lemma receive_response_empty:
  "rpc_ok q \<Longrightarrow> rpc_ids q = [] \<Longrightarrow> rpcmsg_receive_response q b t = Inr (None, t, q)"
  by (simp add: rpcmsg_receive_response_def rpc_empty)

lemma queue_full_iff: "queue_ok q \<Longrightarrow> rpcmsg_queue_full q \<longleftrightarrow> queue_len q = 32"
  using prod_entries_0_iff [of q]
  by (simp add: rpcmsg_queue_full_def prod_entries_def queue_ok_def)

lemma queue_empty_iff: "rpcmsg_queue_empty q \<longleftrightarrow> queue_len q = 0"
  by (simp add: rpcmsg_queue_empty_def queue_len_def unat_eq_0)

section \<open>Properties\<close>

text \<open>
  C11. Event queues are first-in first-out and lossless: messages sent on an empty event
  queue (at most 32 of them) are all accepted, and receiving until the queue is empty
  returns exactly these messages in the order they were sent, whatever the ring
  positions are, the wrap-around of the 32-bit positions included.
\<close>
theorem event_queue_fifo:
  assumes "event_ok s" "event_msgs s = []" "length ms \<le> 32"
  shows "\<exists>s1 s2. send_all event_send s ms = Inr (0, s1) \<and> drain event_recv 32 s1 = Inr (ms, s2)
           \<and> event_ok s2 \<and> event_msgs s2 = []"
  using evq.fifo_roundtrip [of s ms] assms by simp

text \<open>An empty queue whose next position is the last before the wrap-around.\<close>
definition wrap_queue :: rpcmsg_queue where
  "wrap_queue = (let m = \<lparr>marker_pos = -1, marker_count = -1\<rparr>; b = \<lparr>bound_tail = m, bound_head = m\<rparr> in
     \<lparr>queue_prod = b, queue_cons = b, queue_ring = replicate 32 0\<rparr>)"

theorem event_queue_fifo_witness:
  "\<exists>s1 s2. send_all event_send (wrap_queue, replicate 32 zero_msg) [zero_msg\<lparr>mr0 := 1\<rparr>, zero_msg\<lparr>mr0 := 2\<rparr>]
       = Inr (0, s1)
     \<and> drain event_recv 32 s1 = Inr ([zero_msg\<lparr>mr0 := 1\<rparr>, zero_msg\<lparr>mr0 := 2\<rparr>], s2)"
  using event_queue_fifo [of "(wrap_queue, replicate 32 zero_msg)" "[zero_msg\<lparr>mr0 := 1\<rparr>, zero_msg\<lparr>mr0 := 2\<rparr>]"]
  by (auto simp: event_ok_def event_msgs_def queue_ok_def queue_slots_def queue_len_def wrap_queue_def Let_def)



text \<open>
  \<open>rpcmsg_request\<close> has no answer when all 32 buffers are lent: it writes through the null
  pointer \<open>rpcmsg_lend_buffer\<close> returns, whatever the state of the queue.
\<close>
lemma request_without_buffer:
  assumes "pool_ok st" "lent st = {..<32}"
  shows "rpcmsg_request q b st r0 r1 r2 r3 = Inl Null_Deref"
  using assms by (rule request_exhausted)

end
