(* ===== verification/Rpc_Mpmc.thy ===== *)
theory Rpc_Mpmc
  imports Rpc_Queue
begin

unbundle bit_operations_syntax

text \<open>
  Several producers and consumers on one ring queue of \<open>include/sel4/rpc_queue.h\<close>. Each
  thread runs \<open>rpcmsg_enqueue\<close> or \<open>rpcmsg_dequeue\<close>; one step of a thread is one access
  to shared memory (an atomic load, a compare-and-swap, a volatile read, or the access
  to the ring entry the thread holds), and the threads interleave in any order. Both
  compare-and-swap macros are covered: the user-level one writes the observed value back
  into the expected value, the Linux kernel one does not.

  The fields \<open>aux_\<dots>\<close> are auxiliary: they record the unbounded values of the 32-bit
  markers and which entries are committed. No step depends on them. A thread that is
  overtaken by \<open>2 ^ 32\<close> acquisitions between its size check and its compare-and-swap of
  the tail could take an old marker for the current one; \<open>reachable\<close> excludes these runs
  (\<open>no_aba\<close>). No such assumption is needed for the compare-and-swap of the head: the
  head/tail distance bounds how far the other threads get while a thread holds an entry.
\<close>

section \<open>Definitions\<close>

definition atomic_compare_and_swap_kernel ::
  "rpcmsg_marker \<Rightarrow> rpcmsg_marker \<Rightarrow> rpcmsg_marker \<Rightarrow> bool \<times> rpcmsg_marker \<times> rpcmsg_marker" where
  "atomic_compare_and_swap_kernel mem old new =
     (if mem = old then (True, new, old) else (False, mem, old))"

definition cas :: "bool \<Rightarrow> rpcmsg_marker \<Rightarrow> rpcmsg_marker \<Rightarrow> rpcmsg_marker
    \<Rightarrow> bool \<times> rpcmsg_marker \<times> rpcmsg_marker" where
  "cas krn = (if krn then atomic_compare_and_swap_kernel else atomic_compare_and_swap)"

datatype side = Producer | Consumer

text \<open>
  Where a thread is: waiting for the head/tail distance with its copy of the tail,
  reloading it, at the size check, at the compare-and-swap of the tail, holding an
  entry, at the load of the head, at the load of the tail, at the compare-and-swap of
  the head.
\<close>
datatype pc =
    Idle
  | Acq_Wait rpcmsg_marker
  | Acq_Reload
  | Acq_Check rpcmsg_marker
  | Acq_Cas rpcmsg_marker
  | Elem u32
  | Com_Load
  | Com_Tail rpcmsg_marker
  | Com_Cas rpcmsg_marker rpcmsg_marker

record thread =
  th_side :: side
  th_pc :: pc
  th_val :: u16
  aux_S :: nat
  aux_E :: nat
  aux_C :: nat
  aux_T :: nat

record mpmc =
  shq :: rpcmsg_queue
  threads :: "nat \<Rightarrow> thread"
  aux_acq :: "side \<Rightarrow> nat"
  aux_done :: "side \<Rightarrow> nat set"
  aux_pos :: "side \<Rightarrow> nat"
  aux_written :: "nat set"
  aux_in :: "nat \<Rightarrow> u16"

definition bound_of :: "side \<Rightarrow> rpcmsg_queue \<Rightarrow> rpcmsg_queue_bound" where
  "bound_of sd q = (case sd of Producer \<Rightarrow> queue_prod q | Consumer \<Rightarrow> queue_cons q)"

definition set_bound :: "side \<Rightarrow> rpcmsg_queue_bound \<Rightarrow> rpcmsg_queue \<Rightarrow> rpcmsg_queue" where
  "set_bound sd b q =
     (case sd of Producer \<Rightarrow> q\<lparr>queue_prod := b\<rparr> | Consumer \<Rightarrow> q\<lparr>queue_cons := b\<rparr>)"

definition entries_of :: "side \<Rightarrow> rpcmsg_queue \<Rightarrow> rpcmsg_marker \<Rightarrow> u32" where
  "entries_of sd q ot = (case sd of Producer \<Rightarrow> prod_entries q ot | Consumer \<Rightarrow> cons_entries q ot)"

definition set_thread :: "nat \<Rightarrow> thread \<Rightarrow> mpmc \<Rightarrow> mpmc" where
  "set_thread i t s = s\<lparr>threads := (threads s)(i := t)\<rparr>"

text \<open>
  The three steps that change shared memory: the tail moves over the entry a thread takes,
  a producer writes its id into the ring, the head is replaced by the committed marker.
\<close>
definition take_entry :: "nat \<Rightarrow> rpcmsg_marker \<Rightarrow> rpcmsg_marker \<Rightarrow> mpmc \<Rightarrow> mpmc" where
  "take_entry i ot tail s =
     (let t = threads s i; sd = th_side t in
      (set_thread i (t\<lparr>th_pc := Elem (marker_pos ot), aux_E := aux_S t\<rparr>) s)
        \<lparr>shq := set_bound sd ((bound_of sd (shq s))\<lparr>bound_tail := tail\<rparr>) (shq s),
         aux_acq := (aux_acq s)(sd := Suc (aux_acq s sd))\<rparr>)"

definition write_entry :: "nat \<Rightarrow> u32 \<Rightarrow> mpmc \<Rightarrow> mpmc" where
  "write_entry i e s =
     (let t = threads s i; q = shq s in
      (set_thread i (t\<lparr>th_pc := Com_Load\<rparr>) s)
        \<lparr>shq := q\<lparr>queue_ring := (queue_ring q)[unat (e AND RPCMSG_BUFFER_MASK) := th_val t]\<rparr>,
         aux_written := insert (aux_E t) (aux_written s),
         aux_in := (aux_in s)(aux_E t := th_val t)\<rparr>)"

definition commit_entry :: "nat \<Rightarrow> rpcmsg_marker \<Rightarrow> rpcmsg_marker \<Rightarrow> rpcmsg_marker \<Rightarrow> mpmc \<Rightarrow> mpmc" where
  "commit_entry i oh tm head s =
     (let t = threads s i; sd = th_side t in
      (set_thread i (t\<lparr>th_pc := Idle\<rparr>) s)
        \<lparr>shq := set_bound sd ((bound_of sd (shq s))\<lparr>bound_head := head\<rparr>) (shq s),
         aux_done := (aux_done s)(sd := insert (aux_E t) (aux_done s sd)),
         aux_pos := (aux_pos s)(sd := (if marker_count oh + 1 = marker_count tm
                                       then aux_T t else aux_pos s sd))\<rparr>)"

text \<open>
  One step of thread \<open>i\<close>; \<open>req\<close> is the operation an idle thread starts: the side and,
  for a producer, the id it enqueues.
\<close>
definition thread_step :: "bool \<Rightarrow> side \<times> u16 \<Rightarrow> nat \<Rightarrow> mpmc \<Rightarrow> mpmc" where
  "thread_step krn req i s =
     (let t = threads s i; sd = th_side t; q = shq s; bound = bound_of sd q in
      case th_pc t of
        Idle \<Rightarrow>
          set_thread i (t\<lparr>th_side := fst req, th_val := snd req,
              th_pc := Acq_Wait (bound_tail (bound_of (fst req) q)), aux_S := aux_acq s (fst req)\<rparr>) s
      | Acq_Wait ot \<Rightarrow>
          if RPCMSG_HTD_MAX < marker_pos ot - marker_pos (bound_head bound)
          then set_thread i (t\<lparr>th_pc := Acq_Reload\<rparr>) s
          else set_thread i (t\<lparr>th_pc := Acq_Check ot\<rparr>) s
      | Acq_Reload \<Rightarrow>
          set_thread i (t\<lparr>th_pc := Acq_Wait (bound_tail bound), aux_S := aux_acq s sd\<rparr>) s
      | Acq_Check ot \<Rightarrow>
          if entries_of sd q ot = 0 then set_thread i (t\<lparr>th_pc := Idle\<rparr>) s
          else set_thread i (t\<lparr>th_pc := Acq_Cas ot\<rparr>) s
      | Acq_Cas ot \<Rightarrow>
          (case cas krn (bound_tail bound) ot (next_marker ot) of (ok, tail, ot') \<Rightarrow>
             if ok then take_entry i ot tail s
             else
               set_thread i (t\<lparr>th_pc := Acq_Wait ot',
                   aux_S := (if krn then aux_S t else aux_acq s sd)\<rparr>) s)
      | Elem e \<Rightarrow>
          (case sd of
             Producer \<Rightarrow> write_entry i e s
           | Consumer \<Rightarrow>
               set_thread i (t\<lparr>th_pc := Com_Load,
                   th_val := queue_ring q ! unat (e AND RPCMSG_BUFFER_MASK)\<rparr>) s)
      | Com_Load \<Rightarrow>
          set_thread i (t\<lparr>th_pc := Com_Tail (bound_head bound), aux_C := card (aux_done s sd)\<rparr>) s
      | Com_Tail oh \<Rightarrow>
          set_thread i (t\<lparr>th_pc := Com_Cas oh (bound_tail bound), aux_T := aux_acq s sd\<rparr>) s
      | Com_Cas oh tm \<Rightarrow>
          (case cas krn (bound_head bound) oh (commit_marker oh tm) of (ok, head, oh') \<Rightarrow>
             if ok then commit_entry i oh tm head s
             else
               set_thread i (t\<lparr>th_pc := Com_Tail oh',
                   aux_C := (if krn then aux_C t else card (aux_done s sd))\<rparr>) s))"

definition idle_thread :: thread where
  "idle_thread = \<lparr>th_side = Producer, th_pc = Idle, th_val = 0, aux_S = 0, aux_E = 0, aux_C = 0, aux_T = 0\<rparr>"

definition mpmc_init :: "rpcmsg_queue \<Rightarrow> mpmc" where
  "mpmc_init q =
     \<lparr>shq = rpcmsg_queue_init q, threads = (\<lambda>_. idle_thread), aux_acq = (\<lambda>_. 0),
      aux_done = (\<lambda>_. {}), aux_pos = (\<lambda>_. 0), aux_written = {}, aux_in = (\<lambda>_. 0)\<rparr>"

text \<open>No thread is overtaken by \<open>2 ^ 32\<close> acquisitions while it holds a copy of the tail.\<close>
definition no_aba :: "mpmc \<Rightarrow> bool" where
  "no_aba s \<longleftrightarrow> (\<forall>i. let t = threads s i; sd = th_side t in
     case th_pc t of
       Acq_Cas ot \<Rightarrow> aux_acq s sd < aux_S t + 2 ^ 32
     | _ \<Rightarrow> True)"

inductive reachable :: "bool \<Rightarrow> mpmc \<Rightarrow> bool" for krn where
  reachable_init: "reachable krn (mpmc_init q)"
| reachable_step: "reachable krn s \<Longrightarrow> no_aba s \<Longrightarrow> reachable krn (thread_step krn req i s)"

section \<open>The invariant\<close>

text \<open>A marker whose position and count are both \<open>n\<close>, as every tail marker's are.\<close>
definition mk :: "nat \<Rightarrow> rpcmsg_marker" where
  "mk n = \<lparr>marker_pos = of_nat n, marker_count = of_nat n\<rparr>"

text \<open>The threads of a side that hold an entry, and the bound a new entry stays below.\<close>
fun holds_entry :: "pc \<Rightarrow> bool" where
  "holds_entry (Elem e) = True"
| "holds_entry Com_Load = True"
| "holds_entry (Com_Tail oh) = True"
| "holds_entry (Com_Cas oh tm) = True"
| "holds_entry _ = False"

definition holders :: "mpmc \<Rightarrow> side \<Rightarrow> nat set" where
  "holders s sd = {i. th_side (threads s i) = sd \<and> holds_entry (th_pc (threads s i))}"

definition limit :: "mpmc \<Rightarrow> side \<Rightarrow> nat" where
  "limit s sd = (case sd of Producer \<Rightarrow> aux_pos s Consumer + 32 | Consumer \<Rightarrow> aux_pos s Producer)"

text \<open>What a thread that has written or read its entry knows.\<close>
definition copied :: "mpmc \<Rightarrow> thread \<Rightarrow> bool" where
  "copied s t \<longleftrightarrow>
     (case th_side t of Producer \<Rightarrow> aux_E t \<in> aux_written s | Consumer \<Rightarrow> th_val t = aux_in s (aux_E t))"

definition owns :: "mpmc \<Rightarrow> thread \<Rightarrow> bool" where
  "owns s t \<longleftrightarrow> aux_E t < aux_acq s (th_side t) \<and> aux_E t \<notin> aux_done s (th_side t)"

definition thread_inv :: "mpmc \<Rightarrow> thread \<Rightarrow> bool" where
  "thread_inv s t \<longleftrightarrow>
     (let sd = th_side t; A = aux_acq s sd; K = aux_done s sd in
      case th_pc t of
        Idle \<Rightarrow> True
      | Acq_Reload \<Rightarrow> True
      | Acq_Wait ot \<Rightarrow> ot = mk (aux_S t) \<and> aux_S t \<le> A
      | Acq_Check ot \<Rightarrow> ot = mk (aux_S t) \<and> aux_S t \<le> A \<and> aux_S t \<le> aux_pos s sd + 8
      | Acq_Cas ot \<Rightarrow> ot = mk (aux_S t) \<and> aux_S t \<le> A \<and> aux_S t \<le> aux_pos s sd + 8
                       \<and> aux_S t < limit s sd
      | Elem e \<Rightarrow> owns s t \<and> e = of_nat (aux_E t)
      | Com_Load \<Rightarrow> owns s t \<and> copied s t
      | Com_Tail oh \<Rightarrow> owns s t \<and> copied s t \<and> marker_count oh = of_nat (aux_C t) \<and> aux_C t \<le> card K
                       \<and> aux_E t \<le> aux_C t + 8
      | Com_Cas oh tm \<Rightarrow> owns s t \<and> copied s t \<and> marker_count oh = of_nat (aux_C t)
                       \<and> aux_C t \<le> card K \<and> aux_E t \<le> aux_C t + 8 \<and> tm = mk (aux_T t) \<and> aux_T t \<le> A \<and> aux_E t < aux_T t
                       \<and> (aux_C t = card K \<longrightarrow> K \<subseteq> {..<aux_T t}))"

definition side_inv :: "mpmc \<Rightarrow> side \<Rightarrow> bool" where
  "side_inv s sd \<longleftrightarrow>
     (let A = aux_acq s sd; P = aux_pos s sd; K = aux_done s sd; b = bound_of sd (shq s) in
      bound_tail b = mk A
      \<and> bound_head b = \<lparr>marker_pos = of_nat P, marker_count = of_nat (card K)\<rparr>
      \<and> {..<P} \<subseteq> K \<and> K \<subseteq> {..<A} \<and> A \<le> limit s sd \<and> A \<le> P + 9
      \<and> inj_on (\<lambda>i. aux_E (threads s i)) (holders s sd)
      \<and> (\<lambda>i. aux_E (threads s i)) ` holders s sd = {..<A} - K
      \<and> (holders s sd = {} \<longrightarrow> P = A))"

definition ring_inv :: "mpmc \<Rightarrow> bool" where
  "ring_inv s \<longleftrightarrow>
     length (queue_ring (shq s)) = 32
     \<and> aux_done s Producer \<subseteq> aux_written s \<and> aux_written s \<subseteq> {..<aux_acq s Producer}
     \<and> (\<forall>e \<in> aux_written s. aux_pos s Consumer \<le> e \<longrightarrow> queue_ring (shq s) ! (e mod 32) = aux_in s e)"

definition mpmc_inv :: "mpmc \<Rightarrow> bool" where
  "mpmc_inv s \<longleftrightarrow> (\<forall>sd. side_inv s sd) \<and> ring_inv s \<and> (\<forall>i. thread_inv s (threads s i))"

subsection \<open>Markers\<close>

lemma mk_simps [simp]: "marker_pos (mk n) = of_nat n" "marker_count (mk n) = of_nat n"
  by (simp_all add: mk_def)

lemma next_marker_mk [simp]: "next_marker (mk n) = mk (Suc n)"
  by (simp add: next_marker_def mk_def add.commute)

lemma of_nat_u32_inject:
  "(of_nat m :: u32) = of_nat n \<Longrightarrow> m \<le> n \<Longrightarrow> n < m + 2 ^ 32 \<Longrightarrow> m = n"
  for m n :: nat
proof -
  assume eq: "(of_nat m :: u32) = of_nat n" and le: "m \<le> n" and less: "n < m + 2 ^ 32"
  from eq have "n mod 2 ^ 32 = m mod 2 ^ 32"
    by (simp add: word_of_nat_eq_iff take_bit_eq_mod)
  with le have "2 ^ 32 dvd n - m"
    using mod_eq_dvd_iff_nat by blast
  with le less show "m = n"
    by (auto dest: dvd_imp_le)
qed

lemma side_UNIV: "(\<forall>sd. P sd) \<longleftrightarrow> P Producer \<and> P Consumer"
  by (metis side.exhaust)

lemma bound_of_set_bound [simp]:
  "bound_of sd (set_bound sd' b q) = (if sd = sd' then b else bound_of sd q)"
  by (cases sd; cases sd') (simp_all add: bound_of_def set_bound_def)

lemma ring_set_bound [simp]: "queue_ring (set_bound sd b q) = queue_ring q"
  by (cases sd) (simp_all add: set_bound_def)

lemma bound_of_ring [simp]: "bound_of sd (q\<lparr>queue_ring := r\<rparr>) = bound_of sd q"
  by (cases sd) (simp_all add: bound_of_def)

lemma holders_shared [simp]:
  "holders (s\<lparr>shq := q\<rparr>) = holders s" "holders (s\<lparr>aux_acq := a\<rparr>) = holders s"
  "holders (s\<lparr>aux_done := d\<rparr>) = holders s" "holders (s\<lparr>aux_pos := p\<rparr>) = holders s"
  "holders (s\<lparr>aux_written := w\<rparr>) = holders s" "holders (s\<lparr>aux_in := h\<rparr>) = holders s"
  by (simp_all add: holders_def fun_eq_iff)

subsection \<open>Steps that only change the thread's own state\<close>

lemma set_thread_fields [simp]:
  "shq (set_thread i t s) = shq s" "threads (set_thread i t s) = (threads s)(i := t)"
  "aux_acq (set_thread i t s) = aux_acq s" "aux_done (set_thread i t s) = aux_done s"
  "aux_pos (set_thread i t s) = aux_pos s" "aux_written (set_thread i t s) = aux_written s"
  "aux_in (set_thread i t s) = aux_in s"
  by (simp_all add: set_thread_def)

lemma thread_inv_set_thread [simp]: "thread_inv (set_thread i t s) t' \<longleftrightarrow> thread_inv s t'"
  by (simp add: thread_inv_def owns_def copied_def limit_def cong: pc.case_cong side.case_cong)

lemma holders_set_thread:
  "holders (set_thread i t s) sd =
     (if th_side t = sd \<and> holds_entry (th_pc t) then insert i (holders s sd) else holders s sd - {i})"
  by (auto simp: holders_def)

text \<open>
  A step that changes nothing shared keeps the invariant if the thread's new state is
  justified and it neither takes nor gives up an entry.
\<close>
lemma local_step_inv:
  assumes inv: "mpmc_inv s" and t: "thread_inv s t"
    and hold: "holds_entry (th_pc t) = holds_entry (th_pc (threads s i))"
    and same: "holds_entry (th_pc t) \<Longrightarrow> th_side t = th_side (threads s i) \<and> aux_E t = aux_E (threads s i)"
  shows "mpmc_inv (set_thread i t s)"
proof -
  have holders: "holders (set_thread i t s) sd = holders s sd" for sd
    using hold same by (auto simp: holders_def)
  have E: "aux_E (((threads s)(i := t)) j) = aux_E (threads s j)" if "j \<in> holders s sd" for j sd
    using that hold same by (auto simp: holders_def)
  have "side_inv (set_thread i t s) sd" for sd
  proof -
    have "side_inv s sd" using inv by (simp add: mpmc_inv_def)
    moreover have "inj_on (\<lambda>j. aux_E (((threads s)(i := t)) j)) (holders s sd)
        = inj_on (\<lambda>j. aux_E (threads s j)) (holders s sd)"
      using E by (intro inj_on_cong) auto
    moreover have "(\<lambda>j. aux_E (((threads s)(i := t)) j)) ` holders s sd
        = (\<lambda>j. aux_E (threads s j)) ` holders s sd"
      using E by (intro image_cong) auto
    ultimately show ?thesis
      by (simp add: side_inv_def holders limit_def Let_def cong: side.case_cong)
  qed
  moreover have "ring_inv (set_thread i t s)"
    using inv by (simp add: mpmc_inv_def ring_inv_def)
  ultimately show ?thesis
    using inv t by (auto simp: mpmc_inv_def)
qed

subsection \<open>Steps that change shared state\<close>

text \<open>The knowledge of a thread survives every step of another thread.\<close>
lemma thread_inv_mono:
  assumes t: "thread_inv s t"
    and acq: "aux_acq s (th_side t) \<le> aux_acq s' (th_side t)"
    and dn: "aux_done s (th_side t) \<subseteq> aux_done s' (th_side t)" "finite (aux_done s' (th_side t))"
    and pos: "\<And>sd. aux_pos s sd \<le> aux_pos s' sd"
    and written: "aux_written s \<subseteq> aux_written s'"
    and own: "holds_entry (th_pc t) \<Longrightarrow> aux_E t \<notin> aux_done s' (th_side t)"
    and sent: "holds_entry (th_pc t) \<Longrightarrow> th_side t = Consumer \<Longrightarrow>
      aux_in s' (aux_E t) = aux_in s (aux_E t)"
  shows "thread_inv s' t"
proof -
  let ?sd = "th_side t"
  have lim: "limit s ?sd \<le> limit s' ?sd"
    using pos by (simp add: limit_def split: side.split)
  have card: "card (aux_done s ?sd) \<le> card (aux_done s' ?sd)"
    using dn by (simp add: card_mono)
  have same: "aux_done s' ?sd = aux_done s ?sd" if "card (aux_done s' ?sd) \<le> card (aux_done s ?sd)"
    using that dn by (metis card_seteq)
  have cp: "copied s' t" if "copied s t" "holds_entry (th_pc t)"
    using that written sent by (auto simp: copied_def split: side.splits)
  have ow: "owns s' t" if "owns s t" "holds_entry (th_pc t)"
    using that acq own by (simp add: owns_def)
  show ?thesis
  proof (cases "th_pc t")
    case (Com_Cas oh tm)
    with t same card cp ow acq show ?thesis
      unfolding thread_inv_def Let_def by (auto 0 3)
  next
    case (Acq_Check ot)
    with t acq pos [of ?sd] show ?thesis
      unfolding thread_inv_def Let_def by auto
  next
    case (Acq_Cas ot)
    with t acq pos [of ?sd] lim show ?thesis
      unfolding thread_inv_def Let_def by auto
  qed (use t acq card cp ow in \<open>auto simp: thread_inv_def Let_def\<close>)
qed

lemma invD:
  assumes "mpmc_inv s"
  shows "side_inv s sd" "ring_inv s" "thread_inv s (threads s i)"
  using assms by (simp_all add: mpmc_inv_def)

lemma side_invD:
  assumes "side_inv s sd"
  shows "bound_tail (bound_of sd (shq s)) = mk (aux_acq s sd)"
    "bound_head (bound_of sd (shq s)) =
       \<lparr>marker_pos = of_nat (aux_pos s sd), marker_count = of_nat (card (aux_done s sd))\<rparr>"
    "{..<aux_pos s sd} \<subseteq> aux_done s sd" "aux_done s sd \<subseteq> {..<aux_acq s sd}"
    "aux_acq s sd \<le> limit s sd" "aux_acq s sd \<le> aux_pos s sd + 9"
    "inj_on (\<lambda>i. aux_E (threads s i)) (holders s sd)"
    "(\<lambda>i. aux_E (threads s i)) ` holders s sd = {..<aux_acq s sd} - aux_done s sd"
    "holders s sd = {} \<Longrightarrow> aux_pos s sd = aux_acq s sd"
    "finite (aux_done s sd)" "aux_pos s sd \<le> aux_acq s sd"
proof -
  show K: "{..<aux_pos s sd} \<subseteq> aux_done s sd" "aux_done s sd \<subseteq> {..<aux_acq s sd}"
    using assms by (simp_all add: side_inv_def Let_def)
  from K(2) show "finite (aux_done s sd)"
    by (rule finite_subset) simp
  from K show "aux_pos s sd \<le> aux_acq s sd"
    by (metis lessThan_subset_iff subset_trans)
qed (use assms in \<open>simp_all add: side_inv_def Let_def\<close>)

text \<open>A side whose own fields, holders and limit are untouched keeps its invariant.\<close>
lemma side_inv_frame:
  assumes "side_inv s sd" "bound_of sd (shq s') = bound_of sd (shq s)"
    "aux_acq s' sd = aux_acq s sd" "aux_done s' sd = aux_done s sd" "aux_pos s' sd = aux_pos s sd"
    "limit s sd \<le> limit s' sd" "holders s' sd = holders s sd"
    "\<And>j. j \<in> holders s sd \<Longrightarrow> aux_E (threads s' j) = aux_E (threads s j)"
  shows "side_inv s' sd"
proof -
  have "inj_on (\<lambda>j. aux_E (threads s' j)) (holders s sd) = inj_on (\<lambda>j. aux_E (threads s j)) (holders s sd)"
    using assms(8) by (intro inj_on_cong) auto
  moreover have "(\<lambda>j. aux_E (threads s' j)) ` holders s sd = (\<lambda>j. aux_E (threads s j)) ` holders s sd"
    using assms(8) by (intro image_cong) auto
  ultimately show ?thesis
    using assms(1-7) by (auto simp: side_inv_def Let_def)
qed

lemma holder_entry:
  "side_inv s sd \<Longrightarrow> j \<in> holders s sd \<Longrightarrow>
   aux_E (threads s j) < aux_acq s sd \<and> aux_E (threads s j) \<notin> aux_done s sd"
  using side_invD(8) [of s sd] by blast

lemma mpmc_invI:
  assumes "side_inv s sd" "\<And>sd'. sd' \<noteq> sd \<Longrightarrow> side_inv s sd'" "ring_inv s"
    "\<And>i. thread_inv s (threads s i)"
  shows "mpmc_inv s"
  using assms unfolding mpmc_inv_def by metis

subsubsection \<open>Taking an entry\<close>

lemma take_entry_fields [simp]:
  "aux_acq (take_entry i ot tail s) =
     (aux_acq s)(th_side (threads s i) := Suc (aux_acq s (th_side (threads s i))))"
  "aux_done (take_entry i ot tail s) = aux_done s" "aux_pos (take_entry i ot tail s) = aux_pos s"
  "aux_written (take_entry i ot tail s) = aux_written s" "aux_in (take_entry i ot tail s) = aux_in s"
  "threads (take_entry i ot tail s) =
     (threads s)(i := (threads s i)\<lparr>th_pc := Elem (marker_pos ot), aux_E := aux_S (threads s i)\<rparr>)"
  "bound_of sd (shq (take_entry i ot tail s)) =
     (if sd = th_side (threads s i) then (bound_of sd (shq s))\<lparr>bound_tail := tail\<rparr> else bound_of sd (shq s))"
  "queue_ring (shq (take_entry i ot tail s)) = queue_ring (shq s)"
  by (simp_all add: take_entry_def Let_def)

lemma limit_take_entry [simp]: "limit (take_entry i ot tail s) = limit s"
  by (simp add: limit_def fun_eq_iff split: side.split)

lemma take_entry_current:
  assumes "mpmc_inv s" "th_pc (threads s i) = Acq_Cas ot"
    "bound_tail (bound_of (th_side (threads s i)) (shq s)) = ot"
    "aux_acq s (th_side (threads s i)) < aux_S (threads s i) + 2 ^ 32"
  shows "ot = mk (aux_acq s (th_side (threads s i)))"
    "aux_S (threads s i) = aux_acq s (th_side (threads s i))"
    "aux_acq s (th_side (threads s i)) \<le> aux_pos s (th_side (threads s i)) + 8"
    "aux_acq s (th_side (threads s i)) < limit s (th_side (threads s i))"
proof -
  let ?t = "threads s i" and ?sd = "th_side (threads s i)"
  have t: "ot = mk (aux_S ?t)" "aux_S ?t \<le> aux_acq s ?sd" "aux_S ?t \<le> aux_pos s ?sd + 8"
    "aux_S ?t < limit s ?sd"
    using invD(3) [OF assms(1), of i] assms(2) by (auto simp: thread_inv_def Let_def)
  show ot: "ot = mk (aux_acq s ?sd)"
    using side_invD(1) [OF invD(1) [OF assms(1)]] assms(3) by simp
  then have "(of_nat (aux_S ?t) :: u32) = of_nat (aux_acq s ?sd)"
    using t(1) by (simp add: mk_def)
  then show eq: "aux_S ?t = aux_acq s ?sd"
    using of_nat_u32_inject t(2) assms(4) by blast
  show "aux_acq s ?sd \<le> aux_pos s ?sd + 8" "aux_acq s ?sd < limit s ?sd"
    using t eq by simp_all
qed

lemma take_entry_inv:
  assumes inv: "mpmc_inv s" and pc: "th_pc (threads s i) = Acq_Cas ot"
    and cas: "bound_tail (bound_of (th_side (threads s i)) (shq s)) = ot"
    and aba: "aux_acq s (th_side (threads s i)) < aux_S (threads s i) + 2 ^ 32"
  shows "mpmc_inv (take_entry i ot (next_marker ot) s)" (is "mpmc_inv ?s'")
proof (rule mpmc_invI)
  define sd where "sd = th_side (threads s i)"
  note now = take_entry_current [OF inv pc cas aba, folded sd_def]
  note S = side_invD [OF invD(1) [OF inv, of sd]]
  have notin: "i \<notin> holders s sd'" for sd'
    using pc by (simp add: holders_def)
  have hold: "holders ?s' sd' = (if sd' = sd then insert i (holders s sd) else holders s sd')" for sd'
    using notin [of sd'] by (auto simp: holders_def sd_def)
  have fresh: "aux_E (threads s j) \<noteq> aux_acq s sd" if "j \<in> holders s sd" for j
    using holder_entry [OF invD(1) [OF inv, of sd] that] by simp
  show "side_inv ?s' sd"
  proof -
    have "inj_on (\<lambda>j. aux_E (threads ?s' j)) (insert i (holders s sd))"
      using S(7) fresh notin [of sd] now(2) by (auto simp: inj_on_def dest: sym)
    moreover have "(\<lambda>j. aux_E (threads ?s' j)) ` insert i (holders s sd)
        = insert (aux_acq s sd) ((\<lambda>j. aux_E (threads s j)) ` holders s sd)"
      using notin [of sd] now(2) by (auto simp: image_iff sd_def)
    ultimately show ?thesis
      using S now unfolding side_inv_def Let_def hold by (auto simp: sd_def [symmetric])
  qed
  show "side_inv ?s' sd'" if "sd' \<noteq> sd" for sd'
    using that notin [of sd'] unfolding sd_def
    by (intro side_inv_frame [OF invD(1) [OF inv, of sd']]) (auto simp: hold sd_def)
  show "ring_inv ?s'"
    using invD(2) [OF inv] by (auto simp: ring_inv_def)
  show "thread_inv ?s' (threads ?s' j)" for j
  proof (cases "j = i")
    case True
    with S(4) now show ?thesis
      by (auto simp: thread_inv_def owns_def sd_def)
  next
    case False
    moreover have "thread_inv ?s' (threads s j)"
      using side_invD(10) [OF invD(1) [OF inv]] invD(3) [OF inv, of j]
      by (intro thread_inv_mono [OF invD(3) [OF inv, of j]])
        (auto simp: thread_inv_def owns_def Let_def split: pc.splits)
    ultimately show ?thesis by simp
  qed
qed

subsubsection \<open>Writing an entry\<close>

lemma write_entry_fields [simp]:
  "aux_acq (write_entry i e s) = aux_acq s" "aux_done (write_entry i e s) = aux_done s"
  "aux_pos (write_entry i e s) = aux_pos s"
  "aux_written (write_entry i e s) = insert (aux_E (threads s i)) (aux_written s)"
  "aux_in (write_entry i e s) = (aux_in s)(aux_E (threads s i) := th_val (threads s i))"
  "threads (write_entry i e s) = (threads s)(i := (threads s i)\<lparr>th_pc := Com_Load\<rparr>)"
  "bound_of sd (shq (write_entry i e s)) = bound_of sd (shq s)"
  "queue_ring (shq (write_entry i e s)) = (queue_ring (shq s))[unat (e AND 31) := th_val (threads s i)]"
  by (simp_all add: write_entry_def Let_def)

lemma limit_write_entry [simp]: "limit (write_entry i e s) = limit s"
  by (simp add: limit_def fun_eq_iff split: side.split)

lemma limit_simps [simp]:
  "limit s Producer = aux_pos s Consumer + 32" "limit s Consumer = aux_pos s Producer"
  by (simp_all add: limit_def)

lemma slot_of_nat: "unat (of_nat n AND (31 :: u32)) = n mod 32"
  using unat_add_of_nat_mod_32 [of 0 n] by (simp add: ring_simps)

lemma window_slot_inject:
  "c \<le> a \<Longrightarrow> a < c + 32 \<Longrightarrow> c \<le> b \<Longrightarrow> b < c + 32 \<Longrightarrow> a mod 32 = b mod 32 \<Longrightarrow> a = b" for a b c :: nat
proof -
  assume *: "c \<le> a" "a < c + 32" "c \<le> b" "b < c + 32" "a mod 32 = b mod 32"
  then have "a - c < 32" "b - c < 32" by linarith+
  with * mod_32_inject [of c "a - c" "b - c"] have "a - c = b - c" by simp
  with * show "a = b" by simp
qed

text \<open>
  The order of the four positions: consumer head, consumer tail, producer head, producer
  tail, the last at most 32 ahead of the first.
\<close>
lemma positions_ordered:
  assumes "mpmc_inv s"
  shows "aux_pos s Consumer \<le> aux_acq s Consumer" "aux_acq s Consumer \<le> aux_pos s Producer"
    "aux_pos s Producer \<le> aux_acq s Producer" "aux_acq s Producer \<le> aux_pos s Consumer + 32"
  using side_invD(5,11) [OF invD(1) [OF assms]] side_invD(5) [OF invD(1) [OF assms, of Consumer]]
    side_invD(5) [OF invD(1) [OF assms, of Producer]] by simp_all

lemma owned_entry_bounds:
  assumes "mpmc_inv s" "owns s t"
  shows "aux_pos s (th_side t) \<le> aux_E t" "aux_E t < aux_acq s (th_side t)"
  using assms(2) side_invD(3) [OF invD(1) [OF assms(1)], of "th_side t"]
  by (auto simp: owns_def subset_iff) (meson leI)

lemma consumer_owns_done:
  "mpmc_inv s \<Longrightarrow> owns s t \<Longrightarrow> th_side t = Consumer \<Longrightarrow> aux_E t \<in> aux_done s Producer"
  using owned_entry_bounds(2) [of s t] positions_ordered(2) [of s]
    side_invD(3) [OF invD(1), of s Producer] by auto

lemma holds_owns: "mpmc_inv s \<Longrightarrow> holds_entry (th_pc (threads s j)) \<Longrightarrow> owns s (threads s j)"
  using invD(3) [of s j] by (auto simp: thread_inv_def Let_def split: pc.splits)

lemma write_entry_inv:
  assumes inv: "mpmc_inv s" and pc: "th_pc (threads s i) = Elem e" and prd: "th_side (threads s i) = Producer"
  shows "mpmc_inv (write_entry i e s)" (is "mpmc_inv ?s'")
proof (rule mpmc_invI)
  let ?E = "aux_E (threads s i)"
  have own: "owns s (threads s i)" and e: "e = of_nat ?E"
    using invD(3) [OF inv, of i] pc by (auto simp: thread_inv_def Let_def)
  have hold: "holders ?s' sd = holders s sd" for sd
    using pc by (auto simp: holders_def)
  have side: "side_inv ?s' sd" for sd
    by (intro side_inv_frame [OF invD(1) [OF inv]]) (auto simp: hold)
  then show "side_inv ?s' Producer" "\<And>sd'. sd' \<noteq> Producer \<Longrightarrow> side_inv ?s' sd'" by auto
  show "ring_inv ?s'"
  proof -
    have "aux_pos s Consumer \<le> ?E" "?E < aux_pos s Consumer + 32"
      using owned_entry_bounds [OF inv own] positions_ordered [OF inv] prd by simp_all
    moreover have "k < aux_pos s Consumer + 32" if "k \<in> aux_written s" for k
      using that invD(2) [OF inv] positions_ordered(4) [OF inv] by (force simp: ring_inv_def)
    ultimately have "k = ?E" if "k \<in> aux_written s" "aux_pos s Consumer \<le> k" "k mod 32 = ?E mod 32" for k
      using that window_slot_inject by blast
    then show ?thesis
      using invD(2) [OF inv] own e prd
      by (auto simp: ring_inv_def owns_def slot_of_nat nth_list_update)
  qed
  show "thread_inv ?s' (threads ?s' j)" for j
  proof (cases "j = i")
    case True
    with own prd show ?thesis by (auto simp: thread_inv_def owns_def copied_def)
  next
    case False
    have "aux_E (threads s j) \<noteq> ?E" if "holds_entry (th_pc (threads s j))" "th_side (threads s j) = Consumer"
      using consumer_owns_done [OF inv holds_owns [OF inv that(1)] that(2)] own prd
      by (auto simp: owns_def)
    then have "thread_inv ?s' (threads s j)"
      using side_invD(10) [OF invD(1) [OF inv]] holds_owns [OF inv, of j]
      by (intro thread_inv_mono [OF invD(3) [OF inv, of j]]) (auto simp: owns_def)
    with False show ?thesis by simp
  qed
qed

subsubsection \<open>Committing an entry\<close>

lemma commit_entry_fields [simp]:
  "aux_acq (commit_entry i oh tm head s) = aux_acq s"
  "aux_done (commit_entry i oh tm head s) = (aux_done s)(th_side (threads s i) :=
     insert (aux_E (threads s i)) (aux_done s (th_side (threads s i))))"
  "aux_pos (commit_entry i oh tm head s) = (aux_pos s)(th_side (threads s i) :=
     (if marker_count oh + 1 = marker_count tm then aux_T (threads s i)
      else aux_pos s (th_side (threads s i))))"
  "aux_written (commit_entry i oh tm head s) = aux_written s"
  "aux_in (commit_entry i oh tm head s) = aux_in s"
  "threads (commit_entry i oh tm head s) = (threads s)(i := (threads s i)\<lparr>th_pc := Idle\<rparr>)"
  "bound_of sd (shq (commit_entry i oh tm head s)) =
     (if sd = th_side (threads s i) then (bound_of sd (shq s))\<lparr>bound_head := head\<rparr> else bound_of sd (shq s))"
  "queue_ring (shq (commit_entry i oh tm head s)) = queue_ring (shq s)"
  by (simp_all add: commit_entry_def Let_def)

text \<open>
  What a successful compare-and-swap of the head tells: no commit happened since the
  thread loaded the head, so every committed entry lies below its tail marker; the counts
  match exactly when its own entry is the only one missing below that marker.
\<close>
lemma commit_entry_current:
  assumes inv: "mpmc_inv s" and pc: "th_pc (threads s i) = Com_Cas oh tm"
    and cas: "bound_head (bound_of (th_side (threads s i)) (shq s)) = oh"
    and aba: "card (aux_done s (th_side (threads s i))) < aux_C (threads s i) + 2 ^ 32"
  defines "t \<equiv> threads s i"
  defines "sd \<equiv> th_side t"
  defines "K' \<equiv> insert (aux_E t) (aux_done s sd)"
  shows "owns s t" "copied s t" "K' \<subseteq> {..<aux_T t}" "aux_T t \<le> aux_acq s sd" "tm = mk (aux_T t)"
    "card K' = Suc (card (aux_done s sd))" "marker_count oh = of_nat (card (aux_done s sd))"
    "marker_count oh + 1 = marker_count tm \<longleftrightarrow> K' = {..<aux_T t}"
proof -
  let ?K = "aux_done s sd"
  note S = side_invD [OF invD(1) [OF inv, of sd]]
  have t: "owns s t" "copied s t" "marker_count oh = of_nat (aux_C t)" "aux_C t \<le> card ?K"
    "tm = mk (aux_T t)" "aux_T t \<le> aux_acq s sd" "aux_E t < aux_T t"
    "aux_C t = card ?K \<longrightarrow> ?K \<subseteq> {..<aux_T t}"
    using invD(3) [OF inv, of i] pc by (auto simp: thread_inv_def Let_def t_def sd_def)
  then show "owns s t" "copied s t" "aux_T t \<le> aux_acq s sd" "tm = mk (aux_T t)" by auto
  show oh: "marker_count oh = of_nat (card ?K)"
    using cas S(2) by (auto simp: t_def sd_def)
  with t(3) have "(of_nat (aux_C t) :: u32) = of_nat (card ?K)" by simp
  then have C: "aux_C t = card ?K"
    using of_nat_u32_inject t(4) aba unfolding t_def sd_def by blast
  with t show K': "K' \<subseteq> {..<aux_T t}" by (simp add: K'_def)
  show card: "card K' = Suc (card ?K)"
    using t(1) S(10) by (simp add: K'_def owns_def sd_def)
  have "card K' \<le> aux_T t" using K' by (metis card_lessThan card_mono finite_lessThan)
  moreover have "aux_pos s sd \<le> card ?K"
    using S(3,10) by (metis card_lessThan card_mono)
  ultimately have "Suc (card ?K) \<le> aux_T t" "aux_T t < Suc (card ?K) + 2 ^ 32"
    using card t(6) S(6) by simp_all
  then have "(of_nat (Suc (card ?K)) :: u32) = of_nat (aux_T t) \<longleftrightarrow> card K' = aux_T t"
    using of_nat_u32_inject card by metis
  moreover have "card K' = aux_T t \<longleftrightarrow> K' = {..<aux_T t}"
    using K' by (metis card_lessThan card_subset_eq finite_lessThan)
  ultimately show "marker_count oh + 1 = marker_count tm \<longleftrightarrow> K' = {..<aux_T t}"
    using oh t(5) by (simp add: add.commute)
qed

lemma commit_entry_side:
  assumes inv: "mpmc_inv s" and pc: "th_pc (threads s i) = Com_Cas oh tm"
    and cas: "bound_head (bound_of (th_side (threads s i)) (shq s)) = oh"
    and aba: "card (aux_done s (th_side (threads s i))) < aux_C (threads s i) + 2 ^ 32"
  shows "side_inv (commit_entry i oh tm (commit_marker oh tm) s) (th_side (threads s i))"
    (is "side_inv ?s' ?sd")
    and "aux_pos s (th_side (threads s i))
      \<le> aux_pos (commit_entry i oh tm (commit_marker oh tm) s) (th_side (threads s i))"
proof -
  let ?t = "threads s i"
  define K' where "K' = insert (aux_E ?t) (aux_done s ?sd)"
  define P' where "P' = aux_pos ?s' ?sd"
  note now = commit_entry_current [OF inv pc cas aba, folded K'_def]
  note S = side_invD [OF invD(1) [OF inv, of ?sd]]
  have P': "P' = (if K' = {..<aux_T ?t} then aux_T ?t else aux_pos s ?sd)"
    using now(8) by (simp add: P'_def)
  have old: "{..<aux_pos s ?sd} \<subseteq> K'" using S(3) by (auto simp: K'_def)
  then have PK: "{..<P'} \<subseteq> K'" by (simp add: P')
  show mono: "aux_pos s ?sd \<le> P'"
    using old by (cases "K' = {..<aux_T ?t}") (simp_all add: P')
  have i: "i \<in> holders s ?sd" using pc by (simp add: holders_def)
  have hold: "holders ?s' ?sd = holders s ?sd - {i}" by (auto simp: holders_def)
  have img: "(\<lambda>j. aux_E (threads ?s' j)) ` (holders s ?sd - {i}) = {..<aux_acq s ?sd} - K'"
  proof -
    have "(\<lambda>j. aux_E (threads ?s' j)) ` (holders s ?sd - {i}) = (\<lambda>j. aux_E (threads s j)) ` (holders s ?sd - {i})"
      by (rule image_cong) auto
    also have "\<dots> = (\<lambda>j. aux_E (threads s j)) ` holders s ?sd - {aux_E ?t}"
      using S(7) i by (subst inj_on_image_set_diff [OF S(7)]) auto
    finally show ?thesis unfolding S(8) K'_def by auto
  qed
  have last: "P' = aux_acq s ?sd" if "holders s ?sd - {i} = {}"
  proof -
    have "{..<aux_acq s ?sd} \<subseteq> K'" using that img by auto
    with now(3) have "aux_acq s ?sd \<le> aux_T ?t" by (metis lessThan_subset_iff subset_trans)
    with now(4) have T: "aux_T ?t = aux_acq s ?sd" by simp
    with now(3) \<open>{..<aux_acq s ?sd} \<subseteq> K'\<close> have "K' = {..<aux_T ?t}" by auto
    with T show ?thesis by (simp add: P')
  qed
  have inj: "inj_on (\<lambda>j. aux_E (threads ?s' j)) (holders s ?sd - {i})"
    using S(7) by (auto simp: inj_on_def)
  have head: "commit_marker oh tm = \<lparr>marker_pos = of_nat P', marker_count = of_nat (card K')\<rparr>"
    using now(5-8) cas S(2) by (auto simp: commit_marker_def P' add.commute)
  have "K' \<subseteq> {..<aux_acq s ?sd}" using now(3,4) by auto
  moreover have "aux_acq s ?sd \<le> limit ?s' ?sd"
    using S(5) by (cases ?sd) simp_all
  ultimately show "side_inv ?s' ?sd"
    using S(1,6) PK mono img last inj head
    unfolding side_inv_def Let_def hold P'_def [symmetric] by (simp add: K'_def [symmetric])
qed

lemma commit_entry_inv:
  assumes inv: "mpmc_inv s" and pc: "th_pc (threads s i) = Com_Cas oh tm"
    and cas: "bound_head (bound_of (th_side (threads s i)) (shq s)) = oh"
    and aba: "card (aux_done s (th_side (threads s i))) < aux_C (threads s i) + 2 ^ 32"
  shows "mpmc_inv (commit_entry i oh tm (commit_marker oh tm) s)" (is "mpmc_inv ?s'")
proof (rule mpmc_invI)
  let ?sd = "th_side (threads s i)"
  note now = commit_entry_current [OF inv pc cas aba]
  note S = side_invD [OF invD(1) [OF inv, of ?sd]]
  show "side_inv ?s' ?sd" by (rule commit_entry_side [OF assms])
  have pos: "aux_pos s sd \<le> aux_pos ?s' sd" for sd
    using commit_entry_side(2) [OF assms] by (cases "sd = ?sd") auto
  show "side_inv ?s' sd'" if "sd' \<noteq> ?sd" for sd'
  proof (rule side_inv_frame [OF invD(1) [OF inv, of sd']])
    show "limit s sd' \<le> limit ?s' sd'" using pos by (cases sd') simp_all
    show "holders ?s' sd' = holders s sd'" using that by (auto simp: holders_def)
  qed (use that in auto)
  show "ring_inv ?s'"
    using invD(2) [OF inv] now(2) pos [of Consumer]
    by (cases ?sd) (auto simp: ring_inv_def copied_def split: if_splits)
  show "thread_inv ?s' (threads ?s' j)" for j
  proof (cases "j = i")
    case True
    then show ?thesis by (simp add: thread_inv_def)
  next
    case False
    have "aux_E (threads s j) \<notin> aux_done ?s' (th_side (threads s j))" if "holds_entry (th_pc (threads s j))"
      using S(7) False holds_owns [OF inv that] that pc
      by (auto simp: owns_def inj_on_def holders_def)
    then have "thread_inv ?s' (threads s j)"
      using side_invD(10) [OF invD(1) [OF inv]] pos
      by (intro thread_inv_mono [OF invD(3) [OF inv, of j]]) auto
    with False show ?thesis by simp
  qed
qed

subsection \<open>Every reachable state satisfies the invariant\<close>

lemma init_inv: "mpmc_inv (mpmc_init q)"
  by (auto simp: mpmc_inv_def side_inv_def ring_inv_def thread_inv_def mpmc_init_def idle_thread_def
      holders_def limit_def bound_of_def rpcmsg_queue_init_def zero_marker_def mk_def Let_def
      split: side.split)

lemma cas_simps [simp]:
  "mem = old \<Longrightarrow> cas krn mem old new = (True, new, old)"
  "mem \<noteq> old \<Longrightarrow> cas krn mem old new = (False, mem, if krn then old else mem)"
  by (auto simp: cas_def atomic_compare_and_swap_def atomic_compare_and_swap_kernel_def)

lemma entries_0_check:
  assumes inv: "mpmc_inv s" and S: "aux_S t \<le> aux_acq s (th_side t)"
    and ne: "entries_of (th_side t) (shq s) (mk (aux_S t)) \<noteq> 0"
  shows "aux_S t < limit s (th_side t)"
proof -
  have "aux_S t \<noteq> limit s (th_side t)"
  proof
    assume "aux_S t = limit s (th_side t)"
    with ne side_invD(2) [OF invD(1) [OF inv, of Producer]]
      side_invD(2) [OF invD(1) [OF inv, of Consumer]] show False
      by (cases "th_side t")
        (simp_all add: entries_of_def prod_entries_def cons_entries_def bound_of_def)
  qed
  with S side_invD(5) [OF invD(1) [OF inv, of "th_side t"]] show ?thesis by simp
qed

lemma wait_distance:
  assumes inv: "mpmc_inv s" and S: "aux_S t \<le> aux_acq s (th_side t)"
    and near: "(of_nat (aux_S t) :: u32) - of_nat (aux_pos s (th_side t)) \<le> 8"
  shows "aux_S t \<le> aux_pos s (th_side t) + 8"
proof (cases "aux_pos s (th_side t) \<le> aux_S t")
  case True
  then have "(of_nat (aux_S t) :: u32) - of_nat (aux_pos s (th_side t)) = of_nat (aux_S t - aux_pos s (th_side t))"
    by (simp add: of_nat_diff)
  moreover have "aux_S t - aux_pos s (th_side t) \<le> 9"
    using S side_invD(6) [OF invD(1) [OF inv, of "th_side t"]] by simp
  ultimately have "aux_S t - aux_pos s (th_side t) \<le> 8"
    using near by (simp add: word_le_nat_alt unat_of_nat)
  then show ?thesis by simp
qed simp

lemma no_abaD:
  assumes "no_aba s"
  shows "th_pc (threads s i) = Acq_Cas ot \<Longrightarrow>
      aux_acq s (th_side (threads s i)) < aux_S (threads s i) + 2 ^ 32"
  using assms [unfolded no_aba_def Let_def, rule_format, of i] by simp

text \<open>The steps up to and including the compare-and-swap of the tail.\<close>
lemma acquire_step_inv:
  assumes inv: "mpmc_inv s" and aba: "no_aba s"
    and pc: "\<not> holds_entry (th_pc (threads s i))"
  shows "mpmc_inv (thread_step krn req i s)"
proof -
  note t = invD(3) [OF inv, of i]
  note S = side_invD [OF invD(1) [OF inv]]
  note step = thread_step_def Let_def
  from pc consider (load) "th_pc (threads s i) \<in> {Idle, Acq_Reload}"
    | (wait) ot where "th_pc (threads s i) = Acq_Wait ot"
    | (check) ot where "th_pc (threads s i) = Acq_Check ot"
    | (swap) ot where "th_pc (threads s i) = Acq_Cas ot" by (cases "th_pc (threads s i)") auto
  then show ?thesis
  proof cases
    case load
    then show ?thesis
      unfolding step by (auto intro!: local_step_inv [OF inv] simp: thread_inv_def S(1))
  next
    case (wait ot)
    with t show ?thesis
      unfolding step
      by (auto intro!: local_step_inv [OF inv] wait_distance [OF inv] simp: thread_inv_def S(2) Let_def not_less)
  next
    case (check ot)
    with t show ?thesis
      unfolding step
      by (auto intro!: local_step_inv [OF inv] entries_0_check [OF inv] simp: thread_inv_def Let_def)
  next
    case (swap ot)
    show ?thesis
    proof (cases "bound_tail (bound_of (th_side (threads s i)) (shq s)) = ot")
      case True
      with swap take_entry_inv [OF inv swap _ no_abaD [OF aba swap]] show ?thesis
        by (simp add: step)
    next
      case False
      with swap t show ?thesis
        unfolding step by (auto intro!: local_step_inv [OF inv] simp: thread_inv_def S(1) Let_def)
    qed
  qed
qed

text \<open>A consumer finds in its ring slot what the producer of that entry wrote.\<close>
lemma consumer_slot:
  assumes inv: "mpmc_inv s" and "owns s t" "th_side t = Consumer"
  shows "queue_ring (shq s) ! (aux_E t mod 32) = aux_in s (aux_E t)"
  using invD(2) [OF inv] consumer_owns_done [OF inv assms(2,3)] owned_entry_bounds(1) [OF inv assms(2)]
    assms(3) by (auto simp: ring_inv_def)

lemma elem_step_inv:
  assumes inv: "mpmc_inv s" and pc: "th_pc (threads s i) = Elem e"
  shows "mpmc_inv (thread_step krn req i s)"
proof (cases "th_side (threads s i)")
  case Producer
  with pc write_entry_inv [OF inv pc] show ?thesis by (simp add: thread_step_def Let_def)
next
  case Consumer
  have "owns s (threads s i)" "e = of_nat (aux_E (threads s i))"
    using invD(3) [OF inv, of i] pc by (auto simp: thread_inv_def Let_def)
  with consumer_slot [OF inv _ Consumer] show ?thesis
    using pc Consumer unfolding thread_step_def Let_def
    by (auto intro!: local_step_inv [OF inv] simp: thread_inv_def owns_def copied_def slot_of_nat)
qed

text \<open>The commit counter cannot run away from a thread that holds an entry.\<close>
lemma done_covers:
  assumes inv: "mpmc_inv s" and own: "owns s t"
  shows "aux_E t \<le> card (aux_done s (th_side t)) + 8"
proof -
  note S = side_invD [OF invD(1) [OF inv, of "th_side t"]]
  have "aux_pos s (th_side t) \<le> card (aux_done s (th_side t))"
    using S(3,10) by (metis card_lessThan card_mono)
  with owned_entry_bounds(2) [OF inv own] S(6) show ?thesis by simp
qed

lemma commit_distance:
  assumes inv: "mpmc_inv s" and own: "owns s t" and C: "aux_E t \<le> aux_C t + 8"
  shows "card (aux_done s (th_side t)) < aux_C t + 2 ^ 32"
proof -
  note S = side_invD [OF invD(1) [OF inv, of "th_side t"]]
  have "card (aux_done s (th_side t)) \<le> aux_acq s (th_side t)"
    using S(4) by (metis card_lessThan card_mono finite_lessThan)
  with owned_entry_bounds(1) [OF inv own] S(6) C show ?thesis by simp
qed

lemma commit_step_inv:
  assumes inv: "mpmc_inv s"
    and pc: "holds_entry (th_pc (threads s i))" "\<And>e. th_pc (threads s i) \<noteq> Elem e"
  shows "mpmc_inv (thread_step krn req i s)"
proof -
  note t = invD(3) [OF inv, of i] and own = holds_owns [OF inv pc(1)]
  note S = side_invD [OF invD(1) [OF inv]]
  note step = thread_step_def Let_def
  from pc consider (load) "th_pc (threads s i) = Com_Load"
    | (tail) oh where "th_pc (threads s i) = Com_Tail oh"
    | (swap) oh tm where "th_pc (threads s i) = Com_Cas oh tm" by (cases "th_pc (threads s i)") auto
  then show ?thesis
  proof cases
    case load
    with t show ?thesis
      unfolding step using done_covers [OF inv own]
      by (auto intro!: local_step_inv [OF inv] simp: thread_inv_def owns_def copied_def S(2) split: side.splits)
  next
    case (tail oh)
    with t S(4) show ?thesis
      unfolding step
      by (auto intro!: local_step_inv [OF inv] simp: thread_inv_def owns_def copied_def S(1) Let_def split: side.splits)
  next
    case (swap oh tm)
    show ?thesis
    proof (cases "bound_head (bound_of (th_side (threads s i)) (shq s)) = oh")
      case True
      have "aux_E (threads s i) \<le> aux_C (threads s i) + 8"
        using t swap by (simp add: thread_inv_def Let_def)
      with True swap commit_entry_inv [OF inv swap _ commit_distance [OF inv own]] show ?thesis
        by (simp add: step)
    next
      case False
      with swap t show ?thesis
        unfolding step using done_covers [OF inv own]
        by (auto intro!: local_step_inv [OF inv] simp: thread_inv_def owns_def copied_def S(2) Let_def split: side.splits)
    qed
  qed
qed

lemma thread_step_inv:
  "mpmc_inv s \<Longrightarrow> no_aba s \<Longrightarrow> mpmc_inv (thread_step krn req i s)"
  by (metis acquire_step_inv elem_step_inv commit_step_inv)

lemma reachable_inv: "reachable krn s \<Longrightarrow> mpmc_inv s"
  by (induction rule: reachable.induct) (auto simp: init_inv thread_step_inv)

section \<open>Runs\<close>

text \<open>The state after a schedule: which thread moves, and what it starts when idle.\<close>
definition run_sched :: "bool \<Rightarrow> (nat \<times> side \<times> u16) list \<Rightarrow> mpmc \<Rightarrow> mpmc" where
  "run_sched krn sched s = fold (\<lambda>(i, req). thread_step krn req i) sched s"

inductive later :: "bool \<Rightarrow> mpmc \<Rightarrow> mpmc \<Rightarrow> bool" for krn s where
  later_refl: "later krn s s"
| later_step: "later krn s s' \<Longrightarrow> no_aba s' \<Longrightarrow> later krn s (thread_step krn req i s')"

lemma later_reachable: "later krn s s' \<Longrightarrow> reachable krn s \<Longrightarrow> reachable krn s'"
  by (induction rule: later.induct) (auto intro: reachable_step)

lemma aux_acq_thread_step: "aux_acq (thread_step krn req i s) sd \<le> Suc (aux_acq s sd)"
  by (auto simp: thread_step_def Let_def split: pc.split side.split prod.split)

lemma no_aba_small: "(\<And>sd. aux_acq s sd < 2 ^ 32) \<Longrightarrow> no_aba s"
  unfolding no_aba_def Let_def by (auto split: pc.split intro: trans_less_add2)

text \<open>Every schedule of fewer than \<open>2 ^ 32\<close> steps is a run without overtaking.\<close>
lemma short_run_reachable:
  "length sched < 2 ^ 32 \<Longrightarrow> reachable krn (run_sched krn sched (mpmc_init q))
     \<and> (\<forall>sd. aux_acq (run_sched krn sched (mpmc_init q)) sd \<le> length sched)"
proof (induction sched rule: rev_induct)
  case Nil
  then show ?case
    by (simp add: run_sched_def reachable_init) (simp add: mpmc_init_def)
next
  case (snoc x sched)
  obtain i req where x: "x = (i, req)" by (cases x)
  let ?s = "run_sched krn sched (mpmc_init q)"
  have IH: "reachable krn ?s" "\<And>sd. aux_acq ?s sd \<le> length sched" using snoc by auto
  have "aux_acq ?s sd < 2 ^ 32" for sd
    using snoc.prems IH(2) [of sd] by simp
  then have "no_aba ?s" by (rule no_aba_small)
  with IH(1) have "reachable krn (thread_step krn req i ?s)" by (rule reachable_step)
  moreover have "aux_acq (thread_step krn req i ?s) sd \<le> Suc (length sched)" for sd
    using aux_acq_thread_step [of krn req i ?s sd] IH(2) [of sd] by simp
  ultimately show ?case by (simp add: run_sched_def x)
qed

section \<open>Properties\<close>

lemma thread_step_other: "j \<noteq> i \<Longrightarrow> threads (thread_step krn req i s) j = threads s j"
  by (auto simp: thread_step_def Let_def split: pc.split side.split prod.split)

lemma run_sched_other:
  "j \<notin> fst ` set sched \<Longrightarrow> threads (run_sched krn sched s) j = threads s j"
  by (induction sched arbitrary: s) (auto simp: run_sched_def thread_step_other)

lemma unat_diff_of_nat:
  "b \<le> a \<Longrightarrow> a - b < 2 ^ 32 \<Longrightarrow> unat ((of_nat a :: u32) - of_nat b) = a - b" for a b :: nat
  by (simp add: of_nat_diff [symmetric] unat_of_nat del: of_nat_diff)

lemma slots_of_nat: "slots (unat (of_nat c :: u32)) n = slots c n"
proof -
  have "unat (of_nat c :: u32) mod 32 = c mod 32"
    by (simp add: unat_of_nat mod_mod_cancel)
  then show ?thesis by (metis slots_mod)
qed

lemma distinct_entries_distinct_slots:
  assumes inv: "mpmc_inv s" and i: "owns s (threads s i)" "i \<in> holders s (th_side (threads s i))"
    and j: "owns s (threads s j)" "j \<in> holders s (th_side (threads s j))" and ne: "i \<noteq> j"
    and slot: "aux_E (threads s i) mod 32 = aux_E (threads s j) mod 32"
  shows False
proof -
  note pos = positions_ordered [OF inv]
  have bounds: "aux_pos s Consumer \<le> aux_E (threads s k)" "aux_E (threads s k) < aux_pos s Consumer + 32"
    if "owns s (threads s k)" for k
    using owned_entry_bounds [OF inv that] pos by (cases "th_side (threads s k)"; simp)+
  then have eq: "aux_E (threads s i) = aux_E (threads s j)"
    using i(1) j(1) slot window_slot_inject by meson
  show False
  proof (cases "th_side (threads s i) = th_side (threads s j)")
    case True
    with i(2) j(2) eq ne side_invD(7) [OF invD(1) [OF inv]] show False by (metis inj_onD)
  next
    case False
    with owned_entry_bounds [OF inv i(1)] owned_entry_bounds [OF inv j(1)] pos eq show False
      by (cases "th_side (threads s i)"; cases "th_side (threads s j)") simp_all
  qed
qed

text \<open>
  C4. Concurrent producers and consumers never touch the same ring slot at the same time:
  in every reachable interleaving, under either compare-and-swap macro, two distinct
  threads that hold an entry (whichever sides they are on) hold different slots.
\<close>
theorem ring_slots_exclusive:
  assumes "reachable krn s" "i \<noteq> j"
    and "th_pc (threads s i) = Elem e" "th_pc (threads s j) = Elem f"
  shows "e AND RPCMSG_BUFFER_MASK \<noteq> f AND RPCMSG_BUFFER_MASK"
proof
  note inv = reachable_inv [OF assms(1)]
  assume "e AND RPCMSG_BUFFER_MASK = f AND RPCMSG_BUFFER_MASK"
  moreover have "e = of_nat (aux_E (threads s i))" "f = of_nat (aux_E (threads s j))"
    using invD(3) [OF inv, of i] invD(3) [OF inv, of j] assms(3,4)
    by (auto simp: thread_inv_def Let_def)
  ultimately have "aux_E (threads s i) mod 32 = aux_E (threads s j) mod 32"
    by (metis buffer_size_simps(2) slot_of_nat)
  then show False
    using distinct_entries_distinct_slots [OF inv _ _ _ _ assms(2)] holds_owns [OF inv] assms(3,4)
    by (simp add: holders_def)
qed

definition blank_queue :: rpcmsg_queue where
  "blank_queue = \<lparr>queue_prod = \<lparr>bound_tail = zero_marker, bound_head = zero_marker\<rparr>,
     queue_cons = \<lparr>bound_tail = zero_marker, bound_head = zero_marker\<rparr>, queue_ring = []\<rparr>"

text \<open>Threads 0 and 1 both acquire an entry and write it; thread 0 then reads the head, and
  thread 1 commits first.\<close>
definition two_producers :: "(nat \<times> side \<times> u16) list" where
  "two_producers = replicate 4 (0, Producer, 7) @ replicate 4 (1, Producer, 9)"

definition overtaken_commit :: "(nat \<times> side \<times> u16) list" where
  "overtaken_commit = two_producers @ replicate 3 (0, Producer, 7) @ replicate 4 (1, Producer, 9)"

text \<open>Thread 0 enqueues 7, thread 1 dequeues it up to its commit.\<close>
definition hand_over :: "(nat \<times> side \<times> u16) list" where
  "hand_over = replicate 8 (0, Producer, 7) @ replicate 5 (1, Consumer, 0)"

theorem ring_slots_exclusive_witness:
  defines "s \<equiv> run_sched False two_producers (mpmc_init blank_queue)"
  shows "reachable False s \<and> th_pc (threads s 0) = Elem 0 \<and> th_pc (threads s 1) = Elem 1
    \<and> (0 :: u32) AND RPCMSG_BUFFER_MASK \<noteq> 1 AND RPCMSG_BUFFER_MASK"
proof -
  have "reachable False s"
    unfolding s_def by (rule short_run_reachable [THEN conjunct1]) (simp add: two_producers_def)
  moreover have "th_pc (threads s 0) = Elem 0" "th_pc (threads s 1) = Elem 1"
    unfolding s_def by code_simp+
  ultimately show ?thesis
    using ring_slots_exclusive [of False s 0 1 0 1] by simp
qed

text \<open>
  C8. A consumer is handed exactly what was enqueued: once it has read its entry, its id is
  the id the producer of that entry enqueued, that producer has committed, and no other
  consumer holds or has already finished the entry.
\<close>
theorem consumer_gets_enqueued_id:
  assumes "reachable krn s" "th_side (threads s i) = Consumer"
    and "holds_entry (th_pc (threads s i))" "\<forall>e. th_pc (threads s i) \<noteq> Elem e"
  shows "th_val (threads s i) = aux_in s (aux_E (threads s i))
    \<and> aux_E (threads s i) \<in> aux_done s Producer \<and> aux_E (threads s i) \<notin> aux_done s Consumer
    \<and> (\<forall>j. j \<noteq> i \<and> th_side (threads s j) = Consumer \<and> holds_entry (th_pc (threads s j))
         \<longrightarrow> aux_E (threads s j) \<noteq> aux_E (threads s i))"
proof -
  note inv = reachable_inv [OF assms(1)]
  note own = holds_owns [OF inv assms(3)]
  have "copied s (threads s i)"
    using invD(3) [OF inv, of i] assms(3,4) by (auto simp: thread_inv_def Let_def split: pc.splits)
  moreover have "aux_E (threads s j) \<noteq> aux_E (threads s i)"
    if "j \<noteq> i" "th_side (threads s j) = Consumer" "holds_entry (th_pc (threads s j))" for j
    using side_invD(7) [OF invD(1) [OF inv, of Consumer]] that assms(2,3)
    by (auto simp: inj_on_def holders_def)
  ultimately show ?thesis
    using consumer_owns_done [OF inv own assms(2)] own assms(2) by (auto simp: copied_def owns_def)
qed

theorem consumer_gets_enqueued_id_witness:
  defines "s \<equiv> run_sched False hand_over (mpmc_init blank_queue)"
  shows "th_val (threads s 1) = aux_in s (aux_E (threads s 1)) \<and> aux_in s (aux_E (threads s 1)) = 7"
proof -
  have "reachable False s"
    unfolding s_def by (rule short_run_reachable [THEN conjunct1]) (simp add: hand_over_def)
  moreover have "th_side (threads s 1) = Consumer" "th_pc (threads s 1) = Com_Load"
    "aux_in s (aux_E (threads s 1)) = 7"
    unfolding s_def by code_simp+
  ultimately show ?thesis
    using consumer_gets_enqueued_id [of False s 1] by simp
qed

text \<open>
  C15. When no thread is between its acquire and its commit, the shared queue is a
  consistent sequential queue: heads equal tails, at most 32 entries are queued, and the
  queued ring slots hold the ids of the entries not yet dequeued, in the order their
  entries were acquired.
\<close>
theorem quiescent_queue_ok:
  assumes "reachable krn s" "\<forall>i. \<not> holds_entry (th_pc (threads s i))"
  shows "queue_ok (shq s)
    \<and> map (\<lambda>k. queue_ring (shq s) ! k) (queue_slots (shq s))
        = map (aux_in s) [aux_acq s Consumer..<aux_acq s Producer]"
proof -
  note inv = reachable_inv [OF assms(1)]
  note S = side_invD [OF invD(1) [OF inv]]
  note R = invD(2) [OF inv, unfolded ring_inv_def]
  have no: "holders s sd = {}" for sd using assms(2) by (simp add: holders_def)
  have P: "aux_pos s sd = aux_acq s sd" for sd by (rule S(9) [OF no])
  have K: "aux_done s sd = {..<aux_acq s sd}" for sd
    using S(3) [of sd] S(4) [of sd] by (simp add: P)
  have head: "bound_head (bound_of sd (shq s)) = mk (aux_acq s sd)" for sd
    by (simp add: S(2) P K mk_def)
  have order: "aux_acq s Consumer \<le> aux_acq s Producer" "aux_acq s Producer \<le> aux_acq s Consumer + 32"
    using positions_ordered [OF inv] by (simp_all add: P)
  define n where "n = aux_acq s Producer - aux_acq s Consumer"
  have n: "aux_acq s Producer = aux_acq s Consumer + n" "n \<le> 32"
    using order by (auto simp: n_def)
  have heads: "bound_head (queue_prod (shq s)) = mk (aux_acq s Producer)"
    "bound_head (queue_cons (shq s)) = mk (aux_acq s Consumer)"
    using head [of Producer] head [of Consumer] by (simp_all add: bound_of_def)
  have tails: "bound_tail (queue_prod (shq s)) = mk (aux_acq s Producer)"
    "bound_tail (queue_cons (shq s)) = mk (aux_acq s Consumer)"
    using S(1) [of Producer] S(1) [of Consumer] by (simp_all add: bound_of_def)
  have len: "queue_len (shq s) = n"
    using n(2) by (simp add: queue_len_def heads n(1) unat_of_nat)
  have slots: "queue_slots (shq s) = map (\<lambda>e. e mod 32) [aux_acq s Consumer..<aux_acq s Producer]"
    unfolding queue_slots_def len heads mk_simps slots_of_nat
    by (rule nth_equalityI) (simp_all add: slots_def n(1))
  have "queue_ring (shq s) ! (e mod 32) = aux_in s e"
    if "e \<in> set [aux_acq s Consumer..<aux_acq s Producer]" for e
    using R that by (auto simp: K P)
  then show ?thesis
    using R n(2) by (auto simp: queue_ok_def heads tails len slots)
qed

theorem quiescent_queue_ok_witness:
  defines "s \<equiv> run_sched True (replicate 8 (0, Producer, 7)) (mpmc_init blank_queue)"
  shows "queue_ok (shq s) \<and> map (aux_in s) [aux_acq s Consumer..<aux_acq s Producer] = [7]"
proof -
  have "reachable True s"
    unfolding s_def by (rule short_run_reachable [THEN conjunct1]) simp
  moreover have "th_pc (threads s i) = Idle" if "i \<noteq> 0" for i
    using that by (simp add: s_def run_sched_other) (simp add: mpmc_init_def idle_thread_def)
  moreover have "th_pc (threads s 0) = Idle"
    "map (aux_in s) [aux_acq s Consumer..<aux_acq s Producer] = [7]"
    unfolding s_def by code_simp+
  ultimately show ?thesis
    using quiescent_queue_ok [of True s] by (metis holds_entry.simps(5))
qed

text \<open>
  C25. The head/tail distance and the size checks hold under every interleaving: on each
  side the tail runs at most \<open>RPCMSG_HTD_MAX + 1\<close> entries ahead of the head, and producers
  run at most 32 entries ahead of the consumers, as the wrapping 32-bit differences the
  code computes.
\<close>
theorem positions_bounded:
  assumes "reachable krn s"
  shows "marker_pos (bound_tail (bound_of sd (shq s))) - marker_pos (bound_head (bound_of sd (shq s)))
      \<le> RPCMSG_HTD_MAX + 1
    \<and> marker_pos (bound_tail (queue_prod (shq s))) - marker_pos (bound_head (queue_cons (shq s))) \<le> 32
    \<and> marker_pos (bound_tail (queue_cons (shq s))) - marker_pos (bound_head (queue_cons (shq s)))
      \<le> marker_pos (bound_head (queue_prod (shq s))) - marker_pos (bound_head (queue_cons (shq s)))"
proof -
  note inv = reachable_inv [OF assms]
  note S = side_invD [OF invD(1) [OF inv]]
  note pos = positions_ordered [OF inv]
  have m: "marker_pos (bound_tail (bound_of d (shq s))) = of_nat (aux_acq s d)"
    "marker_pos (bound_head (bound_of d (shq s))) = of_nat (aux_pos s d)" for d
    by (simp_all add: S(1,2))
  note q = m [of Producer, unfolded bound_of_def side.case] m [of Consumer, unfolded bound_of_def side.case]
  have "marker_pos (bound_tail (bound_of sd (shq s))) - marker_pos (bound_head (bound_of sd (shq s)))
      \<le> RPCMSG_HTD_MAX + 1"
    using S(6,11) [of sd] unfolding m word_le_nat_alt by (subst unat_diff_of_nat) auto
  moreover have "(of_nat (aux_acq s Producer) :: u32) - of_nat (aux_pos s Consumer) \<le> 32"
    using pos unfolding word_le_nat_alt by (subst unat_diff_of_nat) auto
  moreover have "(of_nat (aux_acq s Consumer) :: u32) - of_nat (aux_pos s Consumer)
      \<le> of_nat (aux_pos s Producer) - of_nat (aux_pos s Consumer)"
    using pos unfolding word_le_nat_alt by (subst (1 2) unat_diff_of_nat) auto
  ultimately show ?thesis by (simp only: q simp_thms)
qed

theorem positions_bounded_witness:
  defines "s \<equiv> run_sched False two_producers (mpmc_init blank_queue)"
  shows "marker_pos (bound_tail (queue_prod (shq s))) - marker_pos (bound_head (queue_cons (shq s))) \<le> 32
    \<and> marker_pos (bound_tail (queue_prod (shq s))) = 2"
proof -
  have "reachable False s"
    unfolding s_def by (rule short_run_reachable [THEN conjunct1]) (simp add: two_producers_def)
  moreover have "marker_pos (bound_tail (queue_prod (shq s))) = 2"
    unfolding s_def by code_simp
  ultimately show ?thesis
    using positions_bounded [of False s Producer] by simp
qed

text \<open>A thread in the retry loop of \<open>rpcmsg_commit_update\<close> with \<open>oh\<close> as its copy of the head.\<close>
definition commits_with :: "rpcmsg_marker \<Rightarrow> pc \<Rightarrow> bool" where
  "commits_with oh p \<longleftrightarrow> (case p of Com_Tail oh' \<Rightarrow> oh' = oh | Com_Cas oh' tm \<Rightarrow> oh' = oh | _ \<Rightarrow> False)"

lemma done_mono: "aux_done s sd \<subseteq> aux_done (thread_step krn req i s) sd"
  by (auto simp: thread_step_def Let_def split: pc.split side.split prod.split)

text \<open>While a thread's copy is behind, its count differs from the head's; and it stays behind.\<close>
lemma commits_behind:
  assumes inv: "mpmc_inv s" and pc: "commits_with oh (th_pc (threads s i))"
  shows "marker_count (bound_head (bound_of (th_side (threads s i)) (shq s))) = marker_count oh
    \<longleftrightarrow> aux_C (threads s i) = card (aux_done s (th_side (threads s i)))"
proof -
  let ?t = "threads s i"
  have t: "owns s ?t" "aux_E ?t \<le> aux_C ?t + 8" "aux_C ?t \<le> card (aux_done s (th_side ?t))"
    "marker_count oh = of_nat (aux_C ?t)"
    using invD(3) [OF inv, of i] pc
    by (auto simp: thread_inv_def Let_def commits_with_def split: pc.splits)
  have head: "marker_count (bound_head (bound_of (th_side ?t) (shq s)))
      = of_nat (card (aux_done s (th_side ?t)))"
    by (simp only: side_invD(2) [OF invD(1) [OF inv]] rpcmsg_marker.simps)
  show ?thesis
    unfolding head t(4) using of_nat_u32_inject [OF _ t(3) commit_distance [OF inv t(1,2)]] by metis
qed

lemma com_tail_step:
  "th_pc (threads s i) = Com_Tail oh \<Longrightarrow>
     thread_step krn req i s = set_thread i ((threads s i)
       \<lparr>th_pc := Com_Cas oh (bound_tail (bound_of (th_side (threads s i)) (shq s))),
        aux_T := aux_acq s (th_side (threads s i))\<rparr>) s"
  by (simp add: thread_step_def Let_def)

lemma com_cas_fails:
  "th_pc (threads s i) = Com_Cas oh tm \<Longrightarrow>
   bound_head (bound_of (th_side (threads s i)) (shq s)) \<noteq> oh \<Longrightarrow>
     thread_step krn req i s = set_thread i ((threads s i)
       \<lparr>th_pc := Com_Tail (if krn then oh else bound_head (bound_of (th_side (threads s i)) (shq s))),
        aux_C := if krn then aux_C (threads s i) else card (aux_done s (th_side (threads s i)))\<rparr>) s"
  by (simp add: thread_step_def Let_def)

lemma com_cas_succeeds:
  "th_pc (threads s i) = Com_Cas oh tm \<Longrightarrow>
   bound_head (bound_of (th_side (threads s i)) (shq s)) = oh \<Longrightarrow>
     thread_step krn req i s = commit_entry i oh tm (commit_marker oh tm) s"
  by (simp add: thread_step_def Let_def)

lemma commits_withE:
  assumes "commits_with oh p"
  obtains "p = Com_Tail oh" | tm where "p = Com_Cas oh tm"
  using assms by (cases p) (auto simp: commits_with_def)

lemma kernel_commit_step:
  assumes pc: "commits_with oh (th_pc (threads s i))"
    and behind: "bound_head (bound_of (th_side (threads s i)) (shq s)) \<noteq> oh"
  shows "commits_with oh (th_pc (threads (thread_step True req j s) i))
    \<and> th_side (threads (thread_step True req j s) i) = th_side (threads s i)
    \<and> aux_C (threads (thread_step True req j s) i) = aux_C (threads s i)"
proof (cases "j = i")
  case True
  from pc show ?thesis
  proof (cases rule: commits_withE)
    case 1
    show ?thesis unfolding True com_tail_step [OF 1] by (simp add: commits_with_def)
  next
    case (2 tm)
    show ?thesis unfolding True com_cas_fails [OF 2 behind] by (simp add: commits_with_def)
  qed
qed (use pc in \<open>simp add: thread_step_other\<close>)

text \<open>
  C26. With the Linux kernel's compare-and-swap macro, which does not write the observed
  value back, a thread whose copy of the head is outdated when it commits never leaves
  the retry loop of \<open>rpcmsg_commit_update\<close>, whatever the other threads do.
\<close>
theorem kernel_commit_livelock:
  assumes "later True s s'" "reachable True s" "commits_with oh (th_pc (threads s i))"
    and "marker_count (bound_head (bound_of (th_side (threads s i)) (shq s))) \<noteq> marker_count oh"
  shows "commits_with oh (th_pc (threads s' i))"
proof -
  have "commits_with oh (th_pc (threads s' i)) \<and> mpmc_inv s'
      \<and> marker_count (bound_head (bound_of (th_side (threads s' i)) (shq s'))) \<noteq> marker_count oh"
    using assms(1)
  proof (induction rule: later.induct)
    case later_refl
    with assms reachable_inv show ?case by blast
  next
    case (later_step s' req j)
    let ?s = "thread_step True req j s'" and ?sd = "th_side (threads s' i)"
    have inv: "mpmc_inv ?s" using later_step thread_step_inv by blast
    have step: "commits_with oh (th_pc (threads ?s i))" "th_side (threads ?s i) = ?sd"
      "aux_C (threads ?s i) = aux_C (threads s' i)"
      using kernel_commit_step [of oh s' i req j] later_step.IH by fastforce+
    have less: "aux_C (threads s' i) < card (aux_done s' ?sd)"
      using later_step.IH commits_behind [of s' oh i] invD(3) [of s' i]
      by (auto simp: thread_inv_def Let_def commits_with_def split: pc.splits)
    have "card (aux_done s' ?sd) \<le> card (aux_done ?s ?sd)"
      using side_invD(10) [OF invD(1) [OF inv]] by (intro card_mono done_mono) auto
    with less step inv commits_behind [OF inv step(1)] show ?case by simp
  qed
  then show ?thesis by blast
qed

theorem kernel_commit_livelock_witness:
  defines "s \<equiv> run_sched True overtaken_commit (mpmc_init blank_queue)"
  shows "commits_with zero_marker (th_pc (threads (thread_step True (Producer, 0) 0 s) 0))"
proof -
  have "reachable True s"
    unfolding s_def
    by (rule short_run_reachable [THEN conjunct1]) (simp add: overtaken_commit_def two_producers_def)
  moreover have "no_aba s"
    unfolding s_def
    using short_run_reachable [of overtaken_commit True blank_queue]
    by (intro no_aba_small) (auto simp: overtaken_commit_def two_producers_def intro: le_less_trans)
  moreover have "commits_with zero_marker (th_pc (threads s 0))"
    "marker_count (bound_head (bound_of (th_side (threads s 0)) (shq s))) = 1"
    unfolding s_def by code_simp+
  ultimately show ?thesis
    using kernel_commit_livelock [of s "thread_step True (Producer, 0) 0 s" zero_marker 0]
      later_step [OF later_refl]
    by (simp add: zero_marker_def)
qed

text \<open>
  C27. With the user-level macro a commit completes: a thread in the retry loop of
  \<open>rpcmsg_commit_update\<close> that is not disturbed for at most four steps leaves the loop
  with its entry committed, however outdated its copy of the head is.
\<close>
theorem user_commit_completes:
  assumes "commits_with oh (th_pc (threads s i))"
  shows "\<exists>n \<le> 4. th_pc (threads (run_sched False (replicate n (i, req)) s) i) = Idle
    \<and> aux_done (run_sched False (replicate n (i, req)) s) (th_side (threads s i))
        = insert (aux_E (threads s i)) (aux_done s (th_side (threads s i)))"
proof -
  let ?ok = "\<lambda>n s. th_pc (threads (run_sched False (replicate n (i, req)) s) i) = Idle
    \<and> aux_done (run_sched False (replicate n (i, req)) s) (th_side (threads s i))
        = insert (aux_E (threads s i)) (aux_done s (th_side (threads s i)))"
  let ?head = "\<lambda>s. bound_head (bound_of (th_side (threads s i)) (shq s))"
  have Suc: "run_sched False (replicate (Suc n) (i, req)) s
      = run_sched False (replicate n (i, req)) (thread_step False req i s)" for n s
    by (simp add: run_sched_def)
  have 1: "?ok 1 s" if "th_pc (threads s i) = Com_Cas (?head s) tm" for s tm
    using com_cas_succeeds [OF that refl, of False req] by (simp add: run_sched_def)
  have 2: "?ok 2 s" if pc: "th_pc (threads s i) = Com_Tail (?head s)" for s
    using 1 [of "thread_step False req i s"] unfolding Suc [of 1, unfolded Suc_1] com_tail_step [OF pc] by simp
  have 3: "?ok 3 s" if pc: "th_pc (threads s i) = Com_Cas oh tm" and ne: "?head s \<noteq> oh" for s oh tm
    using 2 [of "thread_step False req i s"] Suc [of 2 s]
    unfolding com_cas_fails [OF pc ne] by (simp add: numeral_3_eq_3 numeral_2_eq_2)
  have 4: "?ok 4 s" if pc: "th_pc (threads s i) = Com_Tail oh" and ne: "?head s \<noteq> oh" for s oh
    using 3 [of "thread_step False req i s"] ne Suc [of 3 s]
    unfolding com_tail_step [OF pc] by (simp add: eval_nat_numeral)
  from assms show ?thesis
  proof (cases rule: commits_withE)
    case pc: 1
    show ?thesis
    proof (cases "?head s = oh")
      case True
      with 2 [of s] pc show ?thesis by (intro exI [of _ 2]) simp
    next
      case False
      with 4 [OF pc] show ?thesis by (intro exI [of _ 4]) simp
    qed
  next
    case pc: (2 tm)
    show ?thesis
    proof (cases "?head s = oh")
      case True
      with 1 [of s tm] pc show ?thesis by (intro exI [of _ 1]) simp
    next
      case False
      with 3 [OF pc] show ?thesis by (intro exI [of _ 3]) simp
    qed
  qed
qed

theorem user_commit_completes_witness:
  defines "s \<equiv> run_sched False overtaken_commit (mpmc_init blank_queue)"
  shows "bound_head (queue_prod (shq s)) \<noteq> zero_marker
    \<and> (\<exists>n \<le> 4. th_pc (threads (run_sched False (replicate n (0, Producer, 0)) s) 0) = Idle)"
proof -
  have "commits_with zero_marker (th_pc (threads s 0))" "bound_head (queue_prod (shq s)) \<noteq> zero_marker"
    unfolding s_def by code_simp+
  then show ?thesis
    using user_commit_completes [of zero_marker s 0 "(Producer, 0)"] by metis
qed

section \<open>The auxiliary fields do not matter\<close>

text \<open>Two states that agree on the queue and on what each thread's own variables hold.\<close>
definition same_run :: "mpmc \<Rightarrow> mpmc \<Rightarrow> bool" where
  "same_run s s' \<longleftrightarrow> shq s = shq s' \<and> (\<forall>i. th_side (threads s i) = th_side (threads s' i)
     \<and> th_pc (threads s i) = th_pc (threads s' i) \<and> th_val (threads s i) = th_val (threads s' i))"

text \<open>
  The steps are the code's: whatever the auxiliary fields hold, the shared queue and
  every thread's program point and value after a step are the same.
\<close>
lemma aux_fields_irrelevant:
  assumes "same_run s s'"
  shows "same_run (thread_step krn req i s) (thread_step krn req i s')"
proof -
  from assms have eq: "shq s = shq s'" "th_side (threads s j) = th_side (threads s' j)"
    "th_pc (threads s j) = th_pc (threads s' j)" "th_val (threads s j) = th_val (threads s' j)" for j
    by (simp_all add: same_run_def)
  show ?thesis
  proof (cases "th_pc (threads s' i)")
    case (Elem e)
    then show ?thesis
      by (cases "th_side (threads s' i)")
        (simp_all add: same_run_def thread_step_def write_entry_def Let_def eq)
  next
    case (Com_Cas oh tm)
    then show ?thesis
      by (cases "bound_head (bound_of (th_side (threads s' i)) (shq s')) = oh")
        (simp_all add: same_run_def thread_step_def commit_entry_def Let_def eq)
  next
    case (Acq_Cas ot)
    then show ?thesis
      by (cases "bound_tail (bound_of (th_side (threads s' i)) (shq s')) = ot")
        (simp_all add: same_run_def thread_step_def take_entry_def Let_def eq)
  qed (simp_all add: same_run_def thread_step_def Let_def eq)
qed

end
