(* ===== verification/Rpc_Msg.thy ===== *)
theory Rpc_Msg
  imports Machine
begin

unbundle bit_operations_syntax

text \<open>
  The layout of message words of \<open>include/sel4/rpc.h\<close>: the \<open>BIT_FIELD\<close> macros, the fields
  of \<open>mr0\<close>, the operation codes, and the encoding \<open>driver_rpc_req_mmio_start\<close> gives an
  MMIO request. A field is its width and shift; the locale \<open>field_layout\<close> states what
  makes a set of fields of one word independent, and is interpreted on the fields of
  \<open>mr0\<close>.
\<close>

section \<open>Definitions\<close>

record bit_field =
  field_width :: nat
  field_shift :: nat

definition MASK :: "nat \<Rightarrow> seL4_Word" where
  "MASK n = push_bit n 1 - 1"

definition BIT_FIELD_MASK :: "bit_field \<Rightarrow> seL4_Word" where
  "BIT_FIELD_MASK f = push_bit (field_shift f) (MASK (field_width f))"

definition BIT_FIELD_CLR_ALL :: "seL4_Word \<Rightarrow> bit_field \<Rightarrow> seL4_Word" where
  "BIT_FIELD_CLR_ALL v f = v AND NOT (BIT_FIELD_MASK f)"

definition BIT_FIELD_SET_ALL :: "seL4_Word \<Rightarrow> bit_field \<Rightarrow> seL4_Word" where
  "BIT_FIELD_SET_ALL v f = v OR BIT_FIELD_MASK f"

definition BIT_FIELD_GET :: "seL4_Word \<Rightarrow> bit_field \<Rightarrow> seL4_Word" where
  "BIT_FIELD_GET v f = drop_bit (field_shift f) v AND MASK (field_width f)"

definition BIT_FIELD_SET :: "seL4_Word \<Rightarrow> bit_field \<Rightarrow> seL4_Word \<Rightarrow> seL4_Word" where
  "BIT_FIELD_SET v f n = BIT_FIELD_CLR_ALL v f OR (push_bit (field_shift f) n AND BIT_FIELD_MASK f)"

definition RPC_MR0_OP :: bit_field where
  "RPC_MR0_OP = \<lparr>field_width = 6, field_shift = 0\<rparr>"

definition RPC_MR0_COMMON :: bit_field where
  "RPC_MR0_COMMON = \<lparr>field_width = field_width RPC_MR0_OP + field_shift RPC_MR0_OP, field_shift = 0\<rparr>"

definition RPC_MR0_MMIO_SLOT :: bit_field where
  "RPC_MR0_MMIO_SLOT =
     \<lparr>field_width = 6, field_shift = field_width RPC_MR0_COMMON + field_shift RPC_MR0_COMMON\<rparr>"

definition RPC_MR0_MMIO_DIRECTION :: bit_field where
  "RPC_MR0_MMIO_DIRECTION =
     \<lparr>field_width = 1, field_shift = field_width RPC_MR0_MMIO_SLOT + field_shift RPC_MR0_MMIO_SLOT\<rparr>"

definition RPC_MR0_MMIO_ADDR_SPACE :: bit_field where
  "RPC_MR0_MMIO_ADDR_SPACE =
     \<lparr>field_width = 8,
      field_shift = field_width RPC_MR0_MMIO_DIRECTION + field_shift RPC_MR0_MMIO_DIRECTION\<rparr>"

definition RPC_MR0_MMIO_LENGTH :: bit_field where
  "RPC_MR0_MMIO_LENGTH =
     \<lparr>field_width = 4,
      field_shift = field_width RPC_MR0_MMIO_ADDR_SPACE + field_shift RPC_MR0_MMIO_ADDR_SPACE\<rparr>"

definition QEMU_OP :: "seL4_Word \<Rightarrow> seL4_Word" where
  "QEMU_OP r0 = BIT_FIELD_GET r0 RPC_MR0_OP"

definition QEMU_OP_MMIO :: u32 where "QEMU_OP_MMIO = 0"
definition QEMU_OP_PUTC_LOG :: u32 where "QEMU_OP_PUTC_LOG = 2"
definition QEMU_OP_SET_IRQ :: u32 where "QEMU_OP_SET_IRQ = 16"
definition QEMU_OP_START_VM :: u32 where "QEMU_OP_START_VM = 18"
definition QEMU_OP_REGISTER_PCI_DEV :: u32 where "QEMU_OP_REGISTER_PCI_DEV = 19"
definition QEMU_OP_MMIO_REGION_CONFIG :: u32 where "QEMU_OP_MMIO_REGION_CONFIG = 20"

definition RPC_IRQ_CLR :: seL4_Word where "RPC_IRQ_CLR = 0"
definition RPC_IRQ_SET :: seL4_Word where "RPC_IRQ_SET = 1"
definition RPC_IRQ_PULSE :: seL4_Word where "RPC_IRQ_PULSE = 2"

definition AS_GLOBAL :: seL4_Word where
  "AS_GLOBAL = MASK (field_width RPC_MR0_MMIO_ADDR_SPACE)"

definition AS_PCIDEV :: "seL4_Word \<Rightarrow> seL4_Word" where
  "AS_PCIDEV pcidev = pcidev"

text \<open>The word \<open>mr0\<close> of an MMIO request before the operation is added to it.\<close>
definition mmio_start_mr0 :: "u32 \<Rightarrow> u32 \<Rightarrow> u32 \<Rightarrow> seL4_Word \<Rightarrow> seL4_Word" where
  "mmio_start_mr0 direction addr_space slot len =
     (let r0 = 0;
          r0 = BIT_FIELD_SET r0 RPC_MR0_MMIO_DIRECTION (ucast direction);
          r0 = BIT_FIELD_SET r0 RPC_MR0_MMIO_ADDR_SPACE (ucast addr_space);
          r0 = BIT_FIELD_SET r0 RPC_MR0_MMIO_LENGTH len
      in BIT_FIELD_SET r0 RPC_MR0_MMIO_SLOT (ucast slot))"

section \<open>Fields of one word\<close>

lemma MASK_mask: "MASK n = mask n"
  by (simp add: MASK_def mask_eq_exp_minus_1 push_bit_eq_mult)

lemma bit_field_simps [bit_facts]:
  "bit (BIT_FIELD_MASK f) k \<longleftrightarrow> k < 64 \<and> field_shift f \<le> k \<and> k < field_shift f + field_width f"
  "bit (BIT_FIELD_GET v f) k \<longleftrightarrow> k < field_width f \<and> k < 64 \<and> bit v (field_shift f + k)"
  "bit (BIT_FIELD_SET v f n) k \<longleftrightarrow>
     (if field_shift f \<le> k \<and> k < field_shift f + field_width f then k < 64 \<and> bit n (k - field_shift f)
      else bit v k)"
proof -
  show m: "bit (BIT_FIELD_MASK f) k \<longleftrightarrow> k < 64 \<and> field_shift f \<le> k \<and> k < field_shift f + field_width f" for k
    by (auto simp: BIT_FIELD_MASK_def MASK_mask bit_push_bit_iff bit_mask_iff)
  show "bit (BIT_FIELD_GET v f) k \<longleftrightarrow> k < field_width f \<and> k < 64 \<and> bit v (field_shift f + k)"
    by (auto simp: BIT_FIELD_GET_def MASK_mask bit_and_iff bit_drop_bit_eq bit_mask_iff
        dest: bit_imp_le_length)
  show "bit (BIT_FIELD_SET v f n) k \<longleftrightarrow>
     (if field_shift f \<le> k \<and> k < field_shift f + field_width f then k < 64 \<and> bit n (k - field_shift f)
      else bit v k)"
    by (auto simp: BIT_FIELD_SET_def BIT_FIELD_CLR_ALL_def m bit_or_iff bit_and_iff bit_not_iff
        bit_push_bit_iff dest: bit_imp_le_length)
qed

locale field_layout =
  fixes fields :: "bit_field set"
  assumes fits: "f \<in> fields \<Longrightarrow> field_shift f + field_width f \<le> 64"
    and apart: "f \<in> fields \<Longrightarrow> g \<in> fields \<Longrightarrow> f \<noteq> g \<Longrightarrow>
      field_shift f + field_width f \<le> field_shift g \<or> field_shift g + field_width g \<le> field_shift f"
begin

lemma get_set_same: "f \<in> fields \<Longrightarrow> BIT_FIELD_GET (BIT_FIELD_SET v f n) f = n AND MASK (field_width f)"
  using fits [of f] by (intro bit_word_eqI) (auto simp: bit_facts MASK_mask bit_and_iff bit_mask_iff)

lemma get_set_other:
  assumes "f \<in> fields" "g \<in> fields" "f \<noteq> g"
  shows "BIT_FIELD_GET (BIT_FIELD_SET v f n) g = BIT_FIELD_GET v g"
  using apart [OF assms] by (intro bit_word_eqI) (auto simp: bit_facts)

text \<open>A value that fits in the field is read back unchanged.\<close>
lemma get_set_exact:
  "f \<in> fields \<Longrightarrow> unat n < 2 ^ field_width f \<Longrightarrow> BIT_FIELD_GET (BIT_FIELD_SET v f n) f = n"
  by (simp add: get_set_same MASK_mask and_mask_unat)

end

definition mr0_fields :: "bit_field set" where
  "mr0_fields =
     {RPC_MR0_OP, RPC_MR0_MMIO_SLOT, RPC_MR0_MMIO_DIRECTION, RPC_MR0_MMIO_ADDR_SPACE, RPC_MR0_MMIO_LENGTH}"

lemmas mr0_field_defs = RPC_MR0_OP_def RPC_MR0_COMMON_def RPC_MR0_MMIO_SLOT_def
  RPC_MR0_MMIO_DIRECTION_def RPC_MR0_MMIO_ADDR_SPACE_def RPC_MR0_MMIO_LENGTH_def

interpretation mr0: field_layout mr0_fields
  by unfold_locales (auto simp: mr0_fields_def mr0_field_defs)

lemma mr0_fields_members [simp]:
  "RPC_MR0_OP \<in> mr0_fields" "RPC_MR0_MMIO_SLOT \<in> mr0_fields" "RPC_MR0_MMIO_DIRECTION \<in> mr0_fields"
  "RPC_MR0_MMIO_ADDR_SPACE \<in> mr0_fields" "RPC_MR0_MMIO_LENGTH \<in> mr0_fields"
  by (simp_all add: mr0_fields_def)

lemma mr0_neq [simp]:
  "RPC_MR0_OP \<noteq> RPC_MR0_MMIO_SLOT" "RPC_MR0_OP \<noteq> RPC_MR0_MMIO_DIRECTION" "RPC_MR0_OP \<noteq> RPC_MR0_MMIO_ADDR_SPACE" "RPC_MR0_OP \<noteq> RPC_MR0_MMIO_LENGTH"
  "RPC_MR0_MMIO_SLOT \<noteq> RPC_MR0_OP" "RPC_MR0_MMIO_SLOT \<noteq> RPC_MR0_MMIO_DIRECTION" "RPC_MR0_MMIO_SLOT \<noteq> RPC_MR0_MMIO_ADDR_SPACE" "RPC_MR0_MMIO_SLOT \<noteq> RPC_MR0_MMIO_LENGTH"
  "RPC_MR0_MMIO_DIRECTION \<noteq> RPC_MR0_OP" "RPC_MR0_MMIO_DIRECTION \<noteq> RPC_MR0_MMIO_SLOT" "RPC_MR0_MMIO_DIRECTION \<noteq> RPC_MR0_MMIO_ADDR_SPACE" "RPC_MR0_MMIO_DIRECTION \<noteq> RPC_MR0_MMIO_LENGTH"
  "RPC_MR0_MMIO_ADDR_SPACE \<noteq> RPC_MR0_OP" "RPC_MR0_MMIO_ADDR_SPACE \<noteq> RPC_MR0_MMIO_SLOT" "RPC_MR0_MMIO_ADDR_SPACE \<noteq> RPC_MR0_MMIO_DIRECTION" "RPC_MR0_MMIO_ADDR_SPACE \<noteq> RPC_MR0_MMIO_LENGTH"
  "RPC_MR0_MMIO_LENGTH \<noteq> RPC_MR0_OP" "RPC_MR0_MMIO_LENGTH \<noteq> RPC_MR0_MMIO_SLOT" "RPC_MR0_MMIO_LENGTH \<noteq> RPC_MR0_MMIO_DIRECTION" "RPC_MR0_MMIO_LENGTH \<noteq> RPC_MR0_MMIO_ADDR_SPACE"
  by (simp_all add: mr0_field_defs)

lemma mr0_widths [simp]:
  "field_width RPC_MR0_OP = 6" "field_width RPC_MR0_MMIO_SLOT = 6" "field_width RPC_MR0_MMIO_DIRECTION = 1"
  "field_width RPC_MR0_MMIO_ADDR_SPACE = 8" "field_width RPC_MR0_MMIO_LENGTH = 4"
  by (simp_all add: mr0_field_defs)

lemma QEMU_OP_set: "QEMU_OP (BIT_FIELD_SET r0 RPC_MR0_OP n) = n AND MASK 6"
  by (simp add: QEMU_OP_def mr0.get_set_same)

text \<open>The fields of an encoded MMIO request.\<close>
lemma mmio_mr0_get:
  "QEMU_OP (BIT_FIELD_SET (mmio_start_mr0 direction addr_space slot len) RPC_MR0_OP op) = op AND MASK 6"
  "BIT_FIELD_GET (BIT_FIELD_SET (mmio_start_mr0 direction addr_space slot len) RPC_MR0_OP op) RPC_MR0_MMIO_SLOT
     = ucast slot AND MASK 6"
  "BIT_FIELD_GET (BIT_FIELD_SET (mmio_start_mr0 direction addr_space slot len) RPC_MR0_OP op) RPC_MR0_MMIO_DIRECTION
     = ucast direction AND MASK 1"
  "BIT_FIELD_GET (BIT_FIELD_SET (mmio_start_mr0 direction addr_space slot len) RPC_MR0_OP op) RPC_MR0_MMIO_ADDR_SPACE
     = ucast addr_space AND MASK 8"
  "BIT_FIELD_GET (BIT_FIELD_SET (mmio_start_mr0 direction addr_space slot len) RPC_MR0_OP op) RPC_MR0_MMIO_LENGTH
     = len AND MASK 4"
  by (simp_all add: mmio_start_mr0_def Let_def QEMU_OP_set mr0.get_set_same mr0.get_set_other)

section \<open>Properties\<close>

text \<open>
  C28. An MMIO request is decoded as it was encoded: from the word \<open>mr0\<close> that
  \<open>driver_rpc_req_mmio_start\<close> and \<open>driver_rpc_request\<close> build, each field reads back the
  value it was given, truncated to the width of the field and to nothing else; no field
  disturbs another.
\<close>
theorem mmio_mr0_roundtrip:
  "let r0 = BIT_FIELD_SET (mmio_start_mr0 direction addr_space slot len) RPC_MR0_OP op in
   QEMU_OP r0 = op AND MASK 6
   \<and> BIT_FIELD_GET r0 RPC_MR0_MMIO_SLOT = ucast slot AND MASK 6
   \<and> BIT_FIELD_GET r0 RPC_MR0_MMIO_DIRECTION = ucast direction AND MASK 1
   \<and> BIT_FIELD_GET r0 RPC_MR0_MMIO_ADDR_SPACE = ucast addr_space AND MASK 8
   \<and> BIT_FIELD_GET r0 RPC_MR0_MMIO_LENGTH = len AND MASK 4"
  by (simp add: Let_def mmio_mr0_get)

text \<open>
  The fields are wide enough for every request the monitor makes: a slot below 64, a
  direction, an address space below 256 and an access of at most 8 bytes are read back
  exactly.
\<close>
lemma mmio_mr0_exact:
  assumes "slot < 64" "direction < 2" "addr_space < 256" "len \<le> 8"
  shows "let r0 = BIT_FIELD_SET (mmio_start_mr0 direction addr_space slot len) RPC_MR0_OP (ucast QEMU_OP_MMIO) in
    QEMU_OP r0 = ucast QEMU_OP_MMIO \<and> BIT_FIELD_GET r0 RPC_MR0_MMIO_SLOT = ucast slot
    \<and> BIT_FIELD_GET r0 RPC_MR0_MMIO_DIRECTION = ucast direction
    \<and> BIT_FIELD_GET r0 RPC_MR0_MMIO_ADDR_SPACE = ucast addr_space
    \<and> BIT_FIELD_GET r0 RPC_MR0_MMIO_LENGTH = len"
proof -
  have "unat (ucast slot :: u64) < 2 ^ 6" "unat (ucast direction :: u64) < 2 ^ 1"
    "unat (ucast addr_space :: u64) < 2 ^ 8" "unat len < 2 ^ 4"
    using assms by (simp_all add: word_less_nat_alt word_le_nat_alt)
  then show ?thesis
    by (simp add: mmio_start_mr0_def Let_def QEMU_OP_def QEMU_OP_MMIO_def mr0.get_set_exact mr0.get_set_other)
qed

end
