(* ===== verification/Vso_Rpc.thy ===== *)
theory Vso_Rpc
  imports Rpc_Queue Rpc_Msg "HOL-Library.Multiset"
begin

unbundle bit_operations_syntax

text \<open>
  The endpoint layer of \<open>include/sel4/rpc.h\<close>: the shared I/O buffer with its two message
  buffers and four queues, the endpoint structure \<open>vso_rpc_t\<close> with the queues it uses, and
  the operations of the driver side (the virtual machine monitor) and of the device side
  (the kernel module and the device model behind it).

  \<open>rpcmsg_rpc_queue_t\<close> and \<open>rpcmsg_event_queue_t\<close> hold two pointers into the I/O buffer;
  they are the indices of the buffer and of the queue. A doorbell is a function pointer
  with a cookie; ringing it records the cookie. A pointer argument the code tests or
  dereferences is an option.

  The second part is the request-reply protocol as a step relation over both sides: every
  lent message is at exactly one place, so that queues between the two sides cannot
  overflow.
\<close>

section \<open>Definitions\<close>

definition iobuf_id_drvrpc :: nat where "iobuf_id_drvrpc = 0"
definition iobuf_id_devevt :: nat where "iobuf_id_devevt = 1"
definition iobuf_id_last :: nat where "iobuf_id_last = 2"

definition queue_id_drvrpc_req :: nat where "queue_id_drvrpc_req = 0"
definition queue_id_drvrpc_req_dev :: nat where "queue_id_drvrpc_req_dev = 1"
definition queue_id_drvrpc_resp :: nat where "queue_id_drvrpc_resp = 2"
definition queue_id_devevt :: nat where "queue_id_devevt = 3"
definition queue_id_last :: nat where "queue_id_last = 4"

record rpcmsg_iobuf =
  iobuf_buffers :: "rpcmsg_buffer list"
  iobuf_queues :: "rpcmsg_queue list"

text \<open>The memory an endpoint works on: the I/O buffer and the doorbells rung, newest first.\<close>
record io_mem =
  iobuf :: rpcmsg_iobuf
  rung :: "nat list"

record rpcmsg_queue_ref =
  ref_buffer :: nat
  ref_queue :: nat

definition iobuf_queue :: "nat \<Rightarrow> nat \<Rightarrow> rpcmsg_queue_ref" where
  "iobuf_queue bid qid = \<lparr>ref_buffer = bid, ref_queue = qid\<rparr>"

definition driver_drvrpc_req :: rpcmsg_queue_ref where
  "driver_drvrpc_req = iobuf_queue iobuf_id_drvrpc queue_id_drvrpc_req"
definition driver_drvrpc_resp :: rpcmsg_queue_ref where
  "driver_drvrpc_resp = iobuf_queue iobuf_id_drvrpc queue_id_drvrpc_resp"
definition device_km_drvrpc_req :: rpcmsg_queue_ref where
  "device_km_drvrpc_req = iobuf_queue iobuf_id_drvrpc queue_id_drvrpc_req"
definition device_km_drvrpc_resp :: rpcmsg_queue_ref where
  "device_km_drvrpc_resp = iobuf_queue iobuf_id_drvrpc queue_id_drvrpc_resp"
definition device_drvrpc_req :: rpcmsg_queue_ref where
  "device_drvrpc_req = iobuf_queue iobuf_id_drvrpc queue_id_drvrpc_req_dev"
definition device_drvrpc_resp :: rpcmsg_queue_ref where
  "device_drvrpc_resp = iobuf_queue iobuf_id_drvrpc queue_id_drvrpc_resp"
definition devevt_queue :: rpcmsg_queue_ref where
  "devevt_queue = iobuf_queue iobuf_id_devevt queue_id_devevt"

record vso_driver_rpc =
  request :: rpcmsg_queue_ref
  response :: rpcmsg_queue_ref
  buffer_state :: bitmap

record vso_rpc =
  driver_rpc :: vso_driver_rpc
  device_event :: rpcmsg_queue_ref
  doorbell :: "nat option"

text \<open>Reading and writing the queue and the buffer a reference points to.\<close>
definition q_at :: "io_mem \<Rightarrow> rpcmsg_queue_ref \<Rightarrow> rpcmsg_queue" where
  "q_at w r = iobuf_queues (iobuf w) ! ref_queue r"

definition b_at :: "io_mem \<Rightarrow> rpcmsg_queue_ref \<Rightarrow> rpcmsg_buffer" where
  "b_at w r = iobuf_buffers (iobuf w) ! ref_buffer r"

definition put_q :: "rpcmsg_queue_ref \<Rightarrow> rpcmsg_queue \<Rightarrow> io_mem \<Rightarrow> io_mem" where
  "put_q r q w = w\<lparr>iobuf := (iobuf w)\<lparr>iobuf_queues := (iobuf_queues (iobuf w))[ref_queue r := q]\<rparr>\<rparr>"

definition put_b :: "rpcmsg_queue_ref \<Rightarrow> rpcmsg_buffer \<Rightarrow> io_mem \<Rightarrow> io_mem" where
  "put_b r b w = w\<lparr>iobuf := (iobuf w)\<lparr>iobuf_buffers := (iobuf_buffers (iobuf w))[ref_buffer r := b]\<rparr>\<rparr>"

definition RPCMSG_F_INIT_BUFFER :: u32 where "RPCMSG_F_INIT_BUFFER = 1"
definition RPCMSG_F_INIT_QUEUE :: u32 where "RPCMSG_F_INIT_QUEUE = 2"
definition RPCMSG_F_INIT_ALL :: u32 where "RPCMSG_F_INIT_ALL = NOT 0"

text \<open>The macro \<open>_rpcmsg_queue_init\<close> and its uses.\<close>
definition rpcmsg_queue_ref_init :: "rpcmsg_queue_ref \<Rightarrow> u32 \<Rightarrow> io_mem \<Rightarrow> io_mem" where
  "rpcmsg_queue_ref_init r flags w =
     (let w = (if flags AND RPCMSG_F_INIT_BUFFER \<noteq> 0 then put_b r (rpcmsg_buffer_init (b_at w r)) w else w)
      in if flags AND RPCMSG_F_INIT_QUEUE \<noteq> 0 then put_q r (rpcmsg_queue_init (q_at w r)) w else w)"

definition rpcmsg_call_queue_init :: "rpcmsg_queue_ref \<Rightarrow> io_mem \<Rightarrow> io_mem" where
  "rpcmsg_call_queue_init r = rpcmsg_queue_ref_init r RPCMSG_F_INIT_ALL"

definition rpcmsg_reply_queue_init :: "rpcmsg_queue_ref \<Rightarrow> io_mem \<Rightarrow> io_mem" where
  "rpcmsg_reply_queue_init r = rpcmsg_queue_ref_init r RPCMSG_F_INIT_QUEUE"

definition vso_doorbell :: "vso_rpc option \<Rightarrow> io_mem \<Rightarrow> int \<times> io_mem" where
  "vso_doorbell rpc w =
     (case rpc of
        None \<Rightarrow> (-1, w)
      | Some r \<Rightarrow> (case doorbell r of None \<Rightarrow> (-1, w) | Some cookie \<Rightarrow> (0, w\<lparr>rung := cookie # rung w\<rparr>)))"

definition driver_rpc_request ::
  "vso_rpc option \<Rightarrow> u32 \<Rightarrow> seL4_Word \<Rightarrow> seL4_Word \<Rightarrow> seL4_Word \<Rightarrow> seL4_Word \<Rightarrow> io_mem
     \<Rightarrow> (int \<times> vso_rpc \<times> io_mem) res" where
  "driver_rpc_request rpc op r0 r1 r2 r3 w =
     (case rpc of
        None \<Rightarrow> Inl Assert_Failed
      | Some r \<Rightarrow>
          let r0 = BIT_FIELD_SET r0 RPC_MR0_OP (ucast op); rq = request (driver_rpc r) in
          res_bind (rpcmsg_request (q_at w rq) (b_at w rq) (buffer_state (driver_rpc r)) r0 r1 r2 r3)
            (\<lambda>(err, q, b, st).
              let r = r\<lparr>driver_rpc := (driver_rpc r)\<lparr>buffer_state := st\<rparr>\<rparr>; w = put_q rq q (put_b rq b w) in
              if err < 0 then Inr (err, r, w)
              else (case vso_doorbell (Some r) w of (rc, w) \<Rightarrow> Inr (rc, r, w))))"

definition driver_rpc_request_fwd :: "vso_rpc option \<Rightarrow> msgptr option \<Rightarrow> io_mem \<Rightarrow> (int \<times> io_mem) res" where
  "driver_rpc_request_fwd dst msg w =
     (case (dst, msg) of
        (Some r, Some m) \<Rightarrow>
          let rq = request (driver_rpc r) in
          res_bind (rpcmsg_forward (q_at w rq) (b_at w rq) m) (\<lambda>(rc, q, b). Inr (rc, put_q rq q (put_b rq b w)))
      | _ \<Rightarrow> Inl Assert_Failed)"

definition driver_rpc_reply :: "vso_rpc option \<Rightarrow> msgptr option \<Rightarrow> io_mem \<Rightarrow> (int \<times> io_mem) res" where
  "driver_rpc_reply rpc msg w =
     (case (rpc, msg) of
        (Some r, Some m) \<Rightarrow>
          let rq = response (driver_rpc r) in
          res_bind (rpcmsg_reply (q_at w rq) (b_at w rq) m) (\<lambda>(err, q, b).
            let w = put_q rq q (put_b rq b w) in
            if err \<noteq> 0 then Inr (err, w) else Inr (vso_doorbell rpc w))
      | _ \<Rightarrow> Inl Assert_Failed)"

definition driver_rpc_request_pending :: "vso_rpc option \<Rightarrow> io_mem \<Rightarrow> int res" where
  "driver_rpc_request_pending rpc w =
     (case rpc of
        None \<Rightarrow> Inl Assert_Failed
      | Some r \<Rightarrow> Inr (if rpcmsg_queue_empty (q_at w (request (driver_rpc r))) then 1 else 0))"

definition device_event_tx ::
  "vso_rpc option \<Rightarrow> u32 \<Rightarrow> seL4_Word \<Rightarrow> seL4_Word \<Rightarrow> seL4_Word \<Rightarrow> seL4_Word \<Rightarrow> io_mem
     \<Rightarrow> (int \<times> io_mem) res" where
  "device_event_tx rpc op r0 r1 r2 r3 w =
     (case rpc of
        None \<Rightarrow> Inl Null_Deref
      | Some r \<Rightarrow>
          let r0 = BIT_FIELD_SET r0 RPC_MR0_OP (ucast op); eq = device_event r in
          res_bind (rpcmsg_event_tx (q_at w eq) (b_at w eq) r0 r1 r2 r3) (\<lambda>(err, q, b).
            let w = put_q eq q (put_b eq b w) in
            if err \<noteq> 0 then Inr (err, w) else Inr (vso_doorbell rpc w)))"

definition device_rpc_req_start_vm :: "vso_rpc option \<Rightarrow> io_mem \<Rightarrow> (int \<times> io_mem) res" where
  "device_rpc_req_start_vm rpc w = device_event_tx rpc QEMU_OP_START_VM 0 0 0 0 w"

definition device_rpc_req_create_vpci_device :: "vso_rpc option \<Rightarrow> seL4_Word \<Rightarrow> io_mem \<Rightarrow> (int \<times> io_mem) res" where
  "device_rpc_req_create_vpci_device rpc pcidev w = device_event_tx rpc QEMU_OP_REGISTER_PCI_DEV 0 pcidev 0 0 w"

definition device_rpc_req_mmio_region_config ::
  "vso_rpc option \<Rightarrow> seL4_Word \<Rightarrow> seL4_Word \<Rightarrow> seL4_Word \<Rightarrow> io_mem \<Rightarrow> (int \<times> io_mem) res" where
  "device_rpc_req_mmio_region_config rpc gpa sz flags w =
     device_event_tx rpc QEMU_OP_MMIO_REGION_CONFIG 0 gpa sz flags w"

definition device_rpc_req_set_irqline :: "vso_rpc option \<Rightarrow> seL4_Word \<Rightarrow> io_mem \<Rightarrow> (int \<times> io_mem) res" where
  "device_rpc_req_set_irqline rpc irq w = device_event_tx rpc QEMU_OP_SET_IRQ 0 irq RPC_IRQ_SET 0 w"

definition device_rpc_req_clear_irqline :: "vso_rpc option \<Rightarrow> seL4_Word \<Rightarrow> io_mem \<Rightarrow> (int \<times> io_mem) res" where
  "device_rpc_req_clear_irqline rpc irq w = device_event_tx rpc QEMU_OP_SET_IRQ 0 irq RPC_IRQ_CLR 0 w"

definition device_rpc_req_pulse_irqline :: "vso_rpc option \<Rightarrow> seL4_Word \<Rightarrow> io_mem \<Rightarrow> (int \<times> io_mem) res" where
  "device_rpc_req_pulse_irqline rpc irq w = device_event_tx rpc QEMU_OP_SET_IRQ 0 irq RPC_IRQ_PULSE 0 w"

definition driver_rpc_req_mmio_start ::
  "vso_rpc option \<Rightarrow> u32 \<Rightarrow> u32 \<Rightarrow> u32 \<Rightarrow> seL4_Word \<Rightarrow> seL4_Word \<Rightarrow> seL4_Word \<Rightarrow> io_mem
     \<Rightarrow> (int \<times> vso_rpc \<times> io_mem) res" where
  "driver_rpc_req_mmio_start rpc direction addr_space slot addr len data w =
     driver_rpc_request rpc QEMU_OP_MMIO (mmio_start_mr0 direction addr_space slot len) addr data 0 w"

text \<open>\<open>msg->mr2 = data\<close> and the reply; a message is in the buffer of the request-reply chain.\<close>
definition driver_rpc_ack_mmio_finish ::
  "vso_rpc option \<Rightarrow> msgptr option \<Rightarrow> seL4_Word \<Rightarrow> io_mem \<Rightarrow> (int \<times> io_mem) res" where
  "driver_rpc_ack_mmio_finish rpc msg data w =
     (case msg of
        None \<Rightarrow> Inl Null_Deref
      | Some m \<Rightarrow>
          let r = iobuf_queue iobuf_id_drvrpc queue_id_drvrpc_resp in
          res_bind (msg_read (b_at w r) m) (\<lambda>v.
            res_bind (msg_write (b_at w r) m (v\<lparr>mr2 := data\<rparr>)) (\<lambda>b.
              driver_rpc_reply rpc msg (put_b r b w))))"

definition vso_rpc_driver :: nat where "vso_rpc_driver = 0"
definition vso_rpc_device_km :: nat where "vso_rpc_device_km = 1"
definition vso_rpc_device :: nat where "vso_rpc_device = 2"

definition vso_driver_rpc_init ::
  "nat \<Rightarrow> vso_driver_rpc option \<Rightarrow> io_mem \<Rightarrow> (int \<times> vso_driver_rpc \<times> io_mem) res" where
  "vso_driver_rpc_init i drvrpc w =
     (case drvrpc of
        None \<Rightarrow> Inl Assert_Failed
      | Some d \<Rightarrow>
          Inr (if i = vso_rpc_driver then
                 let d = d\<lparr>request := driver_drvrpc_req, response := driver_drvrpc_resp\<rparr>;
                     w = rpcmsg_call_queue_init (request d) w;
                     w = rpcmsg_reply_queue_init (response d) w;
                     w = put_b (request d) (rpcmsg_buffer_init (b_at w (request d))) w
                 in (0, d, w)
               else if i = vso_rpc_device_km then
                 (0, d\<lparr>request := device_km_drvrpc_req, response := device_km_drvrpc_resp\<rparr>, w)
               else if i = vso_rpc_device then
                 (0, d\<lparr>request := device_drvrpc_req, response := device_drvrpc_resp\<rparr>, w)
               else (-1, d, w)))"

definition vso_rpc_init ::
  "vso_rpc option \<Rightarrow> nat \<Rightarrow> nat option \<Rightarrow> io_mem \<Rightarrow> (int \<times> vso_rpc option \<times> io_mem) res" where
  "vso_rpc_init rpc i bell w =
     (case (rpc, bell) of
        (Some r, Some cookie) \<Rightarrow>
          res_bind (vso_driver_rpc_init i (Some (driver_rpc r)) w) (\<lambda>(err, d, w).
            let r = r\<lparr>driver_rpc := d\<rparr> in
            if err \<noteq> 0 then Inr (-1, Some r, w)
            else Inr (0, Some (r\<lparr>device_event := devevt_queue, doorbell := Some cookie\<rparr>), w))
      | _ \<Rightarrow> Inr (-1, rpc, w))"

section \<open>The request-reply protocol\<close>

text \<open>
  A session: the shared memory, the three endpoints on it, and the messages each party has
  received and not yet passed on.
\<close>
record session =
  s_mem :: io_mem
  s_drv :: vso_rpc
  s_km :: vso_rpc
  s_dev :: vso_rpc
  km_held :: "msgptr list"
  dev_held :: "msgptr list"
  drv_held :: "msgptr list"

text \<open>The steps of the parties; each is one call of the interface.\<close>
inductive session_step :: "session \<Rightarrow> session \<Rightarrow> bool" where
  drv_request:
    "driver_rpc_request (Some (s_drv s)) op r0 r1 r2 r3 (s_mem s) = Inr (rc, drv', w) \<Longrightarrow>
     session_step s (s\<lparr>s_drv := drv', s_mem := w\<rparr>)"
| km_receive:
    "rpcmsg_receive (q_at (s_mem s) (request (driver_rpc (s_km s)))) b = Inr (Some m, q) \<Longrightarrow>
     session_step s (s\<lparr>s_mem := put_q (request (driver_rpc (s_km s))) q (s_mem s), km_held := m # km_held s\<rparr>)"
| km_forward:
    "m \<in> set (km_held s) \<Longrightarrow>
     driver_rpc_request_fwd (Some (s_dev s)) (Some m) (s_mem s) = Inr (rc, w) \<Longrightarrow>
     session_step s (s\<lparr>s_mem := w, km_held := (if rc = 0 then remove1 m (km_held s) else km_held s)\<rparr>)"
| km_reply:
    "m \<in> set (km_held s) \<Longrightarrow>
     driver_rpc_ack_mmio_finish (Some (s_km s)) (Some m) data (s_mem s) = Inr (rc, w) \<Longrightarrow>
     session_step s (s\<lparr>s_mem := w, km_held := (if rc = 0 then remove1 m (km_held s) else km_held s)\<rparr>)"
| dev_receive:
    "rpcmsg_receive (q_at (s_mem s) (request (driver_rpc (s_dev s)))) b = Inr (Some m, q) \<Longrightarrow>
     session_step s (s\<lparr>s_mem := put_q (request (driver_rpc (s_dev s))) q (s_mem s), dev_held := m # dev_held s\<rparr>)"
| dev_reply:
    "m \<in> set (dev_held s) \<Longrightarrow>
     driver_rpc_ack_mmio_finish (Some (s_dev s)) (Some m) data (s_mem s) = Inr (rc, w) \<Longrightarrow>
     session_step s (s\<lparr>s_mem := w, dev_held := (if rc = 0 then remove1 m (dev_held s) else dev_held s)\<rparr>)"
| drv_response:
    "rpcmsg_receive_response (q_at (s_mem s) (response (driver_rpc (s_drv s)))) b (Some tid) = Inr (Some m, t, q) \<Longrightarrow>
     session_step s (s\<lparr>s_mem := put_q (response (driver_rpc (s_drv s))) q (s_mem s), drv_held := m # drv_held s\<rparr>)"
| drv_reclaim:
    "m \<in> set (drv_held s) \<Longrightarrow>
     rpcmsg_reclaim_buffer (buffer_state (driver_rpc (s_drv s))) m = Inr st \<Longrightarrow>
     session_step s (s\<lparr>s_drv := (s_drv s)\<lparr>driver_rpc := (driver_rpc (s_drv s))\<lparr>buffer_state := st\<rparr>\<rparr>,
                       drv_held := remove1 m (drv_held s)\<rparr>)"

text \<open>Zeroed memory, as at boot, and the endpoints as \<open>vso_rpc_init\<close> leaves them.\<close>
definition zero_queue :: rpcmsg_queue where
  "zero_queue = \<lparr>queue_prod = \<lparr>bound_tail = zero_marker, bound_head = zero_marker\<rparr>,
     queue_cons = \<lparr>bound_tail = zero_marker, bound_head = zero_marker\<rparr>,
     queue_ring = replicate RPCMSG_BUFFER_SIZE 0\<rparr>"

definition zero_mem :: io_mem where
  "zero_mem = \<lparr>iobuf = \<lparr>iobuf_buffers = replicate iobuf_id_last (replicate RPCMSG_BUFFER_SIZE zero_msg),
                        iobuf_queues = replicate queue_id_last zero_queue\<rparr>, rung = []\<rparr>"

definition zero_rpc :: vso_rpc where
  "zero_rpc = \<lparr>driver_rpc = \<lparr>request = iobuf_queue 0 0, response = iobuf_queue 0 0,
                 buffer_state = replicate (bitmap_words RPCMSG_BUFFER_SIZE) 0\<rparr>,
               device_event = iobuf_queue 0 0, doorbell = None\<rparr>"

text \<open>The three endpoints are initialised, the driver's first, with one doorbell cookie each.\<close>
definition session_init :: "session res" where
  "session_init =
     res_bind (vso_rpc_init (Some zero_rpc) vso_rpc_driver (Some 0) zero_mem) (\<lambda>(e1, drv, w).
     res_bind (vso_rpc_init (Some zero_rpc) vso_rpc_device_km (Some 1) w) (\<lambda>(e2, km, w).
     res_bind (vso_rpc_init (Some zero_rpc) vso_rpc_device (Some 2) w) (\<lambda>(e3, dev, w).
       case (drv, km, dev) of
         (Some drv, Some km, Some dev) \<Rightarrow>
           if e1 = 0 \<and> e2 = 0 \<and> e3 = 0
           then Inr \<lparr>s_mem = w, s_drv = drv, s_km = km, s_dev = dev, km_held = [], dev_held = [], drv_held = []\<rparr>
           else Inl Fatal
       | _ \<Rightarrow> Inl Fatal)))"

inductive session_reachable :: "session \<Rightarrow> bool" where
  session_start: "session_init = Inr s \<Longrightarrow> session_reachable s"
| session_next: "session_reachable s \<Longrightarrow> session_step s s' \<Longrightarrow> session_reachable s'"

subsection \<open>Memory\<close>

lemma refs_simps [simp]:
  "ref_queue (iobuf_queue b q) = q" "ref_buffer (iobuf_queue b q) = b"
  by (simp_all add: iobuf_queue_def)

lemma ids_simps [simp]:
  "iobuf_id_drvrpc = 0" "iobuf_id_devevt = 1" "iobuf_id_last = 2" "queue_id_drvrpc_req = 0"
  "queue_id_drvrpc_req_dev = 1" "queue_id_drvrpc_resp = 2" "queue_id_devevt = 3" "queue_id_last = 4"
  by (simp_all add: iobuf_id_drvrpc_def iobuf_id_devevt_def iobuf_id_last_def queue_id_drvrpc_req_def
      queue_id_drvrpc_req_dev_def queue_id_drvrpc_resp_def queue_id_devevt_def queue_id_last_def)

definition mem_ok :: "io_mem \<Rightarrow> bool" where
  "mem_ok w \<longleftrightarrow> length (iobuf_buffers (iobuf w)) = 2 \<and> length (iobuf_queues (iobuf w)) = 4
     \<and> (\<forall>b \<in> set (iobuf_buffers (iobuf w)). length b = 32)"

lemma mem_simps [simp]:
  "q_at (put_b r b w) r' = q_at w r'" "b_at (put_q r q w) r' = b_at w r'"
  "mem_ok (put_q r q w) = mem_ok w"
  "q_at (w\<lparr>rung := l\<rparr>) r' = q_at w r'" "b_at (w\<lparr>rung := l\<rparr>) r' = b_at w r'" "mem_ok (w\<lparr>rung := l\<rparr>) = mem_ok w"
  "rung (put_q r q w) = rung w" "rung (put_b r b w) = rung w"
  by (simp_all add: q_at_def b_at_def put_q_def put_b_def mem_ok_def)

lemma q_at_put_q [simp]:
  "mem_ok w \<Longrightarrow> ref_queue r < 4 \<Longrightarrow>
   q_at (put_q r q w) r' = (if ref_queue r' = ref_queue r then q else q_at w r')"
  by (simp add: q_at_def put_q_def mem_ok_def)

lemma b_at_put_b [simp]:
  "mem_ok w \<Longrightarrow> ref_buffer r < 2 \<Longrightarrow>
   b_at (put_b r b w) r' = (if ref_buffer r' = ref_buffer r then b else b_at w r')"
  by (simp add: b_at_def put_b_def mem_ok_def)

lemma mem_ok_put_b [simp]: "mem_ok w \<Longrightarrow> length b = 32 \<Longrightarrow> mem_ok (put_b r b w)"
  using set_update_subset_insert [of "iobuf_buffers (iobuf w)" "ref_buffer r" b]
  by (auto simp: put_b_def mem_ok_def)

lemma length_b_at [simp]: "mem_ok w \<Longrightarrow> ref_buffer r < 2 \<Longrightarrow> length (b_at w r) = 32"
  by (simp add: b_at_def mem_ok_def)

lemma doorbell_mem [simp]:
  "q_at (snd (vso_doorbell rpc w)) r = q_at w r" "b_at (snd (vso_doorbell rpc w)) r = b_at w r"
  "mem_ok (snd (vso_doorbell rpc w)) = mem_ok w"
  by (simp_all add: vso_doorbell_def split: option.split)

lemma put_b_same [simp]: "put_b r (b_at w r) w = w"
  by (simp add: put_b_def b_at_def)

lemma vso_refs [simp]:
  "driver_drvrpc_req = iobuf_queue 0 0" "driver_drvrpc_resp = iobuf_queue 0 2"
  "device_km_drvrpc_req = iobuf_queue 0 0" "device_km_drvrpc_resp = iobuf_queue 0 2"
  "device_drvrpc_req = iobuf_queue 0 1" "device_drvrpc_resp = iobuf_queue 0 2"
  "devevt_queue = iobuf_queue 1 3"
  by (simp_all add: driver_drvrpc_req_def driver_drvrpc_resp_def device_km_drvrpc_req_def
      device_km_drvrpc_resp_def device_drvrpc_req_def device_drvrpc_resp_def devevt_queue_def)

subsection \<open>The operations on consistent queues\<close>

lemma doorbell_ok: "doorbell r = Some c \<Longrightarrow> vso_doorbell (Some r) w = (0, w\<lparr>rung := c # rung w\<rparr>)"
  by (simp add: vso_doorbell_def)

lemma forward_ok:
  assumes "rpc_ok (q_at w (request (driver_rpc r)))" "queue_len (q_at w (request (driver_rpc r))) < 32" "m < 32"
  obtains q where "driver_rpc_request_fwd (Some r) (Some m) w = Inr (0, put_q (request (driver_rpc r)) q w)"
    "rpc_ok q" "rpc_ids q = rpc_ids (q_at w (request (driver_rpc r))) @ [m]"
  using rpc_tx_ok [OF assms] that
  by (simp add: driver_rpc_request_fwd_def rpcmsg_forward_def Let_def)

lemma reply_ok:
  assumes "rpc_ok (q_at w (response (driver_rpc r)))" "queue_len (q_at w (response (driver_rpc r))) < 32"
    "m < 32" "doorbell r = Some c"
  obtains q where "driver_rpc_reply (Some r) (Some m) w =
      Inr (0, (put_q (response (driver_rpc r)) q w)\<lparr>rung := c # rung w\<rparr>)"
    "rpc_ok q" "rpc_ids q = rpc_ids (q_at w (response (driver_rpc r))) @ [m]"
  using rpc_tx_ok [OF assms(1-3)] assms(4) that
  by (simp add: driver_rpc_reply_def rpcmsg_reply_def Let_def doorbell_ok)

text \<open>The message of a reply: only its \<open>mr2\<close> changes.\<close>
lemma ack_ok:
  assumes "mem_ok w" "response (driver_rpc r) = iobuf_queue 0 2" "rpc_ok (q_at w (iobuf_queue 0 2))"
    "queue_len (q_at w (iobuf_queue 0 2)) < 32" "m < 32" "doorbell r = Some c"
  obtains q where "driver_rpc_ack_mmio_finish (Some r) (Some m) data w =
      Inr (0, (put_q (iobuf_queue 0 2) q
        (put_b (iobuf_queue 0 2) ((b_at w (iobuf_queue 0 2))[m := (b_at w (iobuf_queue 0 2) ! m)\<lparr>mr2 := data\<rparr>]) w))
        \<lparr>rung := c # rung w\<rparr>)"
    "rpc_ok q" "rpc_ids q = rpc_ids (q_at w (iobuf_queue 0 2)) @ [m]"
proof -
  let ?w = "put_b (iobuf_queue 0 2) ((b_at w (iobuf_queue 0 2))[m := (b_at w (iobuf_queue 0 2) ! m)\<lparr>mr2 := data\<rparr>]) w"
  have step: "driver_rpc_ack_mmio_finish (Some r) (Some m) data w = driver_rpc_reply (Some r) (Some m) ?w"
    using assms by (simp add: driver_rpc_ack_mmio_finish_def msg_read_def msg_write_def Let_def)
  show thesis
    by (rule reply_ok [of ?w r m c]) (use assms that step in simp_all)
qed

lemma drv_request_ok:
  assumes "mem_ok w" "request (driver_rpc r) = iobuf_queue 0 0" "rpc_ok (q_at w (iobuf_queue 0 0))"
    "queue_len (q_at w (iobuf_queue 0 0)) < 32" "pool_ok (buffer_state (driver_rpc r))"
    "lent (buffer_state (driver_rpc r)) \<noteq> {..<32}" "doorbell r = Some c"
  obtains i q st where
    "driver_rpc_request (Some r) op r0 r1 r2 r3 w =
       Inr (0, r\<lparr>driver_rpc := (driver_rpc r)\<lparr>buffer_state := st\<rparr>\<rparr>,
         (put_q (iobuf_queue 0 0) q (put_b (iobuf_queue 0 0)
           ((b_at w (iobuf_queue 0 0))[i := \<lparr>mr0 = BIT_FIELD_SET r0 RPC_MR0_OP (ucast op), mr1 = r1, mr2 = r2, mr3 = r3\<rparr>]) w))
         \<lparr>rung := c # rung w\<rparr>)"
    "i < 32" "i \<notin> lent (buffer_state (driver_rpc r))" "pool_ok st"
    "lent st = insert i (lent (buffer_state (driver_rpc r)))"
    "rpc_ok q" "rpc_ids q = rpc_ids (q_at w (iobuf_queue 0 0)) @ [i]"
proof -
  have len: "length (b_at w (iobuf_queue 0 0)) = 32" using assms(1) by simp
  show thesis
    by (rule request_ok [OF assms(3) len assms(5,6,4), of "BIT_FIELD_SET r0 RPC_MR0_OP (ucast op)" r1 r2 r3])
      (use assms that in \<open>simp_all add: driver_rpc_request_def Let_def doorbell_ok\<close>)
qed

subsection \<open>The invariant\<close>

text \<open>All places a lent message can be at: the three queues and the hands of the parties.\<close>
definition in_flight :: "session \<Rightarrow> msgptr list" where
  "in_flight s =
     rpc_ids (q_at (s_mem s) (iobuf_queue 0 0)) @ km_held s @ rpc_ids (q_at (s_mem s) (iobuf_queue 0 1))
     @ dev_held s @ rpc_ids (q_at (s_mem s) (iobuf_queue 0 2)) @ drv_held s"

definition s_lent :: "session \<Rightarrow> msgptr set" where
  "s_lent s = lent (buffer_state (driver_rpc (s_drv s)))"

definition endpoint_ok :: "nat \<Rightarrow> vso_rpc \<Rightarrow> bool" where
  "endpoint_ok rq r \<longleftrightarrow> request (driver_rpc r) = iobuf_queue 0 rq \<and> response (driver_rpc r) = iobuf_queue 0 2
     \<and> doorbell r \<noteq> None"

definition session_inv :: "session \<Rightarrow> bool" where
  "session_inv s \<longleftrightarrow> mem_ok (s_mem s) \<and> (\<forall>i < 3. rpc_ok (q_at (s_mem s) (iobuf_queue 0 i)))
     \<and> endpoint_ok 0 (s_drv s) \<and> endpoint_ok 0 (s_km s) \<and> endpoint_ok 1 (s_dev s)
     \<and> pool_ok (buffer_state (driver_rpc (s_drv s)))
     \<and> mset (in_flight s) = mset_set (s_lent s)"

lemma session_invD:
  assumes "session_inv s"
  shows "mem_ok (s_mem s)" "rpc_ok (q_at (s_mem s) (iobuf_queue 0 0))" "rpc_ok (q_at (s_mem s) (iobuf_queue 0 1))"
    "rpc_ok (q_at (s_mem s) (iobuf_queue 0 2))"
    "endpoint_ok 0 (s_drv s)" "endpoint_ok 0 (s_km s)" "endpoint_ok 1 (s_dev s)"
    "pool_ok (buffer_state (driver_rpc (s_drv s)))" "mset (in_flight s) = mset_set (s_lent s)"
    "finite (s_lent s)" "s_lent s \<subseteq> {..<32}"
  using assms lent_subset [of "buffer_state (driver_rpc (s_drv s))"]
  by (auto simp: session_inv_def s_lent_def intro: finite_subset)

lemma in_flight_facts:
  assumes "session_inv s"
  shows "distinct (in_flight s)" "set (in_flight s) = s_lent s" "length (in_flight s) \<le> 32"
proof -
  note inv = session_invD [OF assms]
  show "distinct (in_flight s)"
    unfolding distinct_count_atmost_1 inv(9) using inv(10) by (auto simp: set_mset_mset [symmetric] inv(9) simp del: set_mset_mset)
  show set: "set (in_flight s) = s_lent s"
    using inv(10) by (metis finite_set_mset_mset_set inv(9) set_mset_mset)
  have "length (in_flight s) = card (s_lent s)"
    by (metis inv(9) size_mset size_mset_set)
  also have "\<dots> \<le> 32" using inv(11) by (metis card_lessThan card_mono finite_lessThan)
  finally show "length (in_flight s) \<le> 32" .
qed

lemma held_facts:
  assumes "session_inv s" "m \<in> set (km_held s) \<union> set (dev_held s) \<union> set (drv_held s)"
  shows "m < 32" "queue_len (q_at (s_mem s) (iobuf_queue 0 1)) < 32" "queue_len (q_at (s_mem s) (iobuf_queue 0 2)) < 32"
proof -
  note f = in_flight_facts [OF assms(1)]
  have "m \<in> s_lent s" using assms(2) f(2) by (auto simp: in_flight_def)
  then show "m < 32" using session_invD(11) [OF assms(1)] by auto
  have "length (km_held s) + length (dev_held s) + length (drv_held s) > 0"
    using assms(2) by (auto simp: length_pos_if_in_set)
  with f(3) show "queue_len (q_at (s_mem s) (iobuf_queue 0 1)) < 32" "queue_len (q_at (s_mem s) (iobuf_queue 0 2)) < 32"
    unfolding in_flight_def length_append length_rpc_ids by linarith+
qed

lemma request_room:
  assumes "session_inv s" "s_lent s \<noteq> {..<32}"
  shows "queue_len (q_at (s_mem s) (iobuf_queue 0 0)) < 32"
proof -
  have "card (s_lent s) < card {..<32 :: nat}"
    using assms(2) session_invD(11) [OF assms(1)] by (intro psubset_card_mono) auto
  moreover have "length (in_flight s) = card (s_lent s)"
    by (metis session_invD(9) [OF assms(1)] size_mset size_mset_set)
  ultimately show ?thesis
    unfolding in_flight_def length_append length_rpc_ids card_lessThan by linarith
qed

lemma session_init_inv:
  assumes "session_init = Inr s"
  shows "session_inv s"
proof -
  have zero: "zero_queue = rpcmsg_queue_init zero_queue"
    by (simp add: zero_queue_def rpcmsg_queue_init_def)
  have ok: "rpc_ok (rpcmsg_queue_init q)" "rpc_ids (rpcmsg_queue_init q) = []" for q
    using queue_init_ok [of q] by (simp_all add: rpc_ok_def rpc_ids_def)
  have mem: "mem_ok zero_mem" by (simp add: mem_ok_def zero_mem_def)
  have pool: "pool_ok [0]" "lent [0] = {}" by (auto simp: pool_ok_def lent_Collect bitmap_test_def)
  have q1: "q_at zero_mem (iobuf_queue 0 (Suc 0)) = rpcmsg_queue_init zero_queue"
    by (simp add: q_at_def zero_mem_def flip: zero)
  show ?thesis
    using assms mem
    by (auto simp: session_init_def vso_rpc_init_def vso_driver_rpc_init_def Let_def
        vso_rpc_driver_def vso_rpc_device_km_def vso_rpc_device_def rpcmsg_call_queue_init_def
        rpcmsg_reply_queue_init_def rpcmsg_queue_ref_init_def RPCMSG_F_INIT_ALL_def
        RPCMSG_F_INIT_BUFFER_def RPCMSG_F_INIT_QUEUE_def session_inv_def endpoint_ok_def s_lent_def
        in_flight_def less_Suc_eq numeral_3_eq_3 zero_rpc_def pool ok q1)
qed

lemma receive_cases:
  assumes "rpc_ok q" "rpcmsg_receive q b = Inr (Some m, q')"
  shows "\<exists>ms. rpc_ids q = m # ms \<and> q' = advance_cons q \<and> rpc_ok q' \<and> rpc_ids q' = ms"
proof (cases "rpc_ids q")
  case Nil
  with assms show ?thesis by (simp add: rpcmsg_receive_def rpc_empty)
next
  case (Cons x xs)
  with assms rpc_rx_ok [OF assms(1) Cons] show ?thesis by (simp add: rpcmsg_receive_def)
qed

lemma response_cases:
  assumes "rpc_ok q" "rpcmsg_receive_response q b (Some tid) = Inr (Some m, t, q')"
  shows "\<exists>ms. rpc_ids q = m # ms \<and> rpc_ok q' \<and> rpc_ids q' = ms"
proof (cases "rpc_ids q")
  case Nil
  with assms receive_response_empty [OF assms(1)] show ?thesis by simp
next
  case (Cons x xs)
  with assms rpc_rx_ok [OF assms(1) Cons] receive_response_ok [OF assms(1) Cons] show ?thesis by auto
qed

text \<open>
  The invariant after a step of a party that leaves the driver's lending state alone: it
  suffices that the queues are consistent and the messages in flight the same.
\<close>
lemma session_inv_moves:
  assumes I: "session_inv s" and "mem_ok (s_mem s')" "s_drv s' = s_drv s" "s_km s' = s_km s" "s_dev s' = s_dev s"
    and "\<And>i. i < 3 \<Longrightarrow> rpc_ok (q_at (s_mem s') (iobuf_queue 0 i))"
    and "mset (in_flight s') = mset (in_flight s)"
  shows "session_inv s'"
  using assms session_invD [OF I] unfolding session_inv_def s_lent_def by simp

lemma queue_moves:
  assumes I: "session_inv s" and "k < 3" "rpc_ok q" "i < 3"
  shows "rpc_ok (q_at (put_q (iobuf_queue 0 k) q (s_mem s)) (iobuf_queue 0 i))"
  using assms session_invD(1) [OF I] unfolding session_inv_def by simp

lemma ack_cases:
  assumes I: "session_inv s" and m: "m \<in> set (km_held s) \<union> set (dev_held s)"
    and r: "r = s_km s \<or> r = s_dev s"
  obtains w q where "driver_rpc_ack_mmio_finish (Some r) (Some m) data (s_mem s) = Inr (0, w)"
    "mem_ok w" "\<And>i. i < 3 \<Longrightarrow> q_at w (iobuf_queue 0 i) = (if i = 2 then q else q_at (s_mem s) (iobuf_queue 0 i))"
    "rpc_ok q" "rpc_ids q = rpc_ids (q_at (s_mem s) (iobuf_queue 0 2)) @ [m]"
proof -
  note inv = session_invD [OF I]
  note held = held_facts [OF I, of m]
  obtain c where c: "response (driver_rpc r) = iobuf_queue 0 2" "doorbell r = Some c"
    using r inv(6,7) by (auto simp: endpoint_ok_def)
  have m32: "m < 32" "queue_len (q_at (s_mem s) (iobuf_queue 0 2)) < 32" using held m by auto
  show thesis
  proof (rule ack_ok [OF inv(1) c(1) inv(4) m32(2,1) c(2), of data])
    fix q assume *: "driver_rpc_ack_mmio_finish (Some r) (Some m) data (s_mem s) =
      Inr (0, (put_q (iobuf_queue 0 2) q (put_b (iobuf_queue 0 2)
        ((b_at (s_mem s) (iobuf_queue 0 2))[m := (b_at (s_mem s) (iobuf_queue 0 2) ! m)\<lparr>mr2 := data\<rparr>]) (s_mem s)))
        \<lparr>rung := c # rung (s_mem s)\<rparr>)"
      "rpc_ok q" "rpc_ids q = rpc_ids (q_at (s_mem s) (iobuf_queue 0 2)) @ [m]"
    show thesis by (rule that [OF *(1) _ _ *(2,3)]) (use inv(1) in simp_all)
  qed
qed

lemma session_step_inv:
  assumes step: "session_step s s'" and I: "session_inv s"
  shows "session_inv s'"
proof -
  note inv = session_invD [OF I]
  note ends = inv(5-7) [unfolded endpoint_ok_def]
  note upd = session_inv_def in_flight_def s_lent_def endpoint_ok_def less_Suc_eq numeral_3_eq_3
  from step show ?thesis
  proof cases
    case (drv_request op r0 r1 r2 r3 rc drv' w)
    obtain c where c: "doorbell (s_drv s) = Some c" using ends(1) by auto
    have len: "length (b_at (s_mem s) (iobuf_queue 0 0)) = 32" using inv(1) by simp
    have free: "lent (buffer_state (driver_rpc (s_drv s))) \<noteq> {..<32}"
      using drv_request(2) request_exhausted [OF inv(8)] ends(1)
      by (auto simp: driver_rpc_request_def Let_def)
    note room = request_room [OF I free [folded s_lent_def]]
    show ?thesis
      by (rule drv_request_ok [OF inv(1) _ inv(2) room inv(8) free c, of op r0 r1 r2 r3])
        (use drv_request ends inv len in \<open>auto simp: upd numeral_2_eq_2\<close>)
  next
    case (km_receive b m q)
    with receive_cases [OF inv(2), of b m q] ends obtain ms where
      q: "rpc_ids (q_at (s_mem s) (iobuf_queue 0 0)) = m # ms" "rpc_ok q" "rpc_ids q = ms" by auto
    with km_receive ends inv queue_moves [OF I _ q(2), of 0] show ?thesis
      by (intro session_inv_moves [OF I]) (simp_all add: in_flight_def)
  next
    case (km_forward m rc w)
    note held = held_facts [OF I, of m]
    show ?thesis
      by (rule forward_ok [of "s_mem s" "s_dev s" m])
        (use held km_forward ends inv queue_moves [OF I, of 1] in
          \<open>auto intro!: session_inv_moves [OF I] simp: in_flight_def simp flip: One_nat_def\<close>)
  next
    case (km_reply m data rc w)
    show ?thesis
      by (rule ack_cases [OF I, of m "s_km s" data])
        (use km_reply inv I in \<open>auto simp: in_flight_def session_inv_def s_lent_def\<close>)
  next
    case (dev_receive b m q)
    with receive_cases [OF inv(3), of b m q] ends obtain ms where
      q: "rpc_ids (q_at (s_mem s) (iobuf_queue 0 1)) = m # ms" "rpc_ok q" "rpc_ids q = ms" by auto
    with dev_receive ends inv queue_moves [OF I _ q(2), of 1] show ?thesis
      by (intro session_inv_moves [OF I]) (simp_all add: in_flight_def)
  next
    case (dev_reply m data rc w)
    show ?thesis
      by (rule ack_cases [OF I, of m "s_dev s" data])
        (use dev_reply inv I in \<open>auto simp: in_flight_def session_inv_def s_lent_def\<close>)
  next
    case (drv_response b tid m t q)
    with response_cases [OF inv(4), of b tid m t q] ends obtain ms where
      q: "rpc_ids (q_at (s_mem s) (iobuf_queue 0 2)) = m # ms" "rpc_ok q" "rpc_ids q = ms" by auto
    with drv_response ends inv queue_moves [OF I _ q(2), of 2] show ?thesis
      by (intro session_inv_moves [OF I]) (simp_all add: in_flight_def)
  next
    case (drv_reclaim m st)
    have m: "m < 32" "m \<in> s_lent s"
      using held_facts(1) [OF I, of m] in_flight_facts(2) [OF I] drv_reclaim by (auto simp: in_flight_def)
    from pool.release_id [OF inv(8), of m] m(1) drv_reclaim
    have st: "pool_ok st" "lent st = s_lent s - {m}" by (auto simp: s_lent_def)
    have "mset (in_flight s') = mset (in_flight s) - {#m#}"
      using drv_reclaim by (simp add: in_flight_def)
    also have "\<dots> = mset_set (s_lent s - {m})"
      using inv(9,10) m(2) by (simp add: mset_set_Diff)
    finally show ?thesis
      using drv_reclaim inv I st by (simp add: session_inv_def endpoint_ok_def s_lent_def)
  qed
qed

lemma session_reachable_inv: "session_reachable s \<Longrightarrow> session_inv s"
  by (induction rule: session_reachable.induct) (auto intro: session_init_inv session_step_inv)

section \<open>Properties\<close>

text \<open>
  Every lent message is at exactly one place: in every reachable state of the
  request-reply protocol the messages in the request, forward and response queues and in
  the hands of the kernel module, the device and the driver are pairwise different, and
  they are exactly the messages the driver has lent and not reclaimed.
\<close>
lemma lent_message_single_owner:
  assumes "session_reachable s"
  shows "distinct (in_flight s) \<and> set (in_flight s) = s_lent s"
  using in_flight_facts [OF session_reachable_inv [OF assms]] by simp

text \<open>
  Nobody on the request-reply chain is ever turned away: in every reachable state the
  device's reply and the kernel module's forward of a message it holds succeed and ring
  the doorbell, the driver's request succeeds as long as one buffer is free, and a
  received response can be reclaimed.
\<close>
lemma protocol_never_refuses:
  assumes "session_reachable s"
  shows "(\<forall>m \<in> set (dev_held s). \<exists>w. driver_rpc_ack_mmio_finish (Some (s_dev s)) (Some m) data (s_mem s) = Inr (0, w))
    \<and> (\<forall>m \<in> set (km_held s). \<exists>w. driver_rpc_request_fwd (Some (s_dev s)) (Some m) (s_mem s) = Inr (0, w))
    \<and> (s_lent s \<noteq> {..<32} \<longrightarrow> (\<exists>drv w. driver_rpc_request (Some (s_drv s)) op r0 r1 r2 r3 (s_mem s) = Inr (0, drv, w)))
    \<and> (\<forall>m \<in> set (drv_held s). \<exists>st. rpcmsg_reclaim_buffer (buffer_state (driver_rpc (s_drv s))) m = Inr st)"
proof (intro conjI ballI impI)
  note I = session_reachable_inv [OF assms]
  note inv = session_invD [OF I]
  note ends = inv(5-7) [unfolded endpoint_ok_def]
  show "\<exists>w. driver_rpc_ack_mmio_finish (Some (s_dev s)) (Some m) data (s_mem s) = Inr (0, w)"
    if "m \<in> set (dev_held s)" for m
    by (rule ack_cases [OF I, of m "s_dev s" data]) (use that in auto)
  show "\<exists>w. driver_rpc_request_fwd (Some (s_dev s)) (Some m) (s_mem s) = Inr (0, w)"
    if "m \<in> set (km_held s)" for m
    by (rule forward_ok [of "s_mem s" "s_dev s" m])
      (use that held_facts [OF I, of m] ends inv in \<open>auto simp flip: One_nat_def\<close>)
  show "\<exists>drv w. driver_rpc_request (Some (s_drv s)) op r0 r1 r2 r3 (s_mem s) = Inr (0, drv, w)"
    if free: "s_lent s \<noteq> {..<32}"
  proof -
    obtain c where c: "doorbell (s_drv s) = Some c" using ends(1) by auto
    have rq: "request (driver_rpc (s_drv s)) = iobuf_queue 0 0" using ends(1) by simp
    show ?thesis
      by (rule drv_request_ok [OF inv(1) rq inv(2) request_room [OF I free] inv(8) free [unfolded s_lent_def] c])
        blast
  qed
  show "\<exists>st. rpcmsg_reclaim_buffer (buffer_state (driver_rpc (s_drv s))) m = Inr st"
    if "m \<in> set (drv_held s)" for m
    using pool.release_id [OF inv(8), of m] held_facts(1) [OF I, of m] that by auto
qed

text \<open>
  \<open>driver_rpc_request_pending\<close> answers the opposite of its name: it is non-zero exactly
  when no request is queued for the endpoint.
\<close>
lemma request_pending_inverted:
  "(driver_rpc_request_pending (Some r) w \<noteq> Inr 0) = (rpc_ids (q_at w (request (driver_rpc r))) = [])"
proof -
  have "(rpc_ids q = []) = (queue_len q = 0)" for q by (simp flip: length_0_conv)
  then show ?thesis by (simp add: driver_rpc_request_pending_def queue_empty_iff)
qed

end
