(* ===== verification/Vm_Env.thy ===== *)
theory Vm_Env
  imports Machine
begin

text \<open>
  What the monitor calls outside its own sources: libsel4vm (interrupt injection, memory
  reservations, the state of a virtual CPU that has faulted), libutils lists, libsync
  semaphores and \<open>calloc\<close>. They are parameters of the model: a record of functions over an
  unspecified state \<open>'vm\<close> of the virtual machine, with the documented behaviour as
  predicates that theorems name as hypotheses. A concrete environment at the end shows
  that the hypotheses can hold.

  A virtual CPU, an I/O proxy and a reservation are named by numbers, as the code names
  them by addresses.
\<close>

section \<open>The environment\<close>

text \<open>The memory fault callbacks of the monitor.\<close>
datatype fault_callback = Mmio_Fault_Handler | V2m_Fault_Handler | Pl011_Fault_Handler

datatype memory_fault_result = FAULT_HANDLED | FAULT_UNHANDLED | FAULT_ERROR

definition BOOT_VCPU :: nat where "BOOT_VCPU = 0"

record 'vm vm_ops =
  vm_register_irq :: "nat \<Rightarrow> u32 \<Rightarrow> 'vm \<Rightarrow> int \<times> 'vm"
  vm_set_irq_level :: "nat \<Rightarrow> u32 \<Rightarrow> bool \<Rightarrow> 'vm \<Rightarrow> int \<times> 'vm"
  vm_reserve_memory_at :: "u64 \<Rightarrow> u64 \<Rightarrow> fault_callback \<Rightarrow> nat \<Rightarrow> 'vm \<Rightarrow> nat option \<times> 'vm"
  vm_reservation_free :: "nat \<Rightarrow> 'vm \<Rightarrow> int \<times> 'vm"
  calloc_ok :: "'vm \<Rightarrow> bool \<times> 'vm"
  is_vcpu_read_fault :: "nat \<Rightarrow> 'vm \<Rightarrow> bool"
  get_vcpu_fault_address :: "nat \<Rightarrow> 'vm \<Rightarrow> u64"
  get_vcpu_fault_data :: "nat \<Rightarrow> 'vm \<Rightarrow> u64"
  get_vcpu_fault_data_mask :: "nat \<Rightarrow> 'vm \<Rightarrow> u64"
  set_vcpu_fault_data :: "nat \<Rightarrow> u64 \<Rightarrow> 'vm \<Rightarrow> 'vm"
  emulate_vcpu_fault :: "nat \<Rightarrow> u64 \<Rightarrow> 'vm \<Rightarrow> u64"
  advance_vcpu_fault :: "nat \<Rightarrow> 'vm \<Rightarrow> 'vm"

text \<open>A \<open>list_t\<close> is the list of the objects its nodes point to, from the head on.\<close>
record 'd list_ops =
  list_append :: "'d list \<Rightarrow> 'd \<Rightarrow> int \<times> 'd list"
  list_remove :: "'d list \<Rightarrow> 'd \<Rightarrow> ('d \<Rightarrow> 'd \<Rightarrow> int) \<Rightarrow> int \<times> 'd list"
  list_init :: "'d list \<Rightarrow> int \<times> 'd list"

section \<open>Documented behaviour\<close>

text \<open>
  The virtual interrupt controller: \<open>level s v i\<close> is the level of interrupt \<open>i\<close> at CPU \<open>v\<close>.
  A call that returns 0 has set that level; one that fails, a registration, an
  allocation and a memory reservation change none.
\<close>
definition irq_spec :: "'vm vm_ops \<Rightarrow> ('vm \<Rightarrow> nat \<Rightarrow> u32 \<Rightarrow> bool) \<Rightarrow> bool" where
  "irq_spec E level \<longleftrightarrow>
     (\<forall>v i b s rc s' v' i'. vm_set_irq_level E v i b s = (rc, s') \<longrightarrow>
        level s' v' i' = (if rc = 0 \<and> v' = v \<and> i' = i then b else level s v' i'))
     \<and> (\<forall>v i s rc s'. vm_register_irq E v i s = (rc, s') \<longrightarrow> level s' = level s)
     \<and> (\<forall>s ok s'. calloc_ok E s = (ok, s') \<longrightarrow> level s' = level s)
     \<and> (\<forall>a n cb c s r s'. vm_reserve_memory_at E a n cb c s = (r, s') \<longrightarrow> level s' = level s)"

lemma irq_specD:
  assumes "irq_spec E level"
  shows "vm_set_irq_level E v i b s = (rc, s') \<Longrightarrow>
      level s' v' i' = (if rc = 0 \<and> v' = v \<and> i' = i then b else level s v' i')"
    "vm_register_irq E v i s = (rc, s') \<Longrightarrow> level s' = level s"
    "calloc_ok E s = (ok, s') \<Longrightarrow> level s' = level s"
    "vm_reserve_memory_at E a n cb c s = (r, s') \<Longrightarrow> level s' = level s"
  using assms unfolding irq_spec_def by metis+

text \<open>Lists: append adds at the end or fails, remove deletes the first match or fails.\<close>
fun remove_match :: "('d \<Rightarrow> bool) \<Rightarrow> 'd list \<Rightarrow> 'd list" where
  "remove_match P [] = []"
| "remove_match P (x # xs) = (if P x then xs else x # remove_match P xs)"

definition list_spec :: "'d list_ops \<Rightarrow> bool" where
  "list_spec L \<longleftrightarrow>
     (\<forall>l x rc l'. list_append L l x = (rc, l') \<longrightarrow> l' = (if rc = 0 then l @ [x] else l))
     \<and> (\<forall>l x cmp rc l'. list_remove L l x cmp = (rc, l') \<longrightarrow>
          l' = (if rc = 0 then remove_match (\<lambda>y. cmp y x = 0) l else l)
          \<and> (rc = 0) = (\<exists>y \<in> set l. cmp y x = 0))
     \<and> (\<forall>l. list_init L l = (0, []))"

lemma list_specD:
  assumes "list_spec L"
  shows "list_append L l x = (rc, l') \<Longrightarrow> l' = (if rc = 0 then l @ [x] else l)"
    "list_remove L l x cmp = (rc, l') \<Longrightarrow> l' = (if rc = 0 then remove_match (\<lambda>y. cmp y x = 0) l else l)"
    "list_remove L l x cmp = (rc, l') \<Longrightarrow> (rc = 0) = (\<exists>y \<in> set l. cmp y x = 0)"
    "list_init L l = (0, [])"
  using assms unfolding list_spec_def by blast+

lemma set_remove_match: "set (remove_match P xs) \<subseteq> set xs"
  by (induction xs) auto

lemma remove_match_unique:
  "distinct xs \<Longrightarrow> (\<And>x y. x \<in> set xs \<Longrightarrow> y \<in> set xs \<Longrightarrow> P x \<Longrightarrow> P y \<Longrightarrow> x = y) \<Longrightarrow>
   set (remove_match P xs) = {x \<in> set xs. \<not> P x}"
  by (induction xs) auto

section \<open>A concrete environment\<close>

text \<open>A machine that never refuses: its state is the interrupt levels and a count of reservations.\<close>
record demo_vm =
  demo_level :: "nat \<Rightarrow> u32 \<Rightarrow> bool"
  demo_sets :: nat
  demo_res :: nat
  demo_read :: bool
  demo_data :: u64
  demo_addr :: u64
  demo_advanced :: nat

definition demo_ops :: "demo_vm vm_ops" where
  "demo_ops =
     \<lparr>vm_register_irq = (\<lambda>v i s. (0, s)),
      vm_set_irq_level = (\<lambda>v i b s. (0, s\<lparr>demo_level := (demo_level s)(v := (demo_level s v)(i := b)),
                                         demo_sets := Suc (demo_sets s)\<rparr>)),
      vm_reserve_memory_at = (\<lambda>a n cb c s. (Some (demo_res s), s\<lparr>demo_res := Suc (demo_res s)\<rparr>)),
      vm_reservation_free = (\<lambda>r s. (0, s)),
      calloc_ok = (\<lambda>s. (True, s)),
      is_vcpu_read_fault = (\<lambda>v s. demo_read s),
      get_vcpu_fault_address = (\<lambda>v s. demo_addr s),
      get_vcpu_fault_data = (\<lambda>v s. demo_data s),
      get_vcpu_fault_data_mask = (\<lambda>v s. 0xFFFFFFFF),
      set_vcpu_fault_data = (\<lambda>v d s. s\<lparr>demo_data := d\<rparr>),
      emulate_vcpu_fault = (\<lambda>v d s. demo_data s),
      advance_vcpu_fault = (\<lambda>v s. s\<lparr>demo_advanced := Suc (demo_advanced s)\<rparr>)\<rparr>"

definition demo_vm0 :: demo_vm where
  "demo_vm0 = \<lparr>demo_level = (\<lambda>_ _. False), demo_sets = 0, demo_res = 0, demo_read = True, demo_data = 0,
     demo_addr = 0, demo_advanced = 0\<rparr>"

definition demo_list :: "'d list_ops" where
  "demo_list =
     \<lparr>list_append = (\<lambda>l x. (0, l @ [x])),
      list_remove = (\<lambda>l x cmp. if list_ex (\<lambda>y. cmp y x = 0) l
                              then (0, remove_match (\<lambda>y. cmp y x = 0) l) else (-1, l)),
      list_init = (\<lambda>l. (0, []))\<rparr>"

lemma demo_irq_spec: "irq_spec demo_ops demo_level"
  by (simp add: irq_spec_def demo_ops_def)

lemma demo_list_spec: "list_spec demo_list"
  by (auto simp: list_spec_def demo_list_def list_ex_iff)

end
