(* ===== verification/Irq_Line.thy ===== *)
theory Irq_Line
  imports Vm_Env
begin

unbundle bit_operations_syntax

text \<open>
  Interrupt lines: \<open>src/irq_line.c\<close> (a line of its own) and \<open>src/shared_irq_line.c\<close> (a
  level-triggered line that several sources share, wired-OR). The callbacks
  \<open>irq_line_ack\<close> and \<open>shared_irq_ack\<close> are empty. The expression \<open>1 << source\<close> of the shared
  line has type \<open>int\<close>: it is undefined from 31 on, and its value is sign-extended to 64
  bits.

  The locale \<open>wired_or\<close> states what a user of a shared line relies on; it is interpreted on
  the shared line together with the virtual interrupt controller.
\<close>

section \<open>Definitions\<close>

record irq_line =
  line_vcpu :: nat
  line_irq :: u32
  line_cookie :: nat

definition irq_line_init ::
  "'vm vm_ops \<Rightarrow> irq_line \<Rightarrow> nat \<Rightarrow> u32 \<Rightarrow> nat \<Rightarrow> 'vm \<Rightarrow> int \<times> irq_line \<times> 'vm" where
  "irq_line_init E line vcpu irq cookie vm =
     (let line = line\<lparr>line_vcpu := vcpu, line_irq := irq, line_cookie := cookie\<rparr> in
      case vm_register_irq E vcpu irq vm of (err, vm) \<Rightarrow>
        if err \<noteq> 0 then (-1, line, vm) else (0, line, vm))"

definition irq_line_change :: "'vm vm_ops \<Rightarrow> irq_line \<Rightarrow> bool \<Rightarrow> 'vm \<Rightarrow> int \<times> 'vm" where
  "irq_line_change E line active vm = vm_set_irq_level E (line_vcpu line) (line_irq line) active vm"

definition irq_line_pulse :: "'vm vm_ops \<Rightarrow> irq_line \<Rightarrow> 'vm \<Rightarrow> int \<times> 'vm" where
  "irq_line_pulse E line vm =
     (case vm_set_irq_level E (line_vcpu line) (line_irq line) True vm of (err, vm) \<Rightarrow>
        if err \<noteq> 0 then (err, vm)
        else vm_set_irq_level E (line_vcpu line) (line_irq line) False vm)"

record shared_irq_line =
  shared_vcpu :: nat
  shared_irq :: u32
  sources :: u64

definition shared_irq_line_init ::
  "'vm vm_ops \<Rightarrow> shared_irq_line \<Rightarrow> nat \<Rightarrow> u32 \<Rightarrow> 'vm \<Rightarrow> int \<times> shared_irq_line \<times> 'vm" where
  "shared_irq_line_init E line vcpu irq vm =
     (let line = line\<lparr>shared_vcpu := vcpu, shared_irq := irq, sources := 0\<rparr> in
      case vm_register_irq E vcpu irq vm of (err, vm) \<Rightarrow>
        if err \<noteq> 0 then (-1, line, vm) else (0, line, vm))"

text \<open>\<open>1 << source\<close> at type \<open>int\<close>.\<close>
definition int_one_shift :: "u32 \<Rightarrow> 32 word res" where
  "int_one_shift source = (if source < 31 then Inr (push_bit (unat source) 1) else Inl Undefined_Shift)"

definition shared_irq_line_change ::
  "'vm vm_ops \<Rightarrow> shared_irq_line \<Rightarrow> u32 \<Rightarrow> bool \<Rightarrow> 'vm \<Rightarrow> (int \<times> shared_irq_line \<times> 'vm) res" where
  "shared_irq_line_change E line source active vm =
     (if 64 \<le> source then Inr (-1, line, vm)
      else
        let saved_sources = sources line in
        res_bind (int_one_shift source) (\<lambda>b.
          let line = (if active then line\<lparr>sources := sources line OR scast b\<rparr>
                      else line\<lparr>sources := sources line AND scast (NOT b)\<rparr>) in
          if (saved_sources \<noteq> 0) = (sources line \<noteq> 0) then Inr (0, line, vm)
          else case vm_set_irq_level E (shared_vcpu line) (shared_irq line) (sources line \<noteq> 0) vm of
                 (err, vm) \<Rightarrow> Inr (err, line, vm)))"

section \<open>A line of its own\<close>

lemma irq_line_change_level:
  assumes "irq_spec E level" "irq_line_change E line b vm = (0, vm')"
  shows "level vm' (line_vcpu line) (line_irq line) = b"
  using assms irq_specD(1) [OF assms(1)] by (simp add: irq_line_change_def)

text \<open>A pulse that succeeds has raised the line and leaves it low; no other line is touched.\<close>
lemma irq_line_pulse_level:
  assumes E: "irq_spec E level" and pulse: "irq_line_pulse E line vm = (rc, vm')"
  shows "rc = 0 \<Longrightarrow> \<not> level vm' (line_vcpu line) (line_irq line)"
    and "(v, i) \<noteq> (line_vcpu line, line_irq line) \<Longrightarrow> level vm' v i = level vm v i"
proof -
  obtain e vm1 where raise: "vm_set_irq_level E (line_vcpu line) (line_irq line) True vm = (e, vm1)"
    by fastforce
  note up = irq_specD(1) [OF E raise]
  show "rc = 0 \<Longrightarrow> \<not> level vm' (line_vcpu line) (line_irq line)"
    using pulse raise irq_specD(1) [OF E, of "line_vcpu line" "line_irq line" False vm1 rc vm']
    by (auto simp: irq_line_pulse_def split: if_splits)
  show "(v, i) \<noteq> (line_vcpu line, line_irq line) \<Longrightarrow> level vm' v i = level vm v i"
    using pulse raise up irq_specD(1) [OF E, of "line_vcpu line" "line_irq line" False vm1 rc vm']
    by (auto simp: irq_line_pulse_def split: if_splits)
qed

section \<open>A shared line\<close>

lemma scast_bits:
  "source < 31 \<Longrightarrow> bit (scast (push_bit (unat source) 1 :: 32 word) :: u64) k \<longleftrightarrow> k = unat source"
  "source < 31 \<Longrightarrow> bit (scast (NOT (push_bit (unat source) 1) :: 32 word) :: u64) k \<longleftrightarrow> k < 64 \<and> k \<noteq> unat source"
  for source :: u32
proof -
  assume "source < 31"
  then have s: "unat source < 31" by (simp add: word_less_nat_alt)
  then show "bit (scast (push_bit (unat source) 1 :: 32 word) :: u64) k \<longleftrightarrow> k = unat source"
    by (auto simp: bit_simps min_def)
  from s show "bit (scast (NOT (push_bit (unat source) 1) :: 32 word) :: u64) k \<longleftrightarrow> k < 64 \<and> k \<noteq> unat source"
    by (auto simp: bit_simps min_def)
qed

text \<open>The sources that assert the line, and a line whose level is the OR of its sources.\<close>
definition active_sources :: "shared_irq_line \<Rightarrow> nat set" where
  "active_sources line = {k. bit (sources line) k}"

definition line_synced :: "('vm \<Rightarrow> nat \<Rightarrow> u32 \<Rightarrow> bool) \<Rightarrow> shared_irq_line \<Rightarrow> 'vm \<Rightarrow> bool" where
  "line_synced level line vm \<longleftrightarrow> level vm (shared_vcpu line) (shared_irq line) = (sources line \<noteq> 0)"

lemma active_sources_empty: "active_sources line = {} \<longleftrightarrow> sources line = 0"
  by (auto simp: active_sources_def intro: bit_eqI)

text \<open>The line after \<open>source\<close> has changed its level.\<close>
definition with_source :: "shared_irq_line \<Rightarrow> u32 \<Rightarrow> bool \<Rightarrow> shared_irq_line" where
  "with_source line source active =
     line\<lparr>sources := if active then sources line OR scast (push_bit (unat source) 1 :: 32 word)
                    else sources line AND scast (NOT (push_bit (unat source) 1) :: 32 word)\<rparr>"

lemma with_source_keeps [simp]:
  "shared_vcpu (with_source line source active) = shared_vcpu line"
  "shared_irq (with_source line source active) = shared_irq line"
  by (simp_all add: with_source_def)

lemma with_source_sources:
  "sources (with_source line source active) =
     (if active then sources line OR scast (push_bit (unat source) 1 :: 32 word)
      else sources line AND scast (NOT (push_bit (unat source) 1) :: 32 word))"
  by (simp add: with_source_def)

lemma with_source_active:
  assumes "source < 31"
  shows "active_sources (with_source line source active) =
     (if active then insert (unat source) (active_sources line) else active_sources line - {unat source})"
proof (cases active)
  case True
  then have "bit (sources (with_source line source active)) k \<longleftrightarrow> bit (sources line) k \<or> k = unat source" for k
    using scast_bits(1) [OF assms] by (simp only: with_source_sources if_True bit_or_iff)
  with True show ?thesis by (auto simp: active_sources_def)
next
  case False
  then have "bit (sources (with_source line source active)) k \<longleftrightarrow> bit (sources line) k \<and> k < 64 \<and> k \<noteq> unat source" for k
    using scast_bits(2) [OF assms] by (simp only: with_source_sources if_False bit_and_iff)
  moreover have "k < 64" if "bit (sources line) k" for k
    using bit_imp_le_length [OF that] by simp
  ultimately show ?thesis
    unfolding active_sources_def using False by (simp add: set_eq_iff) blast
qed

lemma change_with_source:
  assumes "source < 31"
  shows "shared_irq_line_change E line source active vm =
       (if (sources line \<noteq> 0) = (sources (with_source line source active) \<noteq> 0)
        then Inr (0, with_source line source active, vm)
        else case vm_set_irq_level E (shared_vcpu line) (shared_irq line)
                    (sources (with_source line source active) \<noteq> 0) vm of
          (err, vm) \<Rightarrow> Inr (err, with_source line source active, vm))"
proof -
  have "\<not> 64 \<le> source" "int_one_shift source = Inr (push_bit (unat source) 1)"
    using assms by (simp_all add: word_less_nat_alt word_le_nat_alt int_one_shift_def)
  moreover have "(if active then line\<lparr>sources := sources line OR scast (push_bit (unat source) 1 :: 32 word)\<rparr>
      else line\<lparr>sources := sources line AND scast (NOT (push_bit (unat source) 1) :: 32 word)\<rparr>)
      = with_source line source active"
    by (cases active) (simp_all only: with_source_def if_True if_False)
  ultimately show ?thesis
    by (simp only: shared_irq_line_change_def if_False Let_def res_bind_Inr with_source_keeps)
qed

lemma shared_change:
  assumes E: "irq_spec E level" and sync: "line_synced level line vm" and src: "source < 31"
  obtains rc line' vm' where "shared_irq_line_change E line source active vm = Inr (rc, line', vm')"
    "active_sources line' =
       (if active then insert (unat source) (active_sources line) else active_sources line - {unat source})"
    "shared_vcpu line' = shared_vcpu line" "shared_irq line' = shared_irq line"
    "rc = 0 \<Longrightarrow> line_synced level line' vm'"
    "\<And>v i. (v, i) \<noteq> (shared_vcpu line, shared_irq line) \<Longrightarrow> level vm' v i = level vm v i"
proof -
  let ?line = "with_source line source active"
  note ch = with_source_active [OF src, of line active] change_with_source [OF src, of E line active vm]
  note keep = with_source_keeps [of line source active]
  obtain err vm1 where set: "vm_set_irq_level E (shared_vcpu line) (shared_irq line) (sources ?line \<noteq> 0) vm = (err, vm1)"
    by fastforce
  show thesis
  proof (cases "(sources line \<noteq> 0) = (sources ?line \<noteq> 0)")
    case True
    with that [OF _ ch(1) keep, of 0 vm] ch(2) sync keep show thesis by (simp add: line_synced_def)
  next
    case False
    note lev = irq_specD(1) [OF E set]
    show thesis
    proof (rule that [OF _ ch(1) keep, of err vm1])
      show "shared_irq_line_change E line source active vm = Inr (err, ?line, vm1)"
        using False by (simp only: ch(2) set if_False prod.case)
      show "line_synced level ?line vm1" if "err = 0"
        using that by (simp add: line_synced_def lev)
      show "level vm1 v i = level vm v i" if "(v, i) \<noteq> (shared_vcpu line, shared_irq line)" for v i
        using that by (auto simp: lev)
    qed
  qed
qed

section \<open>The contract of a shared line\<close>

text \<open>The sources after a sequence of changes.\<close>
definition apply_changes :: "(nat \<times> bool) list \<Rightarrow> nat set \<Rightarrow> nat set" where
  "apply_changes cs A = fold (\<lambda>(k, b) A. if b then insert k A else A - {k}) cs A"

fun change_all :: "('s \<Rightarrow> nat \<Rightarrow> bool \<Rightarrow> (int \<times> 's) res) \<Rightarrow> 's \<Rightarrow> (nat \<times> bool) list \<Rightarrow> (int \<times> 's) res" where
  "change_all change s [] = Inr (0, s)"
| "change_all change s ((k, b) # cs) =
     res_bind (change s k b) (\<lambda>(rc, s). if rc \<noteq> 0 then Inr (rc, s) else change_all change s cs)"

locale wired_or =
  fixes change :: "'s \<Rightarrow> nat \<Rightarrow> bool \<Rightarrow> (int \<times> 's) res"
    and active :: "'s \<Rightarrow> nat set"
    and asserted :: "'s \<Rightarrow> bool"
    and ok :: "'s \<Rightarrow> bool"
    and num :: nat
  assumes level: "ok s \<Longrightarrow> asserted s \<longleftrightarrow> active s \<noteq> {}"
    and change_source: "ok s \<Longrightarrow> k < num \<Longrightarrow>
      \<exists>rc s'. change s k b = Inr (rc, s') \<and> active s' = (if b then insert k (active s) else active s - {k})
        \<and> (rc = 0 \<longrightarrow> ok s')"
begin

lemma change_all_sources:
  "ok s \<Longrightarrow> \<forall>(k, b) \<in> set cs. k < num \<Longrightarrow>
   \<exists>rc s'. change_all change s cs = Inr (rc, s') \<and> (rc = 0 \<longrightarrow> ok s' \<and> active s' = apply_changes cs (active s))"
proof (induction cs arbitrary: s)
  case Nil
  then show ?case by (simp add: apply_changes_def)
next
  case (Cons c cs)
  obtain k b where c: "c = (k, b)" by (cases c)
  with Cons.prems change_source [of s k b] obtain rc s1 where
    s1: "change s k b = Inr (rc, s1)" "active s1 = (if b then insert k (active s) else active s - {k})"
      "rc = 0 \<longrightarrow> ok s1" by auto
  with Cons.prems Cons.IH [of s1] show ?case by (auto simp: c apply_changes_def)
qed

text \<open>After any sequence of changes the line is asserted iff some source still asserts it.\<close>
lemma change_all_level:
  assumes "ok s" "\<forall>(k, b) \<in> set cs. k < num"
  shows "\<exists>rc s'. change_all change s cs = Inr (rc, s')
    \<and> (rc = 0 \<longrightarrow> asserted s' = (apply_changes cs (active s) \<noteq> {}))"
  using change_all_sources [OF assms] level by fastforce

end

text \<open>A shared line with the machine it is on, and what the machine's calls mean.\<close>
type_synonym 'vm shared_on = "'vm vm_ops \<times> ('vm \<Rightarrow> nat \<Rightarrow> u32 \<Rightarrow> bool) \<times> shared_irq_line \<times> 'vm"

definition on_change :: "'vm shared_on \<Rightarrow> nat \<Rightarrow> bool \<Rightarrow> (int \<times> 'vm shared_on) res" where
  "on_change s k b = (case s of (E, level, line, vm) \<Rightarrow>
     res_bind (shared_irq_line_change E line (of_nat k) b vm) (\<lambda>(rc, line, vm). Inr (rc, E, level, line, vm)))"

definition on_active :: "'vm shared_on \<Rightarrow> nat set" where
  "on_active s = (case s of (E, level, line, vm) \<Rightarrow> active_sources line)"

definition on_asserted :: "'vm shared_on \<Rightarrow> bool" where
  "on_asserted s = (case s of (E, level, line, vm) \<Rightarrow> level vm (shared_vcpu line) (shared_irq line))"

definition on_ok :: "'vm shared_on \<Rightarrow> bool" where
  "on_ok s = (case s of (E, level, line, vm) \<Rightarrow> irq_spec E level \<and> line_synced level line vm)"

lemmas on_defs = on_change_def on_active_def on_asserted_def on_ok_def

interpretation sline: wired_or on_change on_active on_asserted on_ok 31
proof unfold_locales
  fix s :: "'a shared_on" and k :: nat and b :: bool
  obtain E level line vm where s: "s = (E, level, line, vm)" by (cases s)
  assume ok: "on_ok s"
  then show "on_asserted s = (on_active s \<noteq> {})"
    by (simp add: s on_defs line_synced_def active_sources_empty)
  assume "k < 31"
  then have k: "(of_nat k :: u32) < 31" "unat (of_nat k :: u32) = k"
    by (simp_all add: word_less_nat_alt unat_of_nat)
  show "\<exists>rc s'. on_change s k b = Inr (rc, s')
      \<and> on_active s' = (if b then insert k (on_active s) else on_active s - {k}) \<and> (rc = 0 \<longrightarrow> on_ok s')"
    by (rule shared_change [of E level line vm "of_nat k" b]) (use ok k in \<open>auto simp: s on_defs\<close>)
qed

lemma on_change_step:
  "on_change (E, level, line, vm) k b =
     res_bind (shared_irq_line_change E line (of_nat k) b vm) (\<lambda>(rc, line, vm). Inr (rc, E, level, line, vm))"
  by (simp add: on_change_def)

lemma change_all_on:
  "change_all on_change (E, level, line, vm) cs = Inr (rc, s') \<Longrightarrow>
   \<exists>line' vm'. s' = (E, level, line', vm') \<and> shared_vcpu line' = shared_vcpu line \<and> shared_irq line' = shared_irq line"
proof (induction cs arbitrary: line vm)
  case Nil
  then show ?case by auto
next
  case (Cons c cs)
  obtain k b where c: "c = (k, b)" by (cases c)
  from Cons.prems obtain rc1 line1 vm1 where
    ch: "shared_irq_line_change E line (of_nat k) b vm = Inr (rc1, line1, vm1)"
    and rest: "rc1 \<noteq> 0 \<and> s' = (E, level, line1, vm1) \<or> change_all on_change (E, level, line1, vm1) cs = Inr (rc, s')"
    by (auto simp: c on_change_step res_simps split: if_splits)
  have "shared_vcpu line1 = shared_vcpu line" "shared_irq line1 = shared_irq line"
    using ch by (auto simp: shared_irq_line_change_def Let_def res_simps split: if_splits prod.splits)
  with rest Cons.IH [of line1 vm1] show ?case by auto
qed

text \<open>Sources the shift is not defined for.\<close>
lemma high_source_undefined:
  assumes "31 \<le> source" "source < 64"
  shows "shared_irq_line_change E line source active vm = Inl Undefined_Shift"
proof -
  from assms have "\<not> 64 \<le> source" "\<not> source < 31" by simp_all
  then show ?thesis
    by (simp only: shared_irq_line_change_def int_one_shift_def if_False Let_def res_bind_Inl)
qed

section \<open>Properties\<close>



text \<open>
  A source index from 31 to 63 is accepted by the range check of
  \<open>shared_irq_line_change\<close> but makes its shift undefined, although the interface promises
  64 sources.
\<close>
lemma shared_line_high_source:
  assumes "31 \<le> source" "source < 64"
  shows "shared_irq_line_change E line source active vm = Inl Undefined_Shift"
  using assms by (rule high_source_undefined)

text \<open>
  A failed injection is forgotten: if the first source to assert an idle line gets an
  error from the interrupt controller, a second source that asserts the line later is told
  the call succeeded, no injection is attempted, and the guest's interrupt stays low.
\<close>
lemma shared_line_lost_interrupt:
  assumes "irq_spec E level" "line_synced level line vm" "sources line = 0" "a < 31" "b < 31"
    and "shared_irq_line_change E line a True vm = Inr (rc, line1, vm1)" "rc \<noteq> 0"
  shows "\<exists>line2. shared_irq_line_change E line1 b True vm1 = Inr (0, line2, vm1)
    \<and> active_sources line2 \<noteq> {} \<and> \<not> level vm1 (shared_vcpu line2) (shared_irq line2)"
proof -
  have ne: "sources (with_source l k True) \<noteq> 0" if "k < 31" for l k
    using with_source_active [OF that, of l True] active_sources_empty [of "with_source l k True"] by auto
  have a: "line1 = with_source line a True"
    "vm_set_irq_level E (shared_vcpu line) (shared_irq line) True vm = (rc, vm1)"
    using assms(3,6,7) ne [OF assms(4), of line] change_with_source [OF assms(4), of E line True vm]
    by (auto split: if_splits prod.splits)
  have "\<not> level vm1 (shared_vcpu line) (shared_irq line)"
    using irq_specD(1) [OF assms(1) a(2)] assms(2,3,7) by (simp add: line_synced_def)
  then show ?thesis
    using a(1) ne [OF assms(4), of line] ne [OF assms(5), of line1] active_sources_empty
      change_with_source [OF assms(5), of E line1 True vm1]
    by auto
qed

end
