(* ===== verification/Gicv2m.thy ===== *)
theory Gicv2m
  imports Irq_Line Rpc_Msg Msg_Pool
begin

unbundle bit_operations_syntax

text \<open>
  The GICv2m frame of \<open>src/gicv2m.c\<close> that turns guest writes into message-signalled
  interrupts, and the platform glue of \<open>src/plat/*/msi.c\<close> and \<open>src/msi.c\<close>: register reads
  and writes, the fault handler, injection of an interrupt by number, initialisation, and
  the RPC handler for the interrupts of the frame's range.
\<close>

section \<open>Definitions\<close>

definition RPCMSG_RC_ERROR :: int where "RPCMSG_RC_ERROR = -1"
definition RPCMSG_RC_NONE :: int where "RPCMSG_RC_NONE = 0"
definition RPCMSG_RC_HANDLED :: int where "RPCMSG_RC_HANDLED = 1"

definition V2M_MSI_TYPER :: u64 where "V2M_MSI_TYPER = 0x008"
definition V2M_MSI_SETSPI_NS :: u64 where "V2M_MSI_SETSPI_NS = 0x040"
definition V2M_MSI_IIDR :: u64 where "V2M_MSI_IIDR = 0xFCC"
definition V2M_IIDR0 :: u64 where "V2M_IIDR0 = 0xFD0"
definition V2M_IIDR11 :: u64 where "V2M_IIDR11 = 0xFFC"

definition GICV2M_IRQ_MAX :: nat where "GICV2M_IRQ_MAX = 128"

record gicv2m =
  v2m_base :: u64
  v2m_size :: u64
  v2m_irq :: "irq_line list"
  irq_base :: u32
  num_irq :: u32

text \<open>Whether the read is handled, and the new content of \<open>*data\<close>.\<close>
definition v2m_read_fault :: "gicv2m \<Rightarrow> u64 \<Rightarrow> u64 \<Rightarrow> u32 \<Rightarrow> bool \<times> u32" where
  "v2m_read_fault s paddr len data =
     (if len \<noteq> 4 then (False, data)
      else
        let reg = paddr - v2m_base s in
        if reg = V2M_MSI_TYPER then (True, push_bit 16 (irq_base s) OR num_irq s)
        else if reg = V2M_MSI_IIDR then (True, push_bit 20 0x53)
        else if V2M_IIDR0 \<le> reg \<and> reg \<le> V2M_IIDR11 then (True, 0)
        else (False, data))"

text \<open>\<open>&s->irq[i]\<close>, with the bounds of the array.\<close>
definition v2m_line :: "gicv2m \<Rightarrow> u32 \<Rightarrow> irq_line res" where
  "v2m_line s i = (if unat i < length (v2m_irq s) then Inr (v2m_irq s ! unat i) else Inl Out_Of_Bounds)"

definition v2m_write_fault :: "'vm vm_ops \<Rightarrow> gicv2m \<Rightarrow> u64 \<Rightarrow> u64 \<Rightarrow> u32 \<Rightarrow> 'vm \<Rightarrow> (bool \<times> 'vm) res" where
  "v2m_write_fault E s paddr len data vm =
     (if len \<noteq> 2 \<and> len \<noteq> 4 then Inr (False, vm)
      else if paddr - v2m_base s = V2M_MSI_SETSPI_NS then
        let spi = (data AND 0x3ff) - irq_base s in
        if spi < num_irq s then
          res_bind (v2m_line s spi) (\<lambda>line.
            case irq_line_pulse E line vm of (err, vm) \<Rightarrow> Inr (err = 0, vm))
        else Inr (True, vm)
      else Inr (False, vm))"

definition v2m_fault_handler ::
  "'vm vm_ops \<Rightarrow> gicv2m \<Rightarrow> nat \<Rightarrow> u64 \<Rightarrow> u64 \<Rightarrow> 'vm \<Rightarrow> (memory_fault_result \<times> 'vm) res" where
  "v2m_fault_handler E s vcpu paddr len vm =
     res_bind
       (if is_vcpu_read_fault E vcpu vm then
          (case v2m_read_fault s paddr len 0 of (handled, val) \<Rightarrow>
             Inr (handled, set_vcpu_fault_data E vcpu (ucast val) vm))
        else
          (let val = ucast (emulate_vcpu_fault E vcpu 0 vm) in v2m_write_fault E s paddr len val vm))
       (\<lambda>(fault_handled, vm).
          if \<not> fault_handled then Inr (FAULT_UNHANDLED, vm)
          else Inr (FAULT_HANDLED, advance_vcpu_fault E vcpu vm))"

definition v2m_irq_valid :: "gicv2m \<Rightarrow> u32 \<Rightarrow> bool" where
  "v2m_irq_valid s irq \<longleftrightarrow> irq_base s \<le> irq \<and> irq < irq_base s + num_irq s"

definition v2m_inject_irq :: "'vm vm_ops \<Rightarrow> gicv2m \<Rightarrow> u32 \<Rightarrow> 'vm \<Rightarrow> (int \<times> 'vm) res" where
  "v2m_inject_irq E s irq vm =
     (if \<not> v2m_irq_valid s irq then Inr (-1, vm)
      else res_bind (v2m_line s (irq - irq_base s)) (\<lambda>line. Inr (irq_line_pulse E line vm)))"

text \<open>
  The loop of \<open>v2m_init\<close> from index \<open>i\<close> on: an error of \<open>irq_line_init\<close> stops it. \<open>self\<close> is the
  address of the frame, the cookie of its lines.
\<close>
function v2m_init_irqs :: "'vm vm_ops \<Rightarrow> nat \<Rightarrow> gicv2m \<Rightarrow> nat \<Rightarrow> 'vm \<Rightarrow> (int \<times> gicv2m \<times> 'vm) res" where
  "v2m_init_irqs E self s i vm =
     (if i < unat (num_irq s) then
        res_bind (v2m_line s (of_nat i)) (\<lambda>line.
          case irq_line_init E line BOOT_VCPU (irq_base s + of_nat i) self vm of (err, line, vm) \<Rightarrow>
            let s = s\<lparr>v2m_irq := (v2m_irq s)[i := line]\<rparr> in
            if err \<noteq> 0 then Inr (err, s, vm) else v2m_init_irqs E self s (Suc i) vm)
      else Inr (0, s, vm))"
  by pat_completeness auto
termination
  by (relation "measure (\<lambda>(E, self, s, i, vm). unat (num_irq s) - i)") auto

declare v2m_init_irqs.simps [simp del]

definition v2m_init :: "'vm vm_ops \<Rightarrow> nat \<Rightarrow> gicv2m \<Rightarrow> 'vm \<Rightarrow> (int \<times> gicv2m \<times> 'vm) res" where
  "v2m_init E self s vm =
     (if of_nat GICV2M_IRQ_MAX < num_irq s then Inr (-1, s, vm)
      else if 1020 < irq_base s + num_irq s then Inr (-1, s, vm)
      else res_bind (v2m_init_irqs E self s 0 vm) (\<lambda>(err, s, vm).
        if err \<noteq> 0 then Inr (err, s, vm)
        else case vm_reserve_memory_at E (v2m_base s) (v2m_size s) V2m_Fault_Handler self vm of (r, vm) \<Rightarrow>
          Inr (if r = None then -1 else 0, s, vm)))"

definition v2m_lines :: "irq_line list" where
  "v2m_lines = replicate GICV2M_IRQ_MAX \<lparr>line_vcpu = 0, line_irq = 0, line_cookie = 0\<rparr>"

definition v2m_rpi4 :: gicv2m where
  "v2m_rpi4 = \<lparr>v2m_base = 0x08021000, v2m_size = 0x1000, v2m_irq = v2m_lines, irq_base = 144, num_irq = 32\<rparr>"

definition v2m_qemu_arm_virt :: gicv2m where
  "v2m_qemu_arm_virt = \<lparr>v2m_base = 0x08020000, v2m_size = 0x1000, v2m_irq = v2m_lines, irq_base = 96, num_irq = 32\<rparr>"

definition msi_irq_set :: "'vm vm_ops \<Rightarrow> gicv2m \<Rightarrow> u32 \<Rightarrow> u32 \<Rightarrow> 'vm \<Rightarrow> (int \<times> 'vm) res" where
  "msi_irq_set E v2m irq op vm =
     (if \<not> v2m_irq_valid v2m irq then Inr (RPCMSG_RC_NONE, vm)
      else if op = ucast RPC_IRQ_SET \<or> op = ucast RPC_IRQ_PULSE then
        res_bind (v2m_inject_irq E v2m irq vm) (\<lambda>(rc, vm).
          Inr (if rc \<noteq> 0 then RPCMSG_RC_ERROR else RPCMSG_RC_HANDLED, vm))
      else if op = ucast RPC_IRQ_CLR then Inr (RPCMSG_RC_HANDLED, vm)
      else Inr (RPCMSG_RC_ERROR, vm))"

definition handle_msi :: "'vm vm_ops \<Rightarrow> gicv2m \<Rightarrow> u32 \<Rightarrow> rpcmsg \<Rightarrow> 'vm \<Rightarrow> (int \<times> 'vm) res" where
  "handle_msi E v2m op msg vm =
     (if op = QEMU_OP_SET_IRQ then msi_irq_set E v2m (ucast (mr1 msg)) (ucast (mr2 msg)) vm
      else Inr (RPCMSG_RC_NONE, vm))"

definition msi_init :: "'vm vm_ops \<Rightarrow> nat \<Rightarrow> gicv2m \<Rightarrow> 'vm \<Rightarrow> (int \<times> gicv2m \<times> 'vm) res" where
  "msi_init E self v2m vm = v2m_init E self v2m vm"

text \<open>The stubs of \<open>src/msi.c\<close> for platforms without message-signalled interrupts.\<close>
definition handle_msi_weak :: "u32 \<Rightarrow> rpcmsg \<Rightarrow> 'vm \<Rightarrow> (int \<times> 'vm) res" where
  "handle_msi_weak op msg vm = Inr (RPCMSG_RC_NONE, vm)"

definition msi_init_weak :: "'vm \<Rightarrow> (int \<times> 'vm) res" where
  "msi_init_weak vm = Inr (0, vm)"

section \<open>Initialisation\<close>

text \<open>
  A frame whose range does not wrap and stays below 1020, with room in the array; and one
  whose lines are set up.
\<close>
definition v2m_range_ok :: "gicv2m \<Rightarrow> bool" where
  "v2m_range_ok s \<longleftrightarrow> unat (num_irq s) \<le> GICV2M_IRQ_MAX \<and> unat (irq_base s) + unat (num_irq s) \<le> 1020
     \<and> length (v2m_irq s) = GICV2M_IRQ_MAX"

definition v2m_ok :: "gicv2m \<Rightarrow> bool" where
  "v2m_ok s \<longleftrightarrow> v2m_range_ok s
     \<and> (\<forall>i < unat (num_irq s). line_vcpu (v2m_irq s ! i) = BOOT_VCPU \<and> line_irq (v2m_irq s ! i) = irq_base s + of_nat i)"

lemma v2m_line_ok: "v2m_range_ok s \<Longrightarrow> i < unat (num_irq s) \<Longrightarrow> v2m_line s (of_nat i) = Inr (v2m_irq s ! i)"
  by (simp add: v2m_line_def v2m_range_ok_def GICV2M_IRQ_MAX_def unat_of_nat)

lemma irq_line_init_line:
  "irq_line_init E line vcpu irq cookie vm = (rc, line', vm') \<Longrightarrow>
     line' = \<lparr>line_vcpu = vcpu, line_irq = irq, line_cookie = cookie\<rparr> \<and> rc \<in> {0, -1}"
  by (auto simp: irq_line_init_def Let_def split: prod.splits if_splits)

lemma v2m_init_irqs_ok:
  assumes "v2m_range_ok s"
    and "\<forall>j < i. line_vcpu (v2m_irq s ! j) = BOOT_VCPU \<and> line_irq (v2m_irq s ! j) = irq_base s + of_nat j"
  shows "\<exists>rc s' vm'. v2m_init_irqs E self s i vm = Inr (rc, s', vm')
    \<and> s'\<lparr>v2m_irq := []\<rparr> = s\<lparr>v2m_irq := []\<rparr> \<and> (rc = 0 \<longrightarrow> v2m_ok s')"
  using assms
proof (induction E self s i vm rule: v2m_init_irqs.induct)
  case (1 E self s i vm)
  show ?case
  proof (cases "i < unat (num_irq s)")
    case False
    with "1.prems" show ?thesis by (simp add: v2m_init_irqs.simps v2m_ok_def)
  next
    case True
    obtain rc line vm1 where init:
      "irq_line_init E (v2m_irq s ! i) BOOT_VCPU (irq_base s + of_nat i) self vm = (rc, line, vm1)"
      by (metis prod_cases3)
    note line = irq_line_init_line [OF init]
    let ?s = "s\<lparr>v2m_irq := (v2m_irq s)[i := line]\<rparr>"
    have range: "v2m_range_ok ?s" using "1.prems"(1) by (simp add: v2m_range_ok_def)
    have lines: "\<forall>j < Suc i. line_vcpu (v2m_irq ?s ! j) = BOOT_VCPU \<and> line_irq (v2m_irq ?s ! j) = irq_base ?s + of_nat j"
      using "1.prems" True line by (auto simp: nth_list_update less_Suc_eq v2m_range_ok_def)
    note step = v2m_init_irqs.simps [of E self s i vm]
    show ?thesis
    proof (cases "rc = 0")
      case False
      with True init v2m_line_ok [OF "1.prems"(1) True] show ?thesis by (simp add: step)
    next
      case ok: True
      note eqs = v2m_line_ok [OF "1.prems"(1) True]
      from "1.IH" [OF True eqs init [symmetric] refl refl _ range lines] ok
      obtain rc' s' vm' where "v2m_init_irqs E self ?s (Suc i) vm1 = Inr (rc', s', vm')"
        "s'\<lparr>v2m_irq := []\<rparr> = s\<lparr>v2m_irq := []\<rparr>" "rc' = 0 \<longrightarrow> v2m_ok s'" by auto
      with True init eqs ok show ?thesis by (simp add: step)
    qed
  qed
qed

text \<open>Setting the frame up changes no interrupt.\<close>
lemma v2m_init_irqs_level:
  "irq_spec E level \<Longrightarrow> v2m_init_irqs E self s i vm = Inr (rc, s', vm') \<Longrightarrow> level vm' = level vm"
proof (induction E self s i vm arbitrary: rc s' vm' rule: v2m_init_irqs.induct)
  case (1 E self s i vm)
  have init: "level vm1 = level vm" if "irq_line_init E line v n self vm = (e, l', vm1)" for line v n e l' vm1
    using that irq_specD(2) [OF "1.prems"(1)] by (auto simp: irq_line_init_def Let_def split: prod.splits if_splits)
  note step = v2m_init_irqs.simps [of E self s i vm]
  show ?case
  proof (cases "i < unat (num_irq s)")
    case True
    then obtain line where line: "v2m_line s (of_nat i) = Inr line"
      using "1.prems"(2) by (auto simp: step res_simps)
    obtain e l' vm1 where run: "irq_line_init E line BOOT_VCPU (irq_base s + of_nat i) self vm = (e, l', vm1)"
      by (metis prod_cases3)
    show ?thesis
    proof (cases "e = 0")
      case ok: True
      then have "v2m_init_irqs E self (s\<lparr>v2m_irq := (v2m_irq s)[i := l']\<rparr>) (Suc i) vm1 = Inr (rc, s', vm')"
        using "1.prems"(2) True line run by (simp add: step)
      from "1.IH" [OF True line run [symmetric] refl refl _ "1.prems"(1) this] ok init [OF run] show ?thesis by simp
    qed (use "1.prems"(2) True line run init [OF run] in \<open>simp add: step\<close>)
  qed (use "1.prems"(2) in \<open>simp add: step\<close>)
qed

lemma v2m_init_level:
  assumes "irq_spec E level" "v2m_init E self s vm = Inr (rc, s', vm')"
  shows "level vm' = level vm"
proof (cases "v2m_init_irqs E self s 0 vm")
  case (Inr y)
  then obtain e s1 vm1 where run: "v2m_init_irqs E self s 0 vm = Inr (e, s1, vm1)" by (cases y) auto
  obtain r vm2 where res: "vm_reserve_memory_at E (v2m_base s1) (v2m_size s1) V2m_Fault_Handler self vm1 = (r, vm2)"
    by fastforce
  from assms(2) have "vm' = vm \<or> vm' = vm1 \<or> vm' = vm2"
    by (auto simp: v2m_init_def run res split: if_splits)
  with v2m_init_irqs_level [OF assms(1) run] irq_specD(4) [OF assms(1) res] show ?thesis by auto
qed (use assms(2) in \<open>auto simp: v2m_init_def split: if_splits\<close>)

lemma v2m_init_cases:
  assumes "unat (irq_base s) + unat (num_irq s) < 2 ^ 32" "length (v2m_irq s) = GICV2M_IRQ_MAX"
  shows "\<exists>rc s' vm'. v2m_init E self s vm = Inr (rc, s', vm')
    \<and> s'\<lparr>v2m_irq := []\<rparr> = s\<lparr>v2m_irq := []\<rparr> \<and> (rc = 0 \<longrightarrow> v2m_ok s')"
proof (cases "of_nat GICV2M_IRQ_MAX < num_irq s \<or> 1020 < irq_base s + num_irq s")
  case True
  then show ?thesis by (auto simp: v2m_init_def)
next
  case False
  have sum: "unat (irq_base s + num_irq s) = unat (irq_base s) + unat (num_irq s)"
    using assms(1) by (simp add: unat_word_ariths)
  have range: "v2m_range_ok s"
    using False assms sum
    by (simp add: v2m_range_ok_def GICV2M_IRQ_MAX_def not_less word_le_nat_alt)
  obtain rc s' vm' where run: "v2m_init_irqs E self s 0 vm = Inr (rc, s', vm')"
    "s'\<lparr>v2m_irq := []\<rparr> = s\<lparr>v2m_irq := []\<rparr>" "rc = 0 \<longrightarrow> v2m_ok s'"
    using v2m_init_irqs_ok [OF range, of 0 E self vm] by auto
  obtain r vm2 where res: "vm_reserve_memory_at E (v2m_base s') (v2m_size s') V2m_Fault_Handler self vm' = (r, vm2)"
    by fastforce
  with False run show ?thesis by (auto simp: v2m_init_def)
qed

section \<open>Interrupt numbers\<close>

lemma v2m_valid_iff:
  assumes "v2m_range_ok s"
  shows "v2m_irq_valid s irq \<longleftrightarrow>
    unat (irq_base s) \<le> unat irq \<and> unat irq < unat (irq_base s) + unat (num_irq s)"
proof -
  have "unat (irq_base s + num_irq s) = unat (irq_base s) + unat (num_irq s)"
    using assms by (simp add: unat_word_ariths v2m_range_ok_def)
  then show ?thesis by (simp add: v2m_irq_valid_def word_le_nat_alt word_less_nat_alt)
qed

text \<open>The unsigned subtraction of the write handler is the range check.\<close>
lemma v2m_spi_iff:
  assumes "v2m_range_ok s"
  shows "irq - irq_base s < num_irq s \<longleftrightarrow> v2m_irq_valid s irq"
proof (cases "irq_base s \<le> irq")
  case True
  then have "unat (irq - irq_base s) = unat irq - unat (irq_base s)"
    by (simp add: unat_sub)
  with True show ?thesis
    unfolding v2m_valid_iff [OF assms] word_less_nat_alt word_le_nat_alt by linarith
next
  case False
  then have less: "unat irq < unat (irq_base s)" by (simp add: word_le_nat_alt)
  have "unat (irq - irq_base s) = 2 ^ 32 + unat irq - unat (irq_base s)"
    using less unsigned_less [of "irq_base s"] by (simp add: unat_sub_if_size word_size)
  with less assms False show ?thesis
    unfolding v2m_range_ok_def GICV2M_IRQ_MAX_def
    by (auto simp: v2m_irq_valid_def word_less_nat_alt)
qed

lemma v2m_valid_line:
  assumes ok: "v2m_ok s" and valid: "v2m_irq_valid s irq"
  obtains line where "v2m_line s (irq - irq_base s) = Inr line" "line_vcpu line = BOOT_VCPU" "line_irq line = irq"
proof -
  have range: "v2m_range_ok s" using ok by (simp add: v2m_ok_def)
  have i: "unat (irq - irq_base s) < unat (num_irq s)"
    using v2m_spi_iff [OF range] valid by (simp add: word_less_nat_alt)
  have "v2m_line s (irq - irq_base s) = Inr (v2m_irq s ! unat (irq - irq_base s))"
    using v2m_line_ok [OF range i] by simp
  with that ok i show thesis by (simp add: v2m_ok_def)
qed

text \<open>Injection and the levels of the guest.\<close>
lemma v2m_inject_level:
  assumes "irq_spec E level" "v2m_ok s"
  shows "\<exists>rc vm'. v2m_inject_irq E s irq vm = Inr (rc, vm')
    \<and> (v2m_irq_valid s irq \<longrightarrow> rc = 0 \<longrightarrow> \<not> level vm' BOOT_VCPU irq
         \<and> (\<exists>vm1. vm_set_irq_level E BOOT_VCPU irq True vm = (0, vm1) \<and> level vm1 BOOT_VCPU irq
                \<and> vm_set_irq_level E BOOT_VCPU irq False vm1 = (0, vm')))
    \<and> (\<forall>v i. (v, i) \<noteq> (BOOT_VCPU, irq) \<longrightarrow> level vm' v i = level vm v i)
    \<and> (\<not> v2m_irq_valid s irq \<longrightarrow> rc = -1 \<and> vm' = vm)"
proof (cases "v2m_irq_valid s irq")
  case True
  with assms(2) obtain line where line: "v2m_line s (irq - irq_base s) = Inr line"
    "line_vcpu line = BOOT_VCPU" "line_irq line = irq" by (rule v2m_valid_line)
  obtain rc vm' where pulse: "irq_line_pulse E line vm = (rc, vm')" by fastforce
  have "v2m_inject_irq E s irq vm = Inr (rc, vm')"
    using True line(1) pulse by (simp add: v2m_inject_irq_def)
  moreover have "\<exists>vm1. vm_set_irq_level E BOOT_VCPU irq True vm = (0, vm1) \<and> level vm1 BOOT_VCPU irq
      \<and> vm_set_irq_level E BOOT_VCPU irq False vm1 = (0, vm')" if "rc = 0"
    using pulse line(2,3) that irq_specD(1) [OF assms(1), of BOOT_VCPU irq True vm 0 _ BOOT_VCPU irq]
    by (auto simp: irq_line_pulse_def split: prod.splits if_splits)
  ultimately show ?thesis using irq_line_pulse_level [OF assms(1) pulse] line(2,3) True by auto
next
  case False
  then show ?thesis by (simp add: v2m_inject_irq_def)
qed

section \<open>Properties\<close>

text \<open>
  C37. A guest write to the doorbell register and the backend's injection agree: with the
  interrupt number the write names (its low ten bits), the write has the effect of
  \<open>v2m_inject_irq\<close> if the number is in the frame's range and none otherwise, and no access
  is outside the line array.
\<close>
theorem v2m_write_is_injection:
  assumes "v2m_ok s" "len = 2 \<or> len = 4"
  shows "v2m_write_fault E s (v2m_base s + V2M_MSI_SETSPI_NS) len data vm =
    (let irq = data AND 0x3ff in
     if v2m_irq_valid s irq
     then res_bind (v2m_inject_irq E s irq vm) (\<lambda>(rc, vm). Inr (rc = 0, vm))
     else Inr (True, vm))"
proof (cases "v2m_irq_valid s (data AND 0x3ff)")
  case True
  show ?thesis
    by (rule v2m_valid_line [OF assms(1) True])
      (use True assms v2m_spi_iff [of s "data AND 0x3ff"] in
        \<open>auto simp: v2m_write_fault_def v2m_inject_irq_def v2m_ok_def Let_def split: prod.split\<close>)
next
  case False
  then show ?thesis
    using assms v2m_spi_iff [of s "data AND 0x3ff"]
    by (auto simp: v2m_write_fault_def v2m_ok_def Let_def)
qed

text \<open>The Raspberry Pi frame with its lines set up.\<close>
definition v2m_demo :: gicv2m where
  "v2m_demo = v2m_rpi4\<lparr>v2m_irq := map (\<lambda>i. \<lparr>line_vcpu = 0, line_irq = 144 + of_nat i, line_cookie = 0\<rparr>) [0..<128]\<rparr>"

lemma v2m_demo_ok: "v2m_ok v2m_demo"
  by (simp add: v2m_ok_def v2m_range_ok_def v2m_demo_def v2m_rpi4_def GICV2M_IRQ_MAX_def BOOT_VCPU_def)

theorem v2m_write_is_injection_witness:
  "v2m_irq_valid v2m_demo 150
   \<and> v2m_write_fault demo_ops v2m_demo (v2m_base v2m_demo + V2M_MSI_SETSPI_NS) 4 150 demo_vm0
     = res_bind (v2m_inject_irq demo_ops v2m_demo 150 demo_vm0) (\<lambda>(rc, vm). Inr (rc = 0, vm))"
proof -
  have "v2m_irq_valid v2m_demo 150" by (simp add: v2m_irq_valid_def v2m_demo_def v2m_rpi4_def)
  with v2m_write_is_injection [OF v2m_demo_ok, of 4 demo_ops 150 demo_vm0] show ?thesis
    by (simp add: Let_def)
qed

text \<open>
  Injection reaches exactly the named interrupt: on an initialised frame
  \<open>v2m_inject_irq\<close> of a number in range pulses that interrupt at the boot CPU: when it
  succeeds the interrupt was raised and then lowered. It leaves every other interrupt alone; a number out of range is
  refused without effect.
\<close>
lemma v2m_injects_named_irq:
  assumes "irq_spec E level" "v2m_ok s"
  shows "\<exists>rc vm'. v2m_inject_irq E s irq vm = Inr (rc, vm')
    \<and> (v2m_irq_valid s irq \<longrightarrow> rc = 0 \<longrightarrow> \<not> level vm' BOOT_VCPU irq
         \<and> (\<exists>vm1. vm_set_irq_level E BOOT_VCPU irq True vm = (0, vm1) \<and> level vm1 BOOT_VCPU irq
                \<and> vm_set_irq_level E BOOT_VCPU irq False vm1 = (0, vm')))
    \<and> (\<forall>v i. (v, i) \<noteq> (BOOT_VCPU, irq) \<longrightarrow> level vm' v i = level vm v i)
    \<and> (\<not> v2m_irq_valid s irq \<longrightarrow> rc = -1 \<and> vm' = vm)"
  using assms by (rule v2m_inject_level)

text \<open>
  Initialisation establishes the frame: on either platform configuration \<open>msi_init\<close>
  returns without touching memory outside the line array, and if it returns zero every
  line \<open>i\<close> is bound to interrupt \<open>irq_base + i\<close> of the boot CPU.
\<close>
lemma msi_init_ok:
  assumes "s = v2m_rpi4 \<or> s = v2m_qemu_arm_virt"
  shows "\<exists>rc s' vm'. msi_init E self s vm = Inr (rc, s', vm')
    \<and> s'\<lparr>v2m_irq := []\<rparr> = s\<lparr>v2m_irq := []\<rparr> \<and> (rc = 0 \<longrightarrow> v2m_ok s')"
proof -
  have "unat (irq_base s) + unat (num_irq s) < 2 ^ 32" "length (v2m_irq s) = GICV2M_IRQ_MAX"
    using assms by (auto simp: v2m_rpi4_def v2m_qemu_arm_virt_def v2m_lines_def)
  then show ?thesis unfolding msi_init_def by (rule v2m_init_cases)
qed

text \<open>
  The guest sees the frame it was given: a four-byte read of the type register returns
  the first interrupt number in bits 16 to 25 and the number of interrupts in bits 0 to 9,
  and that range is the one the frame injects.
\<close>
lemma v2m_typer_describes_range:
  assumes "v2m_range_ok s"
  shows "\<exists>val. v2m_read_fault s (v2m_base s + V2M_MSI_TYPER) 4 data = (True, val)
    \<and> (\<forall>irq. v2m_irq_valid s irq \<longleftrightarrow>
         (drop_bit 16 val AND 0x3ff) \<le> irq \<and> irq < (drop_bit 16 val AND 0x3ff) + (val AND 0x3ff))"
proof -
  let ?val = "push_bit 16 (irq_base s) OR num_irq s"
  have b: "unat (irq_base s) < 2 ^ 10" "unat (num_irq s) < 2 ^ 10"
    using assms by (simp_all add: v2m_range_ok_def GICV2M_IRQ_MAX_def)
  have m: "(0x3ff :: u32) = mask 10" by (simp add: mask_eq_exp_minus_1)
  have small: "bit (irq_base s) k \<Longrightarrow> k < 10" "bit (num_irq s) k \<Longrightarrow> k < 10" for k
    using and_mask_unat [OF b(1)] and_mask_unat [OF b(2)] by (metis bit_and_iff bit_mask_iff)+
  have "drop_bit 16 ?val AND mask 10 = irq_base s"
    by (rule bit_word_eqI) (auto simp: bit_simps dest: small)
  moreover have "?val AND mask 10 = num_irq s"
    by (rule bit_word_eqI) (auto simp: bit_simps dest: small)
  ultimately show ?thesis
    by (simp add: v2m_read_fault_def Let_def m v2m_irq_valid_def)
qed

end
