(* ===== verification/Queue_Init.thy ===== *)
theory Queue_Init
  imports Vso_Rpc Gicv2m
begin

unbundle bit_operations_syntax

text \<open>
  The initialisers of \<open>sel4/rpc_queue.h\<close> that open a queue in shared memory in one of its
  roles, the compile-time assertions on the layout of that memory, and the second copy of
  the MSI module, \<open>plat/qemu-arm-virt/msi.c\<close>.
\<close>

section \<open>Definitions\<close>

subsection \<open>Opening queues\<close>

text \<open>\<open>_rpcmsg_queue\<close>: the reference is filled in, then initialised as the flags say.\<close>
definition rpcmsg_queue_open :: "nat \<Rightarrow> nat \<Rightarrow> u32 \<Rightarrow> io_mem \<Rightarrow> rpcmsg_queue_ref \<times> io_mem" where
  "rpcmsg_queue_open b q flags w =
     (let ptr = \<lparr>ref_buffer = b, ref_queue = q\<rparr> in (ptr, rpcmsg_queue_ref_init ptr flags w))"

definition rpcmsg_event_txq :: "nat \<Rightarrow> nat \<Rightarrow> io_mem \<Rightarrow> rpcmsg_queue_ref \<times> io_mem" where
  "rpcmsg_event_txq b q = rpcmsg_queue_open b q RPCMSG_F_INIT_ALL"

definition rpcmsg_event_rxq :: "nat \<Rightarrow> nat \<Rightarrow> io_mem \<Rightarrow> rpcmsg_queue_ref \<times> io_mem" where
  "rpcmsg_event_rxq b q = rpcmsg_queue_open b q 0"

definition rpcmsg_event_txq_init :: "rpcmsg_queue_ref \<Rightarrow> io_mem \<Rightarrow> io_mem" where
  "rpcmsg_event_txq_init ptr = rpcmsg_queue_ref_init ptr RPCMSG_F_INIT_ALL"

definition rpcmsg_event_rxq_init :: "rpcmsg_queue_ref \<Rightarrow> io_mem \<Rightarrow> io_mem" where
  "rpcmsg_event_rxq_init ptr = rpcmsg_queue_ref_init ptr 0"

definition rpcmsg_recv_queue_init :: "rpcmsg_queue_ref \<Rightarrow> io_mem \<Rightarrow> io_mem" where
  "rpcmsg_recv_queue_init ptr = rpcmsg_queue_ref_init ptr 0"

definition rpcmsg_fwd_queue_init :: "rpcmsg_queue_ref \<Rightarrow> io_mem \<Rightarrow> io_mem" where
  "rpcmsg_fwd_queue_init ptr = rpcmsg_queue_ref_init ptr RPCMSG_F_INIT_QUEUE"

definition rpcmsg_call_queue :: "nat \<Rightarrow> nat \<Rightarrow> io_mem \<Rightarrow> rpcmsg_queue_ref \<times> io_mem" where
  "rpcmsg_call_queue b q = rpcmsg_queue_open b q RPCMSG_F_INIT_ALL"

definition rpcmsg_recv_queue :: "nat \<Rightarrow> nat \<Rightarrow> io_mem \<Rightarrow> rpcmsg_queue_ref \<times> io_mem" where
  "rpcmsg_recv_queue b q = rpcmsg_queue_open b q 0"

definition rpcmsg_fwd_queue :: "nat \<Rightarrow> nat \<Rightarrow> io_mem \<Rightarrow> rpcmsg_queue_ref \<times> io_mem" where
  "rpcmsg_fwd_queue b q = rpcmsg_queue_open b q RPCMSG_F_INIT_QUEUE"

definition rpcmsg_reply_queue :: "nat \<Rightarrow> nat \<Rightarrow> io_mem \<Rightarrow> rpcmsg_queue_ref \<times> io_mem" where
  "rpcmsg_reply_queue b q = rpcmsg_queue_open b q RPCMSG_F_INIT_QUEUE"

subsection \<open>Compile-time assertions\<close>

text \<open>The condition of the assertion on \<open>RPCMSG_BUFFER_SIZE\<close>, for any size.\<close>
definition buffer_size_assert :: "u32 \<Rightarrow> bool" where
  "buffer_size_assert n \<longleftrightarrow> n \<noteq> 0 \<or> n AND (n - 1) = 0"

definition IOBUF_NUM_PAGES :: nat where "IOBUF_NUM_PAGES = 2"

text \<open>
  \<open>sizeof\<close> on the 64-bit targets: a message is four words of 8 bytes, a marker 8 bytes, a bound
  two markers, a queue two bounds and 16 bits for each ring slot.
\<close>
definition sizeof_buffer :: nat where "sizeof_buffer = RPCMSG_BUFFER_SIZE * (4 * 8)"
definition sizeof_queue :: nat where "sizeof_queue = 2 * (2 * 8) + RPCMSG_BUFFER_SIZE * 2"
definition sizeof_iobuf :: nat where "sizeof_iobuf = iobuf_id_last * sizeof_buffer + queue_id_last * sizeof_queue"

definition iobuf_size_assert :: bool where
  "iobuf_size_assert \<longleftrightarrow> sizeof_iobuf < 4096 * IOBUF_NUM_PAGES"

subsection \<open>The MSI module of qemu-arm-virt\<close>

definition msi_irq_set_qemu :: "'vm vm_ops \<Rightarrow> gicv2m \<Rightarrow> u32 \<Rightarrow> u32 \<Rightarrow> 'vm \<Rightarrow> (int \<times> 'vm) res" where
  "msi_irq_set_qemu E v2m irq op vm =
     (if \<not> v2m_irq_valid v2m irq then Inr (RPCMSG_RC_NONE, vm)
      else if op \<in> {ucast RPC_IRQ_SET, ucast RPC_IRQ_PULSE} then
        (case v2m_inject_irq E v2m irq vm of Inl f \<Rightarrow> Inl f
         | Inr (err, vm) \<Rightarrow> if err \<noteq> 0 then Inr (RPCMSG_RC_ERROR, vm) else Inr (RPCMSG_RC_HANDLED, vm))
      else if op = ucast RPC_IRQ_CLR then Inr (RPCMSG_RC_HANDLED, vm)
      else Inr (RPCMSG_RC_ERROR, vm))"

definition handle_msi_qemu :: "'vm vm_ops \<Rightarrow> gicv2m \<Rightarrow> u32 \<Rightarrow> rpcmsg \<Rightarrow> 'vm \<Rightarrow> (int \<times> 'vm) res" where
  "handle_msi_qemu E v2m op msg vm =
     (if op = QEMU_OP_SET_IRQ then msi_irq_set_qemu E v2m (ucast (mr1 msg)) (ucast (mr2 msg)) vm else Inr (RPCMSG_RC_NONE, vm))"

definition msi_init_qemu :: "'vm vm_ops \<Rightarrow> nat \<Rightarrow> gicv2m \<Rightarrow> 'vm \<Rightarrow> (int \<times> gicv2m \<times> 'vm) res" where
  "msi_init_qemu E self v2m vm = v2m_init E self v2m vm"

section \<open>Facts\<close>

text \<open>The two platforms differ in their frame only.\<close>
lemma msi_platforms_agree: "handle_msi_qemu = (handle_msi :: 'a vm_ops \<Rightarrow> _)" "msi_init_qemu = msi_init"
proof -
  have "msi_irq_set_qemu E v2m irq op vm = msi_irq_set E v2m irq op vm" for E :: "'a vm_ops" and v2m irq op vm
    by (auto simp: msi_irq_set_qemu_def msi_irq_set_def res_bind_def split: sum.splits)
  then show "handle_msi_qemu = (handle_msi :: 'a vm_ops \<Rightarrow> _)" by (intro ext) (simp add: handle_msi_qemu_def handle_msi_def)
  show "msi_init_qemu = msi_init" by (intro ext) (simp add: msi_init_qemu_def msi_init_def)
qed

text \<open>The assertion on the buffer size holds for every size, a power of two or not.\<close>
lemma buffer_size_assert_vacuous: "buffer_size_assert n"
  by (simp add: buffer_size_assert_def)

lemma iobuf_fits: "iobuf_size_assert" "sizeof_iobuf = 2432"
  by (simp_all add: iobuf_size_assert_def sizeof_iobuf_def sizeof_buffer_def sizeof_queue_def IOBUF_NUM_PAGES_def
      RPCMSG_BUFFER_SIZE_def iobuf_id_last_def queue_id_last_def)

lemmas open_defs = rpcmsg_queue_open_def rpcmsg_queue_ref_init_def RPCMSG_F_INIT_ALL_def RPCMSG_F_INIT_BUFFER_def RPCMSG_F_INIT_QUEUE_def Let_def

text \<open>Opening an end that receives changes nothing; the other two kinds empty the queue.\<close>
lemma receiving_end:
  "rpcmsg_event_rxq b q w = (\<lparr>ref_buffer = b, ref_queue = q\<rparr>, w)" "rpcmsg_recv_queue b q w = (\<lparr>ref_buffer = b, ref_queue = q\<rparr>, w)"
  "rpcmsg_event_rxq_init ptr w = w" "rpcmsg_recv_queue_init ptr w = w"
  by (simp_all add: rpcmsg_event_rxq_def rpcmsg_recv_queue_def rpcmsg_event_rxq_init_def rpcmsg_recv_queue_init_def open_defs)

lemma answering_end:
  assumes "mem_ok w" "ref_queue ptr < 4" "w' = rpcmsg_fwd_queue_init ptr w"
  shows "queue_ok (q_at w' ptr)" "queue_slots (q_at w' ptr) = []" "b_at w' r = b_at w r"
    "ref_queue r \<noteq> ref_queue ptr \<Longrightarrow> q_at w' r = q_at w r" "rpcmsg_reply_queue_init ptr w = w'"
    "rpcmsg_fwd_queue (ref_buffer ptr) (ref_queue ptr) w = (ptr, w')" "rpcmsg_reply_queue (ref_buffer ptr) (ref_queue ptr) w = (ptr, w')"
proof -
  have "\<lparr>ref_buffer = ref_buffer ptr, ref_queue = ref_queue ptr\<rparr> = ptr" by simp
  note defs = rpcmsg_fwd_queue_init_def rpcmsg_reply_queue_init_def rpcmsg_fwd_queue_def rpcmsg_reply_queue_def open_defs this
  show "queue_ok (q_at w' ptr)" "queue_slots (q_at w' ptr) = []" "b_at w' r = b_at w r"
    "ref_queue r \<noteq> ref_queue ptr \<Longrightarrow> q_at w' r = q_at w r" "rpcmsg_reply_queue_init ptr w = w'"
    "rpcmsg_fwd_queue (ref_buffer ptr) (ref_queue ptr) w = (ptr, w')" "rpcmsg_reply_queue (ref_buffer ptr) (ref_queue ptr) w = (ptr, w')"
    using assms by (simp_all only: defs) simp_all
qed

lemma sending_end:
  assumes "mem_ok w" "b < 2" "q < 4" "rpcmsg_event_txq b q w = (r, w')"
  shows "event_ok (q_at w' r, b_at w' r)" "event_msgs (q_at w' r, b_at w' r) = []" "mem_ok w'" "r = \<lparr>ref_buffer = b, ref_queue = q\<rparr>"
    "rpcmsg_call_queue b q w = (r, w')" "rpcmsg_event_txq_init r w = w'"
  using assms
  by (auto simp: rpcmsg_event_txq_def rpcmsg_call_queue_def rpcmsg_event_txq_init_def open_defs event_ok_def event_msgs_def
      rpcmsg_buffer_init_def RPCMSG_BUFFER_SIZE_def)

section \<open>Properties\<close>

text \<open>
  A receiver may open an event queue late: after the sender has opened the queue, whatever
  the memory held, and has sent up to 32 messages, a receiver that opens it then gets
  exactly these messages in order; the sender opening the queue again discards them.
\<close>
lemma late_receiver_gets_events:
  assumes "mem_ok w" "b < 2" "q < 4" "rpcmsg_event_txq b q w = (r, w1)" "length ms \<le> 32"
  shows "\<exists>q2 b2 s. send_all event_send (q_at w1 r, b_at w1 r) ms = Inr (0, q2, b2)
    \<and> (let w2 = put_q r q2 (put_b r b2 w1) in
         (case rpcmsg_event_rxq b q w2 of (r', w3) \<Rightarrow> drain event_recv 32 (q_at w3 r', b_at w3 r')) = Inr (ms, s)
       \<and> (case rpcmsg_event_txq b q w2 of (r', w3) \<Rightarrow> event_msgs (q_at w3 r', b_at w3 r') = []))"
proof -
  note s = sending_end [OF assms(1-4)]
  obtain q2 b2 s where run: "send_all event_send (q_at w1 r, b_at w1 r) ms = Inr (0, q2, b2)"
    "drain event_recv 32 (q2, b2) = Inr (ms, s)" "event_ok (q2, b2)"
    using evq.send_all_fits [OF s(1)] evq.fifo_roundtrip [OF s(1,2)] assms(5) s(2) by force
  let ?w = "put_q r q2 (put_b r b2 w1)"
  have w: "mem_ok ?w" "q_at ?w r = q2" "b_at ?w r = b2" using s(3,4) assms(2,3) run(3) by (simp_all add: event_ok_def)
  obtain r' w3 where re: "rpcmsg_event_txq b q ?w = (r', w3)" by fastforce
  have again: "case rpcmsg_event_txq b q ?w of (r', w3) \<Rightarrow> event_msgs (q_at w3 r', b_at w3 r') = []"
    using sending_end(2) [OF w(1) assms(2,3) re] by (simp add: re)
  have late: "(case rpcmsg_event_rxq b q ?w of (r', w3) \<Rightarrow> drain event_recv 32 (q_at w3 r', b_at w3 r')) = Inr (ms, s)"
    using run(2) w(2,3) by (simp only: receiving_end prod.case s(4) [symmetric])
  from run(1) again late show ?thesis unfolding Let_def by (intro exI conjI)
qed

end
