(* ===== verification/Pl011.thy ===== *)
theory Pl011
  imports Vm_Env
begin

text \<open>
  The UART for early guest output: \<open>src/camkes/modules/pl011.c\<close> and its template. What
  \<open>putchar\<close> was given is a list.
\<close>

section \<open>Definitions\<close>

definition PL011_UARTDR :: u64 where "PL011_UARTDR = 0x00"
definition PL011_UARTFR :: u64 where "PL011_UARTFR = 0x18"

record pl011 =
  pl011_base :: u64
  pl011_size :: u64

text \<open>\<open>pl011.template.c\<close>: one page at the configured address; \<open>BIT(PAGE_BITS_4K)\<close>.\<close>
definition pl011_static :: "u64 \<Rightarrow> pl011" where
  "pl011_static base = \<lparr>pl011_base = base, pl011_size = 0x1000\<rparr>"

definition pl011_read_fault :: "'vm vm_ops \<Rightarrow> pl011 \<Rightarrow> nat \<Rightarrow> u64 \<Rightarrow> 'vm \<Rightarrow> bool \<times> 'vm" where
  "pl011_read_fault E p vcpu paddr vm =
     (if paddr - pl011_base p = PL011_UARTFR then (True, set_vcpu_fault_data E vcpu 0x90 vm) else (False, vm))"

text \<open>The character is the value converted to \<open>int\<close>: its low 32 bits.\<close>
definition pl011_write_fault :: "'vm vm_ops \<Rightarrow> pl011 \<Rightarrow> nat \<Rightarrow> u64 \<Rightarrow> u32 list \<Rightarrow> 'vm \<Rightarrow> bool \<times> u32 list" where
  "pl011_write_fault E p vcpu paddr out vm =
     (let value = emulate_vcpu_fault E vcpu 0 vm in
      if paddr - pl011_base p = PL011_UARTDR then (True, out @ [ucast value]) else (False, out))"

definition pl011_fault_handler ::
  "'vm vm_ops \<Rightarrow> pl011 \<Rightarrow> nat \<Rightarrow> u64 \<Rightarrow> u64 \<Rightarrow> u32 list \<Rightarrow> 'vm \<Rightarrow> memory_fault_result \<times> u32 list \<times> 'vm" where
  "pl011_fault_handler E p vcpu paddr len out vm =
     (let (fault_handled, out, vm) =
        (if is_vcpu_read_fault E vcpu vm then
           case pl011_read_fault E p vcpu paddr vm of (h, vm) \<Rightarrow> (h, out, vm)
         else case pl011_write_fault E p vcpu paddr out vm of (h, out) \<Rightarrow> (h, out, vm))
      in if \<not> fault_handled then (FAULT_UNHANDLED, out, vm)
         else (FAULT_HANDLED, out, advance_vcpu_fault E vcpu vm))"

definition pl011_init :: "'vm vm_ops \<Rightarrow> pl011 \<Rightarrow> nat \<Rightarrow> 'vm \<Rightarrow> 'vm res" where
  "pl011_init E p cookie vm =
     (case vm_reserve_memory_at E (pl011_base p) (pl011_size p) Pl011_Fault_Handler cookie vm of (res, vm) \<Rightarrow>
        if res = None then Inl Fatal else Inr vm)"

section \<open>Properties\<close>

text \<open>
  The UART prints what the guest writes: a write to the data register outputs the low 32
  bits of the value and the guest goes on; a read of the flag register gives the guest 0x90
  (transmitter empty) and it goes on; any other access is refused, outputs nothing and
  leaves the guest as it was.\<close>
lemma pl011_access:
  "pl011_fault_handler E p vcpu paddr len out vm =
     (if is_vcpu_read_fault E vcpu vm \<and> paddr = pl011_base p + 0x18 then
        (FAULT_HANDLED, out, advance_vcpu_fault E vcpu (set_vcpu_fault_data E vcpu 0x90 vm))
      else if \<not> is_vcpu_read_fault E vcpu vm \<and> paddr = pl011_base p then
        (FAULT_HANDLED, out @ [ucast (emulate_vcpu_fault E vcpu 0 vm)], advance_vcpu_fault E vcpu vm)
      else (FAULT_UNHANDLED, out, vm))"
  by (auto simp: pl011_fault_handler_def pl011_read_fault_def pl011_write_fault_def PL011_UARTDR_def PL011_UARTFR_def Let_def
      eq_diff_eq diff_eq_eq add.commute split: if_splits)

end
