(* ===== verification/Format.thy ===== *)
theory Format
  imports Machine
begin

text \<open>
  The part of \<open>snprintf\<close> and \<open>sprintf\<close> the program uses: strings, decimal and hexadecimal
  numbers, and the truncation to the size of the buffer. Numbers are printed by repeated
  division and read back by Horner's rule; the two are inverse for every radix up to 16.
\<close>

section \<open>Definitions\<close>

definition digits :: string where
  "digits = ''0123456789abcdef''"

function radix_str :: "nat \<Rightarrow> nat \<Rightarrow> string" where
  "radix_str b n =
     (if n < b \<or> b < 2 then [digits ! n] else radix_str b (n div b) @ [digits ! (n mod b)])"
  by pat_completeness auto
termination
  by (relation "measure snd") (auto simp: not_less)

declare radix_str.simps [simp del]

text \<open>\<open>%x\<close> and \<open>%u\<close>, also with their length modifiers.\<close>
definition fmt_x :: "'a::len word \<Rightarrow> string" where
  "fmt_x w = radix_str 16 (unat w)"

definition fmt_u :: "'a::len word \<Rightarrow> string" where
  "fmt_u w = radix_str 10 (unat w)"

text \<open>The return value of \<open>snprintf\<close> for the text \<open>s\<close>, and what the buffer of \<open>len > 0\<close> bytes holds.\<close>
definition snprintf :: "nat \<Rightarrow> string \<Rightarrow> int \<times> string" where
  "snprintf len s = (int (length s), take (len - 1) s)"

section \<open>Reading numbers back\<close>

fun digit_val :: "string \<Rightarrow> char \<Rightarrow> nat" where
  "digit_val [] c = 0"
| "digit_val (d # ds) c = (if c = d then 0 else Suc (digit_val ds c))"

definition radix_val :: "nat \<Rightarrow> string \<Rightarrow> nat" where
  "radix_val b = foldl (\<lambda>a c. a * b + digit_val digits c) 0"

lemma length_digits [simp]: "length digits = 16"
  by (simp add: digits_def)

lemma distinct_digits: "distinct digits"
  by (simp add: digits_def)

lemma digit_val_nth: "distinct ds \<Longrightarrow> i < length ds \<Longrightarrow> digit_val ds (ds ! i) = i"
proof (induction ds arbitrary: i)
  case (Cons d ds)
  then show ?case by (cases i) auto
qed simp

lemma digit_val_digit [simp]: "n < 16 \<Longrightarrow> digit_val digits (digits ! n) = n"
  by (simp add: digit_val_nth distinct_digits)

lemma radix_val_snoc: "radix_val b (s @ [c]) = radix_val b s * b + digit_val digits c"
  by (simp add: radix_val_def)

lemma mod_radix: "2 \<le> b \<Longrightarrow> b \<le> 16 \<Longrightarrow> n mod b < 16" for b :: nat
  by (rule less_le_trans [of _ b]) simp_all

lemma radix_roundtrip:
  assumes "2 \<le> b" "b \<le> 16"
  shows "radix_val b (radix_str b n) = n"
proof (induction n rule: less_induct)
  case (less n)
  show ?case
  proof (cases "n < b")
    case True
    with assms show ?thesis by (simp add: radix_str.simps [of b n] radix_val_def)
  next
    case False
    with assms have "n div b < n" by auto
    moreover have "n mod b < 16" by (rule mod_radix [OF assms])
    ultimately show ?thesis
      using False assms less.IH [of "n div b"] by (simp add: radix_str.simps [of b n] radix_val_snoc)
  qed
qed

lemma radix_str_inject: "2 \<le> b \<Longrightarrow> b \<le> 16 \<Longrightarrow> radix_str b m = radix_str b n \<longleftrightarrow> m = n"
  by (metis radix_roundtrip)

lemma fmt_inject [simp]: "fmt_x v = fmt_x w \<longleftrightarrow> v = w" "fmt_u v = fmt_u w \<longleftrightarrow> v = w"
  by (simp_all add: fmt_x_def fmt_u_def radix_str_inject word_unat_eq_iff)

lemma set_radix_str: "2 \<le> b \<Longrightarrow> b \<le> 16 \<Longrightarrow> set (radix_str b n) \<subseteq> set digits"
proof (induction n rule: less_induct)
  case (less n)
  have dig: "digits ! k \<in> set digits" if "k < 16" for k using that by simp
  show ?case
  proof (cases "n < b")
    case True
    with less.prems dig [of n] show ?thesis by (simp add: radix_str.simps [of b n])
  next
    case False
    with less.prems have "n div b < n" by auto
    moreover have "n mod b < 16" by (rule mod_radix [OF less.prems])
    ultimately show ?thesis
      using False less dig [of "n mod b"] by (simp add: radix_str.simps [of b n])
  qed
qed

lemma length_radix_str:
  assumes "2 \<le> b" "n < b ^ k" "0 < k"
  shows "length (radix_str b n) \<le> k"
  using assms
proof (induction k arbitrary: n)
  case (Suc k)
  show ?case
  proof (cases "n < b")
    case True
    then show ?thesis by (simp add: radix_str.simps [of b n])
  next
    case False
    then have k: "0 < k" using Suc.prems by (cases k) auto
    have "n div b < b ^ k" using Suc.prems by (simp add: less_mult_imp_div_less mult.commute)
    with Suc.IH [of "n div b"] k False Suc.prems show ?thesis by (simp add: radix_str.simps [of b n])
  qed
qed simp

lemma length_fmt_x: "length (fmt_x (w :: u64)) \<le> 16"
proof -
  have "unat w < 16 ^ 16" using unsigned_less [of w] by simp
  then show ?thesis by (simp add: fmt_x_def length_radix_str)
qed

lemma no_digit [simp]: "CHR ''@'' \<notin> set (fmt_x w)" "CHR ''@'' \<notin> set (fmt_u w)" "CHR ''/'' \<notin> set (fmt_x w)"
  "CHR ''/'' \<notin> set (fmt_u w)" "CHR '','' \<notin> set (fmt_u w)" "CHR '','' \<notin> set (fmt_x w)"
  using set_radix_str [of 16 "unat w"] set_radix_str [of 10 "unat w"]
  by (auto simp: fmt_x_def fmt_u_def digits_def)

lemma snprintf_fits [simp]: "length s < len \<Longrightarrow> snprintf len s = (int (length s), s)"
  by (simp add: snprintf_def)

text \<open>Two texts with a separator that does not occur before it are equal part by part.\<close>
lemma split_at_char:
  "c \<notin> set a \<Longrightarrow> c \<notin> set a' \<Longrightarrow> a @ c # b = a' @ c # b' \<longleftrightarrow> a = a' \<and> b = b'"
proof (induction a arbitrary: a')
  case Nil
  then show ?case by (cases a') auto
next
  case (Cons x a)
  then show ?case by (cases a') auto
qed

end
