(* ===== verification/Cmdline.thy ===== *)
theory Cmdline
  imports Format
begin

text \<open>
  The kernel command line of a device VM: \<open>append_vm_virtio_device_cmdline\<close> of the template
  \<open>seL4VirtIODeviceVM\<close> appends one clause for each driver VM, with the numbers the template
  engine filled in. The buffer has a size the function does not know.
\<close>

section \<open>Definitions\<close>

record virtio_driver =
  drv_id :: u32
  drv_data_base :: u64
  drv_data_size :: u64
  drv_ctrl_base :: u64
  drv_ctrl_size :: u64

text \<open>The text of \<open>" uservm=%u,0x%"PRIxPTR",0x%zx,0x%"PRIxPTR",0x%zx"\<close>.\<close>
definition uservm_clause :: "virtio_driver \<Rightarrow> string" where
  "uservm_clause d =
     '' uservm='' @ fmt_u (drv_id d) @ '',0x'' @ fmt_x (drv_data_base d) @ '',0x'' @ fmt_x (drv_data_size d)
       @ '',0x'' @ fmt_x (drv_ctrl_base d) @ '',0x'' @ fmt_x (drv_ctrl_size d)"

text \<open>\<open>sprintf\<close> writes the text and a null byte, also past the end of the buffer's \<open>capacity\<close>.\<close>
fun append_vm_virtio_device_cmdline :: "nat \<Rightarrow> virtio_driver list \<Rightarrow> string \<Rightarrow> string res" where
  "append_vm_virtio_device_cmdline capacity [] buffer = Inr buffer"
| "append_vm_virtio_device_cmdline capacity (drv # drvs) buffer =
     (let s = buffer @ uservm_clause drv in
      if capacity < length s + 1 then Inl Out_Of_Bounds
      else append_vm_virtio_device_cmdline capacity drvs s)"

section \<open>The appended text\<close>

lemma cmdline_appends:
  "append_vm_virtio_device_cmdline capacity drvs buffer =
     (if drvs \<noteq> [] \<and> capacity \<le> length (buffer @ concat (map uservm_clause drvs)) then Inl Out_Of_Bounds
      else Inr (buffer @ concat (map uservm_clause drvs)))"
proof (induction drvs arbitrary: buffer)
  case (Cons d ds)
  show ?case
    using Cons.IH [of "buffer @ uservm_clause d"] by (cases "ds = []") (auto simp: Let_def)
qed simp

lemma no_space: "CHR '' '' \<notin> set (fmt_x w)" "CHR '' '' \<notin> set (fmt_u w)"
  using set_radix_str [of 16 "unat w"] set_radix_str [of 10 "unat w"]
  by (auto simp: fmt_x_def fmt_u_def digits_def)

text \<open>Text that is empty or goes on with a space, as after a clause.\<close>
definition clause_end :: "string \<Rightarrow> bool" where
  "clause_end s \<longleftrightarrow> s = [] \<or> hd s = CHR '' ''"

lemma clause_end_concat: "clause_end (concat (map uservm_clause ds))"
  by (cases ds) (simp_all add: clause_end_def uservm_clause_def)

lemma last_field:
  fixes v w :: u64
  assumes "fmt_x v @ r = fmt_x w @ r'" "clause_end r" "clause_end r'"
  shows "v = w \<and> r = r'"
proof -
  have tw: "takeWhile (\<lambda>c. c \<noteq> CHR '' '') (fmt_x w @ r) = fmt_x w" if "clause_end r" for w :: u64 and r
    using that no_space(1) [of w] by (cases r) (auto simp: clause_end_def takeWhile_append2 takeWhile_eq_all_conv takeWhile_append)
  from assms tw [OF assms(2), of v] tw [OF assms(3), of w] have "fmt_x v = fmt_x w" by simp
  with assms(1) show ?thesis by simp
qed

lemma clause_inject:
  assumes "uservm_clause d @ r = uservm_clause d' @ r'" "clause_end r" "clause_end r'"
  shows "d = d' \<and> r = r'"
proof -
  have "fmt_u (drv_id d) @ CHR '','' # ''0x'' @ fmt_x (drv_data_base d) @ '',0x'' @ fmt_x (drv_data_size d)
       @ '',0x'' @ fmt_x (drv_ctrl_base d) @ '',0x'' @ fmt_x (drv_ctrl_size d) @ r
     = fmt_u (drv_id d') @ CHR '','' # ''0x'' @ fmt_x (drv_data_base d') @ '',0x'' @ fmt_x (drv_data_size d')
       @ '',0x'' @ fmt_x (drv_ctrl_base d') @ '',0x'' @ fmt_x (drv_ctrl_size d') @ r'"
    using assms(1) by (simp add: uservm_clause_def)
  then have "drv_id d = drv_id d'" "drv_data_base d = drv_data_base d'" "drv_data_size d = drv_data_size d'"
    "drv_ctrl_base d = drv_ctrl_base d'" "fmt_x (drv_ctrl_size d) @ r = fmt_x (drv_ctrl_size d') @ r'"
    by (simp_all add: split_at_char)
  with last_field [OF _ assms(2,3)] show ?thesis by (metis virtio_driver.equality old.unit.exhaust)
qed

lemma clauses_inject:
  "concat (map uservm_clause ds) = concat (map uservm_clause ds') \<Longrightarrow> ds = ds'"
proof (induction ds arbitrary: ds')
  case Nil
  then show ?case by (cases ds') (simp_all add: uservm_clause_def)
next
  case (Cons d ds)
  then obtain e es where ds': "ds' = e # es" by (cases ds') (auto simp: uservm_clause_def)
  from clause_inject [of d "concat (map uservm_clause ds)" e "concat (map uservm_clause es)"] Cons.prems ds' clause_end_concat
  have "d = e" "concat (map uservm_clause ds) = concat (map uservm_clause es)" by simp_all
  with Cons.IH ds' show ?case by blast
qed

section \<open>Properties\<close>

text \<open>
  C33. The command line says exactly which driver VMs there are: it is the old text followed by
  the clauses, and two lists of drivers that give the same command line are equal, numbers
  included. If text and null byte do not fit, the buffer overflows.\<close>
theorem cmdline_determines_drivers:
  "(if drvs \<noteq> [] \<and> capacity \<le> length (buffer @ concat (map uservm_clause drvs))
    then append_vm_virtio_device_cmdline capacity drvs buffer = Inl Out_Of_Bounds
    else append_vm_virtio_device_cmdline capacity drvs buffer = Inr (buffer @ concat (map uservm_clause drvs))
      \<and> (append_vm_virtio_device_cmdline capacity drvs' buffer = append_vm_virtio_device_cmdline capacity drvs buffer \<longleftrightarrow> drvs' = drvs))"
  using clauses_inject [of drvs' drvs] by (auto simp: cmdline_appends)

end
