(* ===== verification/Io_Proxy.thy ===== *)
theory Io_Proxy
  imports Vso_Rpc Gicv2m
begin

unbundle bit_operations_syntax

text \<open>
  The I/O proxy of \<open>src/io_proxy.c\<close>: MMIO requests to a backend, the slot each one occupies
  until it is acknowledged, the acknowledgement callbacks (those of virtual CPUs are in
  \<open>src/libsel4vm_glue.c\<close>), and the requests native threads of the monitor make.

  A callback is one of the four functions the code registers; its cookie is a virtual CPU or
  a native thread. The thread-local \<open>ioreq_native_data\<close> is a record per thread. A semaphore
  is its count; a wait on an empty one blocks, which is the value \<open>None\<close>.
\<close>

section \<open>Definitions\<close>

definition SEL4_MMIO_MAX_VCPU :: nat where "SEL4_MMIO_MAX_VCPU = 16"
definition SEL4_MMIO_NATIVE_BASE :: nat where "SEL4_MMIO_NATIVE_BASE = SEL4_MMIO_MAX_VCPU"
definition SEL4_MMIO_MAX_NATIVE :: nat where "SEL4_MMIO_MAX_NATIVE = 16"

text \<open>\<open>ARRAY_SIZE(io_proxy->ioacks)\<close>.\<close>
definition num_ioacks :: nat where "num_ioacks = SEL4_MMIO_MAX_VCPU + SEL4_MMIO_MAX_NATIVE"

definition SEL4_IO_DIR_READ :: u32 where "SEL4_IO_DIR_READ = 0"
definition SEL4_IO_DIR_WRITE :: u32 where "SEL4_IO_DIR_WRITE = 1"

datatype ioack_fn = Ioack_Vcpu_Read | Ioack_Vcpu_Write | Ioack_Native_Read | Ioack_Native_Write

record ioack =
  ack_callback :: "ioack_fn option"
  ack_cookie :: nat

text \<open>\<open>io_proxy_t\<close>, with its name and the shared memory \<open>iobuf_get\<close> returns.\<close>
record io_proxy =
  px_id :: nat
  backend_started :: nat
  ok_to_run :: int
  px_rpc :: vso_rpc
  px_mem :: io_mem
  data_base :: u64
  data_size :: u64
  ctrl_base :: u64
  ctrl_size :: u64
  ioacks :: "ioack list"

record ioreq_native_t =
  nat_slot :: int
  handoff :: nat
  nat_value :: u64

text \<open>The native threads' data and the next free native slot.\<close>
record natives =
  nat_data :: "nat \<Rightarrow> ioreq_native_t"
  free_native_slot :: int

definition ioreq_start ::
  "io_proxy \<Rightarrow> u32 \<Rightarrow> ioack_fn \<Rightarrow> ioack_fn \<Rightarrow> nat \<Rightarrow> u32 \<Rightarrow> u32 \<Rightarrow> u64 \<Rightarrow> u64 \<Rightarrow> u64 \<Rightarrow> (int \<times> io_proxy) res" where
  "ioreq_start px slot ack_read ack_write cookie addr_space direction offset sz val =
     (if 8 < sz then Inl Assert_Failed
      else if num_ioacks \<le> unat slot then Inr (-1, px)
      else if ack_callback (ioacks px ! unat slot) \<noteq> None then Inl Assert_Failed
      else
        let ack = \<lparr>ack_callback = Some (if direction = SEL4_IO_DIR_READ then ack_read else ack_write),
                   ack_cookie = cookie\<rparr>;
            px = px\<lparr>ioacks := (ioacks px)[unat slot := ack]\<rparr> in
        res_bind (driver_rpc_req_mmio_start (Some (px_rpc px)) direction addr_space slot offset sz val (px_mem px))
          (\<lambda>(err, rpc, mem). Inr (err, px\<lparr>px_rpc := rpc, px_mem := mem\<rparr>)))"

text \<open>The acknowledgement callbacks.\<close>
definition ioack_vcpu_read :: "'vm vm_ops \<Rightarrow> seL4_Word \<Rightarrow> nat \<Rightarrow> 'vm \<Rightarrow> int \<times> 'vm" where
  "ioack_vcpu_read E data vcpu vm =
     (let s = (get_vcpu_fault_address E vcpu vm AND 0x3) * 8;
          vm = set_vcpu_fault_data E vcpu (push_bit (unat s) data) vm
      in (0, advance_vcpu_fault E vcpu vm))"

definition ioack_vcpu_write :: "'vm vm_ops \<Rightarrow> seL4_Word \<Rightarrow> nat \<Rightarrow> 'vm \<Rightarrow> int \<times> 'vm" where
  "ioack_vcpu_write E data vcpu vm = (0, advance_vcpu_fault E vcpu vm)"

definition ioack_native_read :: "seL4_Word \<Rightarrow> ioreq_native_t \<Rightarrow> int \<times> ioreq_native_t" where
  "ioack_native_read data d = (let d = d\<lparr>nat_value := data\<rparr> in (0, d\<lparr>handoff := Suc (handoff d)\<rparr>))"

definition ioack_native_write :: "seL4_Word \<Rightarrow> ioreq_native_t \<Rightarrow> int \<times> ioreq_native_t" where
  "ioack_native_write data d = (0, d\<lparr>handoff := Suc (handoff d)\<rparr>)"

definition with_native :: "(ioreq_native_t \<Rightarrow> int \<times> ioreq_native_t) \<Rightarrow> nat \<Rightarrow> natives \<Rightarrow> int \<times> natives" where
  "with_native f thread nt =
     (case f (nat_data nt thread) of (rc, d) \<Rightarrow> (rc, nt\<lparr>nat_data := (nat_data nt)(thread := d)\<rparr>))"

text \<open>\<open>ioack->callback(data, ioack->cookie)\<close>.\<close>
definition run_ioack ::
  "'vm vm_ops \<Rightarrow> ioack_fn \<Rightarrow> seL4_Word \<Rightarrow> nat \<Rightarrow> natives \<Rightarrow> 'vm \<Rightarrow> int \<times> natives \<times> 'vm" where
  "run_ioack E f data cookie nt vm =
     (case f of
        Ioack_Vcpu_Read \<Rightarrow> (case ioack_vcpu_read E data cookie vm of (rc, vm) \<Rightarrow> (rc, nt, vm))
      | Ioack_Vcpu_Write \<Rightarrow> (case ioack_vcpu_write E data cookie vm of (rc, vm) \<Rightarrow> (rc, nt, vm))
      | Ioack_Native_Read \<Rightarrow> (case with_native (ioack_native_read data) cookie nt of (rc, nt) \<Rightarrow> (rc, nt, vm))
      | Ioack_Native_Write \<Rightarrow> (case with_native (ioack_native_write data) cookie nt of (rc, nt) \<Rightarrow> (rc, nt, vm)))"

text \<open>The assertion admits \<open>slot = ARRAY_SIZE\<close>, one past the array.\<close>
definition ioreq_finish ::
  "'vm vm_ops \<Rightarrow> io_proxy \<Rightarrow> u32 \<Rightarrow> seL4_Word \<Rightarrow> natives \<Rightarrow> 'vm \<Rightarrow> (int \<times> io_proxy \<times> natives \<times> 'vm) res" where
  "ioreq_finish E px slot data nt vm =
     (if \<not> unat slot \<le> num_ioacks then Inl Assert_Failed
      else if length (ioacks px) \<le> unat slot then Inl Out_Of_Bounds
      else
        let ack = ioacks px ! unat slot in
        case ack_callback ack of
          None \<Rightarrow> Inl Assert_Failed
        | Some f \<Rightarrow>
            (case run_ioack E f data (ack_cookie ack) nt vm of (err, nt, vm) \<Rightarrow>
               Inr (err, px\<lparr>ioacks := (ioacks px)[unat slot := ack\<lparr>ack_callback := None\<rparr>]\<rparr>, nt, vm)))"

text \<open>\<open>sem_err\<close> is the result of \<open>sync_sem_new\<close>.\<close>
definition ioreq_native_slot :: "int \<Rightarrow> nat \<Rightarrow> natives \<Rightarrow> int \<times> natives" where
  "ioreq_native_slot sem_err thread nt =
     (let d = nat_data nt thread in
      if nat_slot d \<noteq> 0 then (nat_slot d, nt)
      else if sem_err \<noteq> 0 then (-1, nt)
      else
        let d = d\<lparr>handoff := 0\<rparr>; nt = nt\<lparr>nat_data := (nat_data nt)(thread := d)\<rparr> in
        if int num_ioacks \<le> free_native_slot nt then (-1, nt)
        else
          let d = d\<lparr>nat_slot := free_native_slot nt\<rparr> in
          (nat_slot d, nt\<lparr>nat_data := (nat_data nt)(thread := d), free_native_slot := free_native_slot nt + 1\<rparr>))"

text \<open>\<open>ioreq_native\<close> up to the point where the thread waits for its acknowledgement.\<close>
definition ioreq_native_begin ::
  "int \<Rightarrow> nat \<Rightarrow> u32 \<Rightarrow> u32 \<Rightarrow> u64 \<Rightarrow> u64 \<Rightarrow> u64 \<Rightarrow> io_proxy \<Rightarrow> natives \<Rightarrow> (int \<times> io_proxy \<times> natives) res" where
  "ioreq_native_begin sem_err thread addr_space direction addr sz val px nt =
     (case ioreq_native_slot sem_err thread nt of (slot, nt) \<Rightarrow>
        if slot < 0 then Inr (-1, px, nt)
        else
          res_bind (ioreq_start px (of_int slot) Ioack_Native_Read Ioack_Native_Write thread addr_space direction addr sz val)
            (\<lambda>(err, px). if err < 0 then Inr (-1, px, nt) else Inr (0, px, nt)))"

text \<open>\<open>ioreq_native_wait\<close>: \<open>None\<close> while the thread is blocked; otherwise the value it gets.\<close>
definition ioreq_native_wait :: "nat \<Rightarrow> natives \<Rightarrow> (u64 \<times> natives) option" where
  "ioreq_native_wait thread nt =
     (let d = nat_data nt thread in
      if handoff d = 0 then None
      else Some (nat_value d, nt\<lparr>nat_data := (nat_data nt)(thread := d\<lparr>handoff := handoff d - 1\<rparr>)\<rparr>))"

text \<open>
  \<open>ioreq_native\<close>: \<open>resume\<close> is what the rest of the monitor does between the request and the
  moment the thread's wait is looked at. A thread that is never woken does not return.
\<close>
definition ioreq_native ::
  "(io_proxy \<Rightarrow> natives \<Rightarrow> io_proxy \<times> natives) \<Rightarrow> int \<Rightarrow> nat \<Rightarrow> u32 \<Rightarrow> u32 \<Rightarrow> u64 \<Rightarrow> u64 \<Rightarrow> u64 \<Rightarrow> io_proxy \<Rightarrow> natives
     \<Rightarrow> (int \<times> u64 \<times> io_proxy \<times> natives) res" where
  "ioreq_native resume sem_err thread addr_space direction addr sz val px nt =
     res_bind (ioreq_native_begin sem_err thread addr_space direction addr sz val px nt) (\<lambda>(err, px, nt).
       if err < 0 then Inr (-1, val, px, nt)
       else case resume px nt of (px, nt) \<Rightarrow>
         (case ioreq_native_wait thread nt of
            None \<Rightarrow> Inl Diverges
          | Some (v, nt) \<Rightarrow> Inr (0, v, px, nt)))"

fun wait_for_backend_loop :: "int \<Rightarrow> nat \<Rightarrow> nat option" where
  "wait_for_backend_loop ok n =
     (if ok \<noteq> 0 then Some n else case n of 0 \<Rightarrow> None | Suc m \<Rightarrow> wait_for_backend_loop ok m)"

definition io_proxy_wait_for_backend :: "io_proxy \<Rightarrow> io_proxy option" where
  "io_proxy_wait_for_backend px =
     map_option (\<lambda>n. px\<lparr>backend_started := n\<rparr>) (wait_for_backend_loop (ok_to_run px) (backend_started px))"

definition io_proxy_init :: "int \<Rightarrow> io_proxy \<Rightarrow> io_proxy res" where
  "io_proxy_init sem_err px =
     res_bind (vso_driver_rpc_init vso_rpc_driver (Some (driver_rpc (px_rpc px))) (px_mem px)) (\<lambda>(err, d, mem).
       if err \<noteq> 0 then Inl Fatal
       else
         let px = px\<lparr>px_rpc := (px_rpc px)\<lparr>driver_rpc := d, device_event := devevt_queue\<rparr>, px_mem := mem\<rparr> in
         if sem_err \<noteq> 0 then Inl Fatal else Inr (px\<lparr>backend_started := 0\<rparr>))"

definition handle_mmio ::
  "'vm vm_ops \<Rightarrow> u32 \<Rightarrow> rpcmsg \<Rightarrow> io_proxy \<Rightarrow> natives \<Rightarrow> 'vm \<Rightarrow> (int \<times> io_proxy \<times> natives \<times> 'vm) res" where
  "handle_mmio E op msg px nt vm =
     (if op \<noteq> QEMU_OP_MMIO then Inr (RPCMSG_RC_NONE, px, nt, vm)
      else
        let slot = ucast (BIT_FIELD_GET (mr0 msg) RPC_MR0_MMIO_SLOT); data = mr2 msg in
        res_bind (ioreq_finish E px slot data nt vm) (\<lambda>(err, px, nt, vm).
          Inr (if err \<noteq> 0 then RPCMSG_RC_ERROR else RPCMSG_RC_HANDLED, px, nt, vm)))"

section \<open>Starting and finishing a request\<close>

lemma num_ioacks_32 [simp]: "num_ioacks = 32"
  by (simp add: num_ioacks_def SEL4_MMIO_MAX_VCPU_def SEL4_MMIO_MAX_NATIVE_def)

text \<open>The word \<open>mr0\<close> the backend finds in a request, and keeps in its reply.\<close>
definition mmio_request_mr0 :: "u32 \<Rightarrow> u32 \<Rightarrow> u32 \<Rightarrow> u64 \<Rightarrow> seL4_Word" where
  "mmio_request_mr0 direction addr_space slot sz =
     BIT_FIELD_SET (mmio_start_mr0 direction addr_space slot sz) RPC_MR0_OP (ucast QEMU_OP_MMIO)"

lemma request_slot:
  assumes "slot < 32"
  shows "ucast (BIT_FIELD_GET (mmio_request_mr0 direction addr_space slot sz) RPC_MR0_MMIO_SLOT) = slot"
proof -
  have "unat (ucast slot :: u64) < 2 ^ 6" using assms by (simp add: word_less_nat_alt)
  then have "BIT_FIELD_GET (mmio_request_mr0 direction addr_space slot sz) RPC_MR0_MMIO_SLOT = ucast slot"
    by (simp add: mmio_request_mr0_def mmio_mr0_get MASK_mask and_mask_unat)
  then show ?thesis by simp
qed

text \<open>A proxy whose queue and lending state are consistent.\<close>
definition proxy_ok :: "io_proxy \<Rightarrow> bool" where
  "proxy_ok px \<longleftrightarrow> length (ioacks px) = num_ioacks \<and> mem_ok (px_mem px) \<and> endpoint_ok 0 (px_rpc px)
     \<and> rpc_ok (q_at (px_mem px) (iobuf_queue 0 0)) \<and> pool_ok (buffer_state (driver_rpc (px_rpc px)))"

lemma start_cases:
  assumes "ioreq_start px slot ack_read ack_write cookie addr_space direction offset sz val = Inr (rc, px')"
    "unat slot < 32"
  shows "ack_callback (ioacks px ! unat slot) = None"
    "ioacks px' = (ioacks px)[unat slot := \<lparr>ack_callback = Some (if direction = SEL4_IO_DIR_READ then ack_read else ack_write),
       ack_cookie = cookie\<rparr>]"
  using assms by (auto simp: ioreq_start_def Let_def res_simps split: if_splits)

lemma native_slot_cases:
  assumes "ioreq_native_slot e th nt = (slot, nt')"
  shows "nat_slot (nat_data nt th) \<noteq> 0 \<and> slot = nat_slot (nat_data nt th) \<and> nt' = nt
    \<or> slot = -1 \<and> nat_slot (nat_data nt th) = 0 \<and> (\<forall>t. nat_slot (nat_data nt' t) = nat_slot (nat_data nt t))
        \<and> free_native_slot nt' = free_native_slot nt
    \<or> nat_slot (nat_data nt th) = 0 \<and> slot = free_native_slot nt \<and> free_native_slot nt < int num_ioacks
        \<and> free_native_slot nt' = free_native_slot nt + 1
        \<and> (\<forall>t. nat_slot (nat_data nt' t) = (if t = th then slot else nat_slot (nat_data nt t)))"
  using assms by (auto simp: ioreq_native_slot_def Let_def split: if_splits)

text \<open>The native slots handed out: from 16 up to the next free one, a different one per thread.\<close>
definition natives_ok :: "natives \<Rightarrow> bool" where
  "natives_ok nt \<longleftrightarrow> int SEL4_MMIO_NATIVE_BASE \<le> free_native_slot nt \<and> free_native_slot nt \<le> int num_ioacks
     \<and> (\<forall>t. nat_slot (nat_data nt t) \<noteq> 0 \<longrightarrow>
          int SEL4_MMIO_NATIVE_BASE \<le> nat_slot (nat_data nt t) \<and> nat_slot (nat_data nt t) < free_native_slot nt)
     \<and> (\<forall>t t'. nat_slot (nat_data nt t) \<noteq> 0 \<and> nat_slot (nat_data nt t) = nat_slot (nat_data nt t') \<longrightarrow> t = t')"

text \<open>A request that is sent.\<close>
lemma ioreq_start_queues:
  assumes "proxy_ok px" "unat slot < 32" "ack_callback (ioacks px ! unat slot) = None" "sz \<le> 8"
    and "lent (buffer_state (driver_rpc (px_rpc px))) \<noteq> {..<32}"
    and "queue_len (q_at (px_mem px) (iobuf_queue 0 0)) < 32" "doorbell (px_rpc px) = Some c"
  shows "\<exists>i px'. ioreq_start px slot ack_read ack_write cookie addr_space direction offset sz val = Inr (0, px')
    \<and> proxy_ok px' \<and> i \<notin> lent (buffer_state (driver_rpc (px_rpc px)))
    \<and> lent (buffer_state (driver_rpc (px_rpc px'))) = insert i (lent (buffer_state (driver_rpc (px_rpc px))))
    \<and> rpc_ids (q_at (px_mem px') (iobuf_queue 0 0)) = rpc_ids (q_at (px_mem px) (iobuf_queue 0 0)) @ [i]
    \<and> b_at (px_mem px') (iobuf_queue 0 0) ! i =
        \<lparr>mr0 = mmio_request_mr0 direction addr_space slot sz, mr1 = offset, mr2 = val, mr3 = 0\<rparr>
    \<and> ioacks px' ! unat slot = \<lparr>ack_callback = Some (if direction = SEL4_IO_DIR_READ then ack_read else ack_write), ack_cookie = cookie\<rparr>
    \<and> rung (px_mem px') = c # rung (px_mem px)"
proof -
  have ok: "mem_ok (px_mem px)" "request (driver_rpc (px_rpc px)) = iobuf_queue 0 0"
    "rpc_ok (q_at (px_mem px) (iobuf_queue 0 0))" "pool_ok (buffer_state (driver_rpc (px_rpc px)))"
    "length (ioacks px) = 32" "endpoint_ok 0 (px_rpc px)"
    using assms(1) by (simp_all add: proxy_ok_def endpoint_ok_def)
  have sz: "\<not> 8 < sz" using assms(4) by simp
  have slot: "\<not> 32 \<le> unat slot" using assms(2) by simp
  show ?thesis
    by (rule drv_request_ok [OF ok(1-3) assms(6) ok(4) assms(5,7), of QEMU_OP_MMIO
          "mmio_start_mr0 direction addr_space slot sz" offset val 0])
      (use ok assms(2,3) sz slot in \<open>force simp: ioreq_start_def Let_def driver_rpc_req_mmio_start_def
        mmio_request_mr0_def proxy_ok_def endpoint_ok_def\<close>)
qed

text \<open>A response to a request that was started.\<close>
lemma finish_started:
  assumes "ioreq_start px slot ack_read ack_write cookie addr_space direction offset sz val = Inr (rc, px')"
    and "unat slot < 32" "length (ioacks px) = 32"
    and "mr0 msg = mmio_request_mr0 direction addr_space slot sz"
  shows "handle_mmio E QEMU_OP_MMIO msg px' nt vm =
    (case run_ioack E (if direction = SEL4_IO_DIR_READ then ack_read else ack_write) (mr2 msg) cookie nt vm of
       (err, nt', vm') \<Rightarrow>
         Inr (if err \<noteq> 0 then RPCMSG_RC_ERROR else RPCMSG_RC_HANDLED,
              px'\<lparr>ioacks := (ioacks px)[unat slot := \<lparr>ack_callback = None, ack_cookie = cookie\<rparr>]\<rparr>, nt', vm'))"
proof -
  have slot: "ucast (BIT_FIELD_GET (mr0 msg) RPC_MR0_MMIO_SLOT) = slot"
    using request_slot [of slot] assms(2,4) by (simp add: word_less_nat_alt)
  note st = start_cases [OF assms(1,2)]
  have ack: "ioacks px' ! unat slot = \<lparr>ack_callback = Some (if direction = SEL4_IO_DIR_READ then ack_read else ack_write),
       ack_cookie = cookie\<rparr>" "length (ioacks px') = 32"
    using st(2) assms(2,3) by simp_all
  have upd: "(ioacks px')[unat slot := \<lparr>ack_callback = None, ack_cookie = cookie\<rparr>]
      = (ioacks px)[unat slot := \<lparr>ack_callback = None, ack_cookie = cookie\<rparr>]"
    by (simp add: st(2))
  show ?thesis
    using assms(2) by (simp add: handle_mmio_def Let_def slot ioreq_finish_def ack upd split: prod.split)
qed

lemma native_slot_ok:
  assumes "natives_ok nt" "ioreq_native_slot e th nt = (slot, nt')"
  shows "natives_ok nt'
    \<and> (slot = -1 \<or> 16 \<le> slot \<and> slot < 32 \<and> nat_slot (nat_data nt' th) = slot
         \<and> (\<forall>t. t \<noteq> th \<longrightarrow> nat_slot (nat_data nt' t) \<noteq> slot))
    \<and> (\<forall>t. nat_slot (nat_data nt t) \<noteq> 0 \<longrightarrow> nat_slot (nat_data nt' t) = nat_slot (nat_data nt t))"
proof -
  have base: "int SEL4_MMIO_NATIVE_BASE = 16"
    by (simp add: SEL4_MMIO_NATIVE_BASE_def SEL4_MMIO_MAX_VCPU_def)
  note ok = assms(1) [unfolded natives_ok_def base num_ioacks_32]
  from native_slot_cases [OF assms(2)] show ?thesis
  proof (elim disjE conjE)
    assume "nat_slot (nat_data nt th) \<noteq> 0" "slot = nat_slot (nat_data nt th)" "nt' = nt"
    with assms(1) ok show ?thesis by force
  next
    assume "slot = -1" "\<forall>t. nat_slot (nat_data nt' t) = nat_slot (nat_data nt t)" "free_native_slot nt' = free_native_slot nt"
    with assms(1) show ?thesis by (simp add: natives_ok_def)
  next
    assume new: "nat_slot (nat_data nt th) = 0" "slot = free_native_slot nt" "free_native_slot nt < int num_ioacks"
      "free_native_slot nt' = free_native_slot nt + 1"
      "\<forall>t. nat_slot (nat_data nt' t) = (if t = th then slot else nat_slot (nat_data nt t))"
    have old: "nat_slot (nat_data nt t) < slot" if "nat_slot (nat_data nt t) \<noteq> 0" for t
      using ok new(2) that by simp
    have slot: "16 \<le> slot" "slot < 32" using ok new(2,3) by simp_all
    have other: "nat_slot (nat_data nt t) \<noteq> slot" for t
      using old [of t] slot by force
    have ok': "natives_ok nt'"
      using ok new(4,5) slot other unfolding natives_ok_def base num_ioacks_32 new(2) [symmetric]
      by (auto split: if_splits)
    show ?thesis
      using ok' slot other new(1,5) by auto
  qed
qed

section \<open>Properties\<close>

text \<open>A freshly initialised proxy.\<close>
definition demo_proxy :: io_proxy where
  "demo_proxy = \<lparr>px_id = 4, backend_started = 0, ok_to_run = 0,
     px_rpc = \<lparr>driver_rpc = \<lparr>request = iobuf_queue 0 0, response = iobuf_queue 0 2, buffer_state = [0]\<rparr>,
               device_event = iobuf_queue 1 3, doorbell = Some 9\<rparr>,
     px_mem = zero_mem, data_base = 0, data_size = 0, ctrl_base = 0x60000000, ctrl_size = 0x1000,
     ioacks = replicate 32 \<lparr>ack_callback = None, ack_cookie = 0\<rparr>\<rparr>"

lemma demo_proxy_ok:
  "proxy_ok demo_proxy" "lent (buffer_state (driver_rpc (px_rpc demo_proxy))) \<noteq> {..<32}"
  "queue_len (q_at (px_mem demo_proxy) (iobuf_queue 0 0)) < 32"
proof -
  have q: "q_at zero_mem (iobuf_queue 0 0) = rpcmsg_queue_init zero_queue"
    by (simp add: q_at_def zero_mem_def zero_queue_def rpcmsg_queue_init_def)
  have m: "mem_ok zero_mem" by (simp add: mem_ok_def zero_mem_def)
  show "proxy_ok demo_proxy"
    using queue_init_ok [of zero_queue] m
    by (simp add: proxy_ok_def demo_proxy_def endpoint_ok_def q rpc_ok_def pool_ok_def)
  have "lent [0] = {}" by (auto simp: lent_Collect bitmap_test_def)
  then show "lent (buffer_state (driver_rpc (px_rpc demo_proxy))) \<noteq> {..<32}"
    by (simp add: demo_proxy_def) (metis empty_iff lessThan_iff zero_less_numeral)
  show "queue_len (q_at (px_mem demo_proxy) (iobuf_queue 0 0)) < 32"
    using queue_init_ok(2) [of zero_queue] queue_len_queue_slots [of "rpcmsg_queue_init zero_queue"]
    by (simp add: demo_proxy_def q)
qed

text \<open>
  Slots of native threads do not collide: starting from none handed out, every thread
  that gets a slot gets one between 16 and 31, above all virtual CPUs' slots, keeps it, and
  no two threads have the same.
\<close>
lemma native_slots_unique:
  assumes "natives_ok nt" "ioreq_native_slot e th nt = (slot, nt')"
  shows "natives_ok nt'
    \<and> (slot = -1 \<or> 16 \<le> slot \<and> slot < 32 \<and> nat_slot (nat_data nt' th) = slot
         \<and> (\<forall>t. t \<noteq> th \<longrightarrow> nat_slot (nat_data nt' t) \<noteq> slot))
    \<and> (\<forall>t. nat_slot (nat_data nt t) \<noteq> 0 \<longrightarrow> nat_slot (nat_data nt' t) = nat_slot (nat_data nt t))"
  using assms by (rule native_slot_ok)

text \<open>
  A native read returns what the backend answered: if the thread's request is sent and,
  while it waits, the monitor handles the response to it, \<open>ioreq_native\<close> returns zero and
  the data of that response, and the slot is free again.
\<close>
lemma native_read_returns_response:
  assumes "natives_ok nt" "length (ioacks px) = 32"
    and "ioreq_native_begin sem_err thread addr_space SEL4_IO_DIR_READ addr sz val px nt = Inr (0, px1, nt1)"
    and "mr0 msg = mmio_request_mr0 SEL4_IO_DIR_READ addr_space (of_int (nat_slot (nat_data nt1 thread))) sz"
    and "handle_mmio E QEMU_OP_MMIO msg px1 nt1 vm = Inr (rc, px2, nt2, vm2)"
  shows "\<exists>nt3. ioreq_native (\<lambda>_ _. (px2, nt2)) sem_err thread addr_space SEL4_IO_DIR_READ addr sz val px nt
      = Inr (0, mr2 msg, px2, nt3)
    \<and> ack_callback (ioacks px2 ! nat (nat_slot (nat_data nt1 thread))) = None"
proof -
  obtain slot nt0 where slot: "ioreq_native_slot sem_err thread nt = (slot, nt0)" by fastforce
  let ?s = "of_int slot :: u32"
  have "0 \<le> slot" "nt1 = nt0" and start: "\<exists>e. ioreq_start px ?s Ioack_Native_Read Ioack_Native_Write thread
      addr_space SEL4_IO_DIR_READ addr sz val = Inr (e, px1)"
    using assms(3) slot by (auto simp: ioreq_native_begin_def res_simps split: if_splits)
  with native_slot_ok [OF assms(1) slot] have th: "16 \<le> slot" "slot < 32" "nat_slot (nat_data nt1 thread) = slot"
    by auto
  then have s: "unat ?s = nat slot" "unat ?s < 32"
    by (simp_all add: unsigned_of_int take_bit_int_eq_self nat_less_iff)
  obtain e where start: "ioreq_start px ?s Ioack_Native_Read Ioack_Native_Write thread addr_space SEL4_IO_DIR_READ addr sz val
      = Inr (e, px1)" using start by blast
  have fin: "handle_mmio E QEMU_OP_MMIO msg px1 nt1 vm =
      (case run_ioack E Ioack_Native_Read (mr2 msg) thread nt1 vm of (err, nt', vm') \<Rightarrow>
         Inr (if err \<noteq> 0 then RPCMSG_RC_ERROR else RPCMSG_RC_HANDLED,
              px1\<lparr>ioacks := (ioacks px)[unat ?s := \<lparr>ack_callback = None, ack_cookie = thread\<rparr>]\<rparr>, nt', vm'))"
    using finish_started [OF start s(2) assms(2) assms(4) [unfolded th(3)]] by simp
  have nt2: "nt2 = nt1\<lparr>nat_data := (nat_data nt1)(thread := (nat_data nt1 thread)
      \<lparr>nat_value := mr2 msg, handoff := Suc (handoff (nat_data nt1 thread))\<rparr>)\<rparr>"
    and px2: "ioacks px2 = (ioacks px)[unat ?s := \<lparr>ack_callback = None, ack_cookie = thread\<rparr>]"
    using fin assms(5) by (auto simp: run_ioack_def with_native_def ioack_native_read_def)
  show ?thesis
    using assms(2,3) nt2 px2 s th by (simp add: ioreq_native_def ioreq_native_wait_def)
qed

definition demo_natives :: natives where
  "demo_natives = \<lparr>nat_data = (\<lambda>_. \<lparr>nat_slot = 0, handoff = 0, nat_value = 0\<rparr>), free_native_slot = 16\<rparr>"

text \<open>
  C40. A request that could not be sent blocks its slot: \<open>ioreq_start\<close> registers the callback
  before sending and does not take it back on an error, so the next \<open>ioreq_start\<close> on that
  slot fails its assertion.
\<close>
theorem failed_start_blocks_slot:
  assumes "ioreq_start px slot f g cookie addr_space direction offset sz val = Inr (rc, px')" "rc < 0"
    and "unat slot < 32" "length (ioacks px) = 32" "sz' \<le> 8"
  shows "ioreq_start px' slot f' g' cookie' addr_space' direction' offset' sz' val' = Inl Assert_Failed"
  using start_cases(2) [OF assms(1,3)] assms(3-5) by (simp add: ioreq_start_def not_less)

text \<open>A proxy whose doorbell is missing: a request is queued but reported as failed.\<close>
definition mute_proxy :: io_proxy where
  "mute_proxy = demo_proxy\<lparr>px_rpc := (px_rpc demo_proxy)\<lparr>doorbell := None\<rparr>\<rparr>"

theorem failed_start_blocks_slot_witness:
  "\<exists>px'. ioreq_start mute_proxy 3 Ioack_Vcpu_Read Ioack_Vcpu_Write 3 255 0 0x60000010 4 0 = Inr (-1, px')
     \<and> ioreq_start px' 3 Ioack_Vcpu_Read Ioack_Vcpu_Write 3 255 0 0x60000010 4 0 = Inl Assert_Failed"
proof -
  have ok: "rpc_ok (q_at zero_mem (iobuf_queue 0 0))" "length (b_at zero_mem (iobuf_queue 0 0)) = 32" "pool_ok [0]"
    "lent [0] \<noteq> {..<32}" "queue_len (q_at zero_mem (iobuf_queue 0 0)) < 32"
    using demo_proxy_ok by (simp_all add: proxy_ok_def demo_proxy_def)
  have start: "\<exists>px'. ioreq_start mute_proxy 3 Ioack_Vcpu_Read Ioack_Vcpu_Write 3 255 0 0x60000010 4 0 = Inr (-1, px')"
    by (rule request_ok [OF ok, of "BIT_FIELD_SET (mmio_start_mr0 0 255 3 4) RPC_MR0_OP (ucast QEMU_OP_MMIO)" "0x60000010" 0 0])
      (simp add: ioreq_start_def mute_proxy_def demo_proxy_def driver_rpc_req_mmio_start_def driver_rpc_request_def
        vso_doorbell_def Let_def)
  have "length (ioacks mute_proxy) = 32" by (simp add: mute_proxy_def demo_proxy_def)
  with start failed_start_blocks_slot [where slot = 3] show ?thesis by fastforce
qed

text \<open>
  A response that names slot 32 passes the assertion of \<open>ioreq_finish\<close> and accesses the
  callback array one past its end; the six-bit slot field of the message can hold it.
\<close>
lemma finish_past_the_array:
  assumes "length (ioacks px) = 32" "BIT_FIELD_GET (mr0 msg) RPC_MR0_MMIO_SLOT = 32"
  shows "handle_mmio E QEMU_OP_MMIO msg px nt vm = Inl Out_Of_Bounds"
  using assms by (simp add: handle_mmio_def ioreq_finish_def Let_def)

end
