(* ===== verification/Pci_Defs.thy ===== *)
theory Pci_Defs
  imports Machine
begin

unbundle bit_operations_syntax

text \<open>
  The PCI numbers of \<open>include/tii/pci.h\<close>: slots, functions, pins, and the packing of slot
  and function into a \<open>devfn\<close>.
\<close>

definition PCI_DEVFN :: "u32 \<Rightarrow> u32 \<Rightarrow> u32" where
  "PCI_DEVFN slot func = push_bit 3 (slot AND 0x1f) OR (func AND 0x07)"

definition PCI_SLOT :: "u32 \<Rightarrow> u32" where
  "PCI_SLOT devfn = drop_bit 3 devfn AND 0x1f"

definition PCI_FUNC :: "u32 \<Rightarrow> u32" where
  "PCI_FUNC devfn = devfn AND 0x07"

definition PCI_NUM_SLOTS :: u32 where "PCI_NUM_SLOTS = 32"
definition PCI_NUM_PINS :: nat where "PCI_NUM_PINS = 4"
definition PCI_NUM_AVAIL_DEVICES :: nat where "PCI_NUM_AVAIL_DEVICES = unat PCI_NUM_SLOTS - 1"

record pcidev =
  devfn :: u32
  backend_devfn :: u32
  pci_io_proxy :: nat

lemma pci_masks: "(0x1f :: u32) = mask 5" "(0x07 :: u32) = mask 3"
  by (simp_all add: mask_eq_exp_minus_1)

lemma PCI_SLOT_DEVFN: "PCI_SLOT (PCI_DEVFN slot func) = slot AND 0x1f"
  unfolding PCI_SLOT_def PCI_DEVFN_def pci_masks
  by (rule bit_word_eqI) (auto simp: bit_simps)

lemma PCI_FUNC_DEVFN: "PCI_FUNC (PCI_DEVFN slot func) = func AND 0x07"
  unfolding PCI_FUNC_def PCI_DEVFN_def pci_masks
  by (rule bit_word_eqI) (auto simp: bit_simps)

lemma PCI_SLOT_less: "unat (PCI_SLOT d) < 32"
  using unat_and_31 [of "drop_bit 3 d"] by (simp add: PCI_SLOT_def)

lemma PCI_DEVFN_slot: "slot < 32 \<Longrightarrow> PCI_SLOT (PCI_DEVFN slot func) = slot"
  unfolding PCI_SLOT_DEVFN pci_masks
  by (rule and_mask_unat) (simp add: word_less_nat_alt)

text \<open>
  The \<open>devfn\<close> macros round-trip: slot and function read back from a packed \<open>devfn\<close> are
  those packed, truncated to five and three bits, and packing them again gives the same
  \<open>devfn\<close>.
\<close>
lemma devfn_roundtrip:
  "PCI_SLOT (PCI_DEVFN slot func) = slot AND 0x1f \<and> PCI_FUNC (PCI_DEVFN slot func) = func AND 0x07
   \<and> PCI_DEVFN (PCI_SLOT (PCI_DEVFN slot func)) (PCI_FUNC (PCI_DEVFN slot func)) = PCI_DEVFN slot func"
  unfolding PCI_SLOT_DEVFN PCI_FUNC_DEVFN by (simp add: PCI_DEVFN_def and.assoc)

end
