(* ===== verification/Pci.thy ===== *)
theory Pci
  imports Io_Proxy Pci_Defs
begin

unbundle bit_operations_syntax

text \<open>
  Virtual PCI devices, the first part of \<open>src/libsel4vm_glue.c\<close>: registration of a
  backend's device, accesses to its configuration space (two registers are answered here,
  the others are forwarded to the backend), and its INTx interrupts, which the devices
  share four to the bus.

  The PCI bus model of libsel4vmmplatsupport is a parameter: adding an entry returns an
  error or the address it was given. So are the register numbers and the platform's first
  INTx interrupt.
\<close>

section \<open>Definitions\<close>

record 'vm pci_env =
  vmm_pci_add_entry :: "'vm \<Rightarrow> int \<times> u32 \<times> u32 \<times> 'vm"
  PCI_INTERRUPT_LINE :: u32
  PCI_INTERRUPT_PIN :: u32
  INTERRUPT_PCI_INTX_BASE :: u32

text \<open>The registered devices, in order; their number is \<open>pci_dev_count\<close>. The four INTx lines.\<close>
record pci_state =
  pci_devs :: "pcidev list"
  pci_intx :: "shared_irq_line list"

definition irq_is_pci :: "u32 \<Rightarrow> bool" where
  "irq_is_pci irq \<longleftrightarrow> irq < PCI_NUM_SLOTS"

definition pci_swizzle :: "nat \<Rightarrow> nat \<Rightarrow> nat" where
  "pci_swizzle slot pin = (slot + pin) mod PCI_NUM_PINS"

definition pci_map_irq :: "pcidev \<Rightarrow> nat" where
  "pci_map_irq dev = pci_swizzle (unat (PCI_SLOT (devfn dev))) 0"

type_synonym native_call =
  "u32 \<Rightarrow> u32 \<Rightarrow> u64 \<Rightarrow> u64 \<Rightarrow> u64 \<Rightarrow> io_proxy \<Rightarrow> natives \<Rightarrow> (int \<times> u64 \<times> io_proxy \<times> natives) res"

text \<open>\<open>native\<close> is \<open>ioreq_native\<close> as the calling thread runs it.\<close>
definition pci_cfg_start ::
  "native_call \<Rightarrow> pcidev \<Rightarrow> u32 \<Rightarrow> u64 \<Rightarrow> u64 \<Rightarrow> u64 \<Rightarrow> io_proxy \<Rightarrow> natives \<Rightarrow> (u64 \<times> io_proxy \<times> natives) res" where
  "pci_cfg_start native dev dir offset sz val px nt =
     (let backend_slot = PCI_SLOT (backend_devfn dev) in
      res_bind (native (ucast (AS_PCIDEV (ucast backend_slot))) dir offset sz val px nt) (\<lambda>(err, val, px, nt).
        Inr (if err \<noteq> 0 then 0 else val, px, nt)))"

definition pci_cfg_read8 ::
  "'vm pci_env \<Rightarrow> native_call \<Rightarrow> pcidev \<Rightarrow> u32 \<Rightarrow> io_proxy \<Rightarrow> natives \<Rightarrow> (u8 \<times> io_proxy \<times> natives) res" where
  "pci_cfg_read8 X native dev offset px nt =
     (if offset = PCI_INTERRUPT_LINE X then
        Inr (ucast (INTERRUPT_PCI_INTX_BASE X + of_nat (pci_map_irq dev)), px, nt)
      else if offset = PCI_INTERRUPT_PIN X then Inr (of_nat (pci_map_irq dev + 1), px, nt)
      else res_bind (pci_cfg_start native dev SEL4_IO_DIR_READ (ucast offset) 1 0 px nt) (\<lambda>(v, px, nt).
             Inr (ucast v, px, nt)))"

definition pci_cfg_read16 ::
  "native_call \<Rightarrow> pcidev \<Rightarrow> u32 \<Rightarrow> io_proxy \<Rightarrow> natives \<Rightarrow> (u16 \<times> io_proxy \<times> natives) res" where
  "pci_cfg_read16 native dev offset px nt =
     res_bind (pci_cfg_start native dev SEL4_IO_DIR_READ (ucast offset) 2 0 px nt) (\<lambda>(v, px, nt). Inr (ucast v, px, nt))"

definition pci_cfg_read32 ::
  "native_call \<Rightarrow> pcidev \<Rightarrow> u32 \<Rightarrow> io_proxy \<Rightarrow> natives \<Rightarrow> (u32 \<times> io_proxy \<times> natives) res" where
  "pci_cfg_read32 native dev offset px nt =
     res_bind (pci_cfg_start native dev SEL4_IO_DIR_READ (ucast offset) 4 0 px nt) (\<lambda>(v, px, nt). Inr (ucast v, px, nt))"

definition pci_cfg_write8 ::
  "native_call \<Rightarrow> pcidev \<Rightarrow> u32 \<Rightarrow> u8 \<Rightarrow> io_proxy \<Rightarrow> natives \<Rightarrow> (io_proxy \<times> natives) res" where
  "pci_cfg_write8 native dev offset val px nt =
     res_bind (pci_cfg_start native dev SEL4_IO_DIR_WRITE (ucast offset) 1 (ucast val) px nt) (\<lambda>(v, px, nt). Inr (px, nt))"

definition pci_cfg_write16 ::
  "native_call \<Rightarrow> pcidev \<Rightarrow> u32 \<Rightarrow> u16 \<Rightarrow> io_proxy \<Rightarrow> natives \<Rightarrow> (io_proxy \<times> natives) res" where
  "pci_cfg_write16 native dev offset val px nt =
     res_bind (pci_cfg_start native dev SEL4_IO_DIR_WRITE (ucast offset) 2 (ucast val) px nt) (\<lambda>(v, px, nt). Inr (px, nt))"

definition pci_cfg_write32 ::
  "native_call \<Rightarrow> pcidev \<Rightarrow> u32 \<Rightarrow> u32 \<Rightarrow> io_proxy \<Rightarrow> natives \<Rightarrow> (io_proxy \<times> natives) res" where
  "pci_cfg_write32 native dev offset val px nt =
     res_bind (pci_cfg_start native dev SEL4_IO_DIR_WRITE (ucast offset) 4 (ucast val) px nt) (\<lambda>(v, px, nt). Inr (px, nt))"

definition pcidev_register ::
  "'vm vm_ops \<Rightarrow> 'vm pci_env \<Rightarrow> nat \<Rightarrow> u32 \<Rightarrow> pci_state \<Rightarrow> 'vm \<Rightarrow> int \<times> pci_state \<times> 'vm" where
  "pcidev_register E X io_proxy bdf st vm =
     (if PCI_NUM_AVAIL_DEVICES \<le> length (pci_devs st) then (-1, st, vm)
      else case calloc_ok E vm of (ok, vm) \<Rightarrow>
        if \<not> ok then (-1, st, vm)
        else case vmm_pci_add_entry X vm of (err, dev, fun, vm) \<Rightarrow>
          if err \<noteq> 0 then (-1, st, vm)
          else (0, st\<lparr>pci_devs := pci_devs st @
                      [\<lparr>devfn = PCI_DEVFN dev fun, backend_devfn = bdf, pci_io_proxy = io_proxy\<rparr>]\<rparr>, vm))"

fun pcidev_find_from :: "pcidev list \<Rightarrow> nat \<Rightarrow> u32 \<Rightarrow> pcidev option" where
  "pcidev_find_from [] io_proxy bdf = None"
| "pcidev_find_from (d # ds) io_proxy bdf =
     (if pci_io_proxy d = io_proxy \<and> backend_devfn d = bdf then Some d else pcidev_find_from ds io_proxy bdf)"

definition pcidev_find :: "pci_state \<Rightarrow> nat \<Rightarrow> u32 \<Rightarrow> pcidev option" where
  "pcidev_find st io_proxy bdf = pcidev_find_from (pci_devs st) io_proxy bdf"

definition pcidev_intx_set ::
  "'vm vm_ops \<Rightarrow> nat \<Rightarrow> u32 \<Rightarrow> bool \<Rightarrow> pci_state \<Rightarrow> 'vm \<Rightarrow> (int \<times> pci_state \<times> 'vm) res" where
  "pcidev_intx_set E io_proxy bdf level st vm =
     (let irq = PCI_SLOT bdf in
      if \<not> irq_is_pci irq then Inr (-1, st, vm)
      else case pcidev_find st io_proxy bdf of
        None \<Rightarrow> Inr (-1, st, vm)
      | Some dev \<Rightarrow>
          let pin = pci_map_irq dev in
          if length (pci_intx st) \<le> pin then Inl Out_Of_Bounds
          else res_bind (shared_irq_line_change E (pci_intx st ! pin) (PCI_SLOT (devfn dev)) level vm)
                 (\<lambda>(err, line, vm). Inr (err, st\<lparr>pci_intx := (pci_intx st)[pin := line]\<rparr>, vm)))"

definition handle_pci_intx ::
  "'vm vm_ops \<Rightarrow> nat \<Rightarrow> u32 \<Rightarrow> u32 \<Rightarrow> pci_state \<Rightarrow> 'vm \<Rightarrow> (int \<times> pci_state \<times> 'vm) res" where
  "handle_pci_intx E io_proxy bdf irq_op st vm =
     (if irq_op = ucast RPC_IRQ_SET then pcidev_intx_set E io_proxy bdf True st vm
      else if irq_op = ucast RPC_IRQ_CLR then pcidev_intx_set E io_proxy bdf False st vm
      else if irq_op = ucast RPC_IRQ_PULSE then
        res_bind (pcidev_intx_set E io_proxy bdf True st vm) (\<lambda>(err, st, vm).
          if err \<noteq> 0 then Inr (err, st, vm) else pcidev_intx_set E io_proxy bdf False st vm)
      else Inr (-1, st, vm))"

definition handle_pci ::
  "'vm vm_ops \<Rightarrow> 'vm pci_env \<Rightarrow> nat \<Rightarrow> u32 \<Rightarrow> rpcmsg \<Rightarrow> pci_state \<Rightarrow> 'vm \<Rightarrow> (int \<times> pci_state \<times> 'vm) res" where
  "handle_pci E X io_proxy op msg st vm =
     (let rc = (\<lambda>(err, st, vm). Inr (if err \<noteq> 0 then RPCMSG_RC_ERROR else RPCMSG_RC_HANDLED, st, vm)) in
      if op = QEMU_OP_SET_IRQ then
        if \<not> irq_is_pci (ucast (mr1 msg)) then Inr (RPCMSG_RC_NONE, st, vm)
        else res_bind (handle_pci_intx E io_proxy (PCI_DEVFN (ucast (mr1 msg)) 0) (ucast (mr2 msg)) st vm) rc
      else if op = QEMU_OP_REGISTER_PCI_DEV then
        rc (pcidev_register E X io_proxy (PCI_DEVFN (ucast (mr1 msg)) 0) st vm)
      else Inr (RPCMSG_RC_NONE, st, vm))"

text \<open>\<open>irq_init\<close>: the loop over the pins from \<open>i\<close> on, and the function with its static \<open>done\<close>.\<close>
function irq_init_loop ::
  "'vm vm_ops \<Rightarrow> 'vm pci_env \<Rightarrow> nat \<Rightarrow> pci_state \<Rightarrow> 'vm \<Rightarrow> (int \<times> pci_state \<times> 'vm) res" where
  "irq_init_loop E X i st vm =
     (if i < PCI_NUM_PINS then
        if length (pci_intx st) \<le> i then Inl Out_Of_Bounds
        else case shared_irq_line_init E (pci_intx st ! i) BOOT_VCPU (INTERRUPT_PCI_INTX_BASE X + of_nat i) vm of
          (err, line, vm) \<Rightarrow>
            let st = st\<lparr>pci_intx := (pci_intx st)[i := line]\<rparr> in
            if err \<noteq> 0 then Inr (err, st, vm) else irq_init_loop E X (Suc i) st vm
      else Inr (0, st, vm))"
  by pat_completeness auto
termination
  by (relation "measure (\<lambda>(E, X, i, st, vm). PCI_NUM_PINS - i)") auto

declare irq_init_loop.simps [simp del]

definition irq_init ::
  "'vm vm_ops \<Rightarrow> 'vm pci_env \<Rightarrow> bool \<Rightarrow> pci_state \<Rightarrow> 'vm \<Rightarrow> (int \<times> bool \<times> pci_state \<times> 'vm) res" where
  "irq_init E X initialised st vm =
     (if initialised then Inr (0, True, st, vm)
      else res_bind (irq_init_loop E X 0 st vm) (\<lambda>(err, st, vm).
        Inr (if err = 0 then 0 else -1, err = 0, st, vm)))"

section \<open>The interrupt lines\<close>

text \<open>
  The lines are set up: one per pin, at the boot CPU, with consecutive interrupts that do
  not wrap, each in step with the guest's view.
\<close>
definition intx_ok :: "('vm \<Rightarrow> nat \<Rightarrow> u32 \<Rightarrow> bool) \<Rightarrow> u32 \<Rightarrow> pci_state \<Rightarrow> 'vm \<Rightarrow> bool" where
  "intx_ok level base st vm \<longleftrightarrow> length (pci_intx st) = 4
     \<and> (\<forall>p < 4. shared_vcpu (pci_intx st ! p) = BOOT_VCPU \<and> shared_irq (pci_intx st ! p) = base + of_nat p
              \<and> line_synced level (pci_intx st ! p) vm)"

lemma pci_map_irq_less [simp]: "pci_map_irq d < 4"
  by (simp add: pci_map_irq_def pci_swizzle_def PCI_NUM_PINS_def)

lemma slot_is_pci [simp]: "irq_is_pci (PCI_SLOT d)"
  using PCI_SLOT_less [of d] by (simp add: irq_is_pci_def PCI_NUM_SLOTS_def word_less_nat_alt)

lemma base_inject: "base + of_nat p = base + of_nat q \<Longrightarrow> p < 4 \<Longrightarrow> q < 4 \<Longrightarrow> p = q" for base :: u32
proof -
  assume "base + of_nat p = base + of_nat q" "p < 4" "q < 4"
  then have "(of_nat p :: u32) = of_nat q" "p < 2 ^ 32" "q < 2 ^ 32" by simp_all
  then have "unat (of_nat p :: u32) = unat (of_nat q :: u32)" by simp
  with \<open>p < 4\<close> \<open>q < 4\<close> show "p = q" by (simp add: unat_of_nat)
qed

lemma intx_set_ok:
  assumes E: "irq_spec E level" and ok: "intx_ok level base st vm"
    and dev: "pcidev_find st io_proxy bdf = Some d" and slot: "PCI_SLOT (devfn d) < 31"
  obtains rc line vm' where
    "pcidev_intx_set E io_proxy bdf b st vm = Inr (rc, st\<lparr>pci_intx := (pci_intx st)[pci_map_irq d := line]\<rparr>, vm')"
    "active_sources line = (let A = active_sources (pci_intx st ! pci_map_irq d); k = unat (PCI_SLOT (devfn d)) in
       if b then insert k A else A - {k})"
    "rc = 0 \<Longrightarrow> intx_ok level base (st\<lparr>pci_intx := (pci_intx st)[pci_map_irq d := line]\<rparr>) vm'"
    "\<And>v i. (v, i) \<noteq> (BOOT_VCPU, base + of_nat (pci_map_irq d)) \<Longrightarrow> level vm' v i = level vm v i"
proof -
  let ?p = "pci_map_irq d"
  let ?l = "pci_intx st ! ?p"
  have l: "length (pci_intx st) = 4" "shared_vcpu ?l = BOOT_VCPU" "shared_irq ?l = base + of_nat ?p"
    "line_synced level ?l vm"
    using ok by (simp_all add: intx_ok_def)
  show thesis
  proof (rule shared_change [OF E l(4) slot, of b])
    fix rc line vm'
    assume ch: "shared_irq_line_change E ?l (PCI_SLOT (devfn d)) b vm = Inr (rc, line, vm')"
      and act: "active_sources line =
        (if b then insert (unat (PCI_SLOT (devfn d))) (active_sources ?l) else active_sources ?l - {unat (PCI_SLOT (devfn d))})"
      and keep: "shared_vcpu line = shared_vcpu ?l" "shared_irq line = shared_irq ?l"
      and sync: "rc = 0 \<Longrightarrow> line_synced level line vm'"
      and frame: "\<And>v i. (v, i) \<noteq> (shared_vcpu ?l, shared_irq ?l) \<Longrightarrow> level vm' v i = level vm v i"
    let ?st = "st\<lparr>pci_intx := (pci_intx st)[?p := line]\<rparr>"
    have "intx_ok level base ?st vm'" if "rc = 0"
    proof -
      have "line_synced level (pci_intx st ! q) vm'" if "q < 4" "q \<noteq> ?p" for q
      proof -
        have "base + of_nat q \<noteq> base + of_nat ?p" using base_inject [of base q ?p] that by auto
        then have "level vm' BOOT_VCPU (base + of_nat q) = level vm BOOT_VCPU (base + of_nat q)"
          by (intro frame) (simp add: l(2,3))
        moreover have "shared_vcpu (pci_intx st ! q) = BOOT_VCPU" "shared_irq (pci_intx st ! q) = base + of_nat q"
          "line_synced level (pci_intx st ! q) vm"
          using ok that(1) by (simp_all add: intx_ok_def)
        ultimately show ?thesis by (simp add: line_synced_def)
      qed
      with ok sync that keep l show ?thesis by (auto simp: intx_ok_def nth_list_update)
    qed
    moreover have "pcidev_intx_set E io_proxy bdf b st vm = Inr (rc, ?st, vm')"
      using dev ch l(1) pci_map_irq_less [of d] by (simp add: pcidev_intx_set_def Let_def not_le)
    ultimately show thesis
      using that act frame l(2,3) by (simp add: Let_def)
  qed
qed

lemma irq_init_loop_ok:
  assumes E: "irq_spec E level" and len: "length (pci_intx st) = 4"
    and set: "\<forall>p < i. shared_vcpu (pci_intx st ! p) = BOOT_VCPU \<and> shared_irq (pci_intx st ! p) = INTERRUPT_PCI_INTX_BASE X + of_nat p
      \<and> sources (pci_intx st ! p) = 0" and i: "i \<le> 4"
  shows "\<exists>rc st' vm'. irq_init_loop E X i st vm = Inr (rc, st', vm') \<and> pci_devs st' = pci_devs st
    \<and> level vm' = level vm \<and> length (pci_intx st') = 4
    \<and> (rc = 0 \<longrightarrow> (\<forall>p < 4. shared_vcpu (pci_intx st' ! p) = BOOT_VCPU
         \<and> shared_irq (pci_intx st' ! p) = INTERRUPT_PCI_INTX_BASE X + of_nat p \<and> sources (pci_intx st' ! p) = 0))"
  using len set i
proof (induction "4 - i" arbitrary: i st vm)
  case 0
  then show ?case by (simp add: irq_init_loop.simps PCI_NUM_PINS_def)
next
  case (Suc n)
  have i4: "i < 4" using Suc.hyps(2) by linarith
  obtain rc line vm1 where init:
    "shared_irq_line_init E (pci_intx st ! i) BOOT_VCPU (INTERRUPT_PCI_INTX_BASE X + of_nat i) vm = (rc, line, vm1)"
    by (metis prod_cases3)
  have line: "shared_vcpu line = BOOT_VCPU" "shared_irq line = INTERRUPT_PCI_INTX_BASE X + of_nat i" "sources line = 0"
    and lev: "level vm1 = level vm"
    using init irq_specD(2) [OF E]
    by (auto simp: shared_irq_line_init_def Let_def split: prod.splits if_splits)
  let ?st = "st\<lparr>pci_intx := (pci_intx st)[i := line]\<rparr>"
  have step: "irq_init_loop E X i st vm = (if rc \<noteq> 0 then Inr (rc, ?st, vm1) else irq_init_loop E X (Suc i) ?st vm1)"
    using Suc.prems(1) i4 init by (subst irq_init_loop.simps) (simp add: PCI_NUM_PINS_def)
  show ?case
  proof (cases "rc = 0")
    case False
    with step lev Suc.prems(1) show ?thesis by simp
  next
    case True
    have "\<exists>rc st' vm'. irq_init_loop E X (Suc i) ?st vm1 = Inr (rc, st', vm') \<and> pci_devs st' = pci_devs ?st
      \<and> level vm' = level vm1 \<and> length (pci_intx st') = 4
      \<and> (rc = 0 \<longrightarrow> (\<forall>p < 4. shared_vcpu (pci_intx st' ! p) = BOOT_VCPU
         \<and> shared_irq (pci_intx st' ! p) = INTERRUPT_PCI_INTX_BASE X + of_nat p \<and> sources (pci_intx st' ! p) = 0))"
    proof (rule Suc.hyps(1))
      show "\<forall>p < Suc i. shared_vcpu (pci_intx ?st ! p) = BOOT_VCPU
          \<and> shared_irq (pci_intx ?st ! p) = INTERRUPT_PCI_INTX_BASE X + of_nat p \<and> sources (pci_intx ?st ! p) = 0"
        using Suc.prems(1,2) i4 line by (auto simp: nth_list_update less_Suc_eq)
    qed (use Suc i4 in auto)
    with True step lev show ?thesis by simp
  qed
qed

section \<open>Properties\<close>

text \<open>
  C36. INTx interrupts of PCI devices are routed and shared correctly: with the lines set up,
  raising or lowering the interrupt of a registered device in a slot below 31 changes only
  the line its slot maps to, records the slot as a source of that line, and if it returns
  zero keeps every line equal to the OR of its sources in the guest's view.
\<close>
theorem intx_routing:
  assumes "irq_spec E level" "intx_ok level base st vm" "pcidev_find st io_proxy bdf = Some d"
    and "PCI_SLOT (devfn d) < 31"
  shows "\<exists>rc st' vm'. pcidev_intx_set E io_proxy bdf b st vm = Inr (rc, st', vm') \<and> pci_devs st' = pci_devs st
    \<and> (\<forall>p. p \<noteq> pci_map_irq d \<longrightarrow> pci_intx st' ! p = pci_intx st ! p)
    \<and> (unat (PCI_SLOT (devfn d)) \<in> active_sources (pci_intx st' ! pci_map_irq d)) = b
    \<and> (\<forall>v i. (v, i) \<noteq> (BOOT_VCPU, base + of_nat (pci_map_irq d)) \<longrightarrow> level vm' v i = level vm v i)
    \<and> (rc = 0 \<longrightarrow> intx_ok level base st' vm' \<and> (b \<longrightarrow> level vm' BOOT_VCPU (base + of_nat (pci_map_irq d))))"
proof -
  have p: "pci_map_irq d < length (pci_intx st)" using assms(2) by (simp add: intx_ok_def)
  show ?thesis
  proof (rule intx_set_ok [OF assms, of b])
    fix rc line vm'
    let ?st = "st\<lparr>pci_intx := (pci_intx st)[pci_map_irq d := line]\<rparr>"
    assume run: "pcidev_intx_set E io_proxy bdf b st vm = Inr (rc, ?st, vm')"
      and act: "active_sources line = (let A = active_sources (pci_intx st ! pci_map_irq d); k = unat (PCI_SLOT (devfn d)) in
         if b then insert k A else A - {k})"
      and ok: "rc = 0 \<Longrightarrow> intx_ok level base ?st vm'"
      and frame: "\<And>v i. (v, i) \<noteq> (BOOT_VCPU, base + of_nat (pci_map_irq d)) \<Longrightarrow> level vm' v i = level vm v i"
    have "level vm' BOOT_VCPU (base + of_nat (pci_map_irq d))" if "rc = 0" b
    proof -
      have l: "shared_vcpu line = BOOT_VCPU" "shared_irq line = base + of_nat (pci_map_irq d)" "line_synced level line vm'"
        using ok [OF that(1)] p by (auto simp: intx_ok_def dest: spec [of _ "pci_map_irq d"])
      moreover have "sources line \<noteq> 0" using act that(2) active_sources_empty [of line] by (auto simp: Let_def)
      ultimately show ?thesis by (simp add: line_synced_def)
    qed
    with run act ok frame p show ?thesis by (auto simp: Let_def)
  qed
qed

text \<open>
  The interrupt a guest reads from a device's configuration space is the interrupt the
  device raises: the interrupt line register gives the number of the shared line the
  device's slot maps to, and the pin register its pin plus one, without asking the backend.
\<close>
lemma cfg_interrupt_is_routed:
  assumes "intx_ok level (INTERRUPT_PCI_INTX_BASE X) st vm" "PCI_INTERRUPT_LINE X \<noteq> PCI_INTERRUPT_PIN X"
  shows "pci_cfg_read8 X native d (PCI_INTERRUPT_LINE X) px nt
      = Inr (ucast (shared_irq (pci_intx st ! pci_map_irq d)), px, nt)
    \<and> pci_cfg_read8 X native d (PCI_INTERRUPT_PIN X) px nt = Inr (of_nat (Suc (pci_map_irq d)), px, nt)"
  using assms by (auto simp: pci_cfg_read8_def intx_ok_def)

text \<open>
  The device table never overflows and finds what it holds: registration fails without
  effect on the table when 31 devices are registered, and a device that is registered and
  was not known is found under its backend and function afterwards; devices registered
  before are still found.
\<close>
lemma pcidev_register_find:
  assumes "length (pci_devs st) \<le> 31" "pcidev_register E X io_proxy bdf st vm = (rc, st', vm')"
  shows "length (pci_devs st') \<le> 31 \<and> (rc \<noteq> 0 \<longrightarrow> st' = st) \<and> (length (pci_devs st) = 31 \<longrightarrow> rc \<noteq> 0)
    \<and> (rc = 0 \<longrightarrow> (\<exists>d. pcidev_find st' io_proxy bdf = Some d \<and> pci_io_proxy d = io_proxy \<and> backend_devfn d = bdf))
    \<and> (\<forall>p f d. pcidev_find st p f = Some d \<longrightarrow> pcidev_find st' p f = Some d)"
proof -
  have num: "PCI_NUM_AVAIL_DEVICES = 31" by (simp add: PCI_NUM_AVAIL_DEVICES_def PCI_NUM_SLOTS_def)
  have cases: "rc \<noteq> 0 \<and> st' = st \<or> rc = 0 \<and> length (pci_devs st) < 31 \<and>
      (\<exists>d. st' = st\<lparr>pci_devs := pci_devs st @ [d]\<rparr> \<and> pci_io_proxy d = io_proxy \<and> backend_devfn d = bdf)"
    using assms(2) by (auto simp: pcidev_register_def num split: if_splits prod.splits)
  have app: "pcidev_find_from (ds @ [d]) p f =
      (case pcidev_find_from ds p f of Some x \<Rightarrow> Some x
       | None \<Rightarrow> if pci_io_proxy d = p \<and> backend_devfn d = f then Some d else None)" for ds d p f
    by (induction ds) auto
  have found: "pci_io_proxy x = p \<and> backend_devfn x = f" if "pcidev_find_from ds p f = Some x" for ds p f x
    using that by (induction ds) (auto split: if_splits)
  from cases show ?thesis
    using assms(1) found by (auto simp: pcidev_find_def app split: option.split)
qed

text \<open>
  \<open>irq_init\<close> sets up the INTx lines once: if the four interrupts are low and it succeeds,
  the lines are set up and in step with the guest; once it has succeeded a further call
  changes nothing.
\<close>
lemma irq_init_establishes:
  assumes "irq_spec E level" "length (pci_intx st) = 4"
    and "\<forall>p < 4. \<not> level vm BOOT_VCPU (INTERRUPT_PCI_INTX_BASE X + of_nat p)"
  shows "\<exists>rc ini st' vm'. irq_init E X False st vm = Inr (rc, ini, st', vm') \<and> (rc = 0) = ini \<and> level vm' = level vm
    \<and> pci_devs st' = pci_devs st
    \<and> (ini \<longrightarrow> intx_ok level (INTERRUPT_PCI_INTX_BASE X) st' vm' \<and> irq_init E X ini st' vm' = Inr (0, ini, st', vm'))"
proof -
  obtain rc st' vm' where run: "irq_init_loop E X 0 st vm = Inr (rc, st', vm')" "level vm' = level vm" "pci_devs st' = pci_devs st"
    "length (pci_intx st') = 4" "rc = 0 \<longrightarrow> (\<forall>p < 4. shared_vcpu (pci_intx st' ! p) = BOOT_VCPU
       \<and> shared_irq (pci_intx st' ! p) = INTERRUPT_PCI_INTX_BASE X + of_nat p \<and> sources (pci_intx st' ! p) = 0)"
    using irq_init_loop_ok [OF assms(1,2), of 0 X vm] by auto
  have "intx_ok level (INTERRUPT_PCI_INTX_BASE X) st' vm'" if "rc = 0"
    using run that assms(3) by (simp add: intx_ok_def line_synced_def)
  with run(1-3) show ?thesis by (simp add: irq_init_def)
qed

text \<open>A bus whose first interrupt is 160, with one device in slot 6.\<close>
definition demo_pci :: "demo_vm pci_env" where
  "demo_pci = \<lparr>vmm_pci_add_entry = (\<lambda>vm. (0, 6, 0, vm)), PCI_INTERRUPT_LINE = 0x3c, PCI_INTERRUPT_PIN = 0x3d,
     INTERRUPT_PCI_INTX_BASE = 160\<rparr>"

definition demo_dev :: pcidev where
  "demo_dev = \<lparr>devfn = PCI_DEVFN 6 0, backend_devfn = PCI_DEVFN 2 0, pci_io_proxy = 4\<rparr>"

definition demo_bus :: pci_state where
  "demo_bus = \<lparr>pci_devs = [demo_dev], pci_intx = map (\<lambda>p. \<lparr>shared_vcpu = 0, shared_irq = 160 + of_nat p, sources = 0\<rparr>) [0..<4]\<rparr>"

lemma demo_bus_ok: "intx_ok demo_level 160 demo_bus demo_vm0"
  by (simp add: intx_ok_def demo_bus_def BOOT_VCPU_def line_synced_def demo_vm0_def)

lemma demo_dev_found: "pcidev_find demo_bus 4 (PCI_DEVFN 2 0) = Some demo_dev" "PCI_SLOT (devfn demo_dev) = 6"
  by (simp_all add: pcidev_find_def demo_bus_def demo_dev_def PCI_DEVFN_slot)

lemma demo_dev_pin: "pci_map_irq demo_dev = 2"
  by (simp add: pci_map_irq_def pci_swizzle_def PCI_NUM_PINS_def demo_dev_found)

theorem intx_routing_witness:
  "\<exists>rc st' vm'. pcidev_intx_set demo_ops 4 (PCI_DEVFN 2 0) True demo_bus demo_vm0 = Inr (rc, st', vm')
     \<and> (rc = 0 \<longrightarrow> demo_level vm' BOOT_VCPU 162) \<and> 6 \<in> active_sources (pci_intx st' ! 2)"
  using intx_routing [OF demo_irq_spec demo_bus_ok demo_dev_found(1), of True]
  by (auto simp: demo_dev_found demo_dev_pin)

end
