(* ===== verification/Reservations.thy ===== *)
theory Reservations
  imports Irq_Line
begin

text \<open>
  The registries of interrupts and MMIO regions that backends own: \<open>src/list.c\<close>,
  \<open>src/irq_reservations.c\<close> and \<open>src/mmio_reservations.c\<close>. The lists themselves are
  libutils' (\<open>list_append\<close>, \<open>list_remove\<close>, \<open>list_init\<close> are parameters); \<open>list_item\<close> is this
  repository's.

  The locale \<open>keyed\<close> states what makes a comparison function a lookup by key; with it a
  registry is a finite map. It is interpreted on both comparison functions.
\<close>

section \<open>Definitions\<close>

fun list_item :: "'d list \<Rightarrow> 'd \<Rightarrow> ('d \<Rightarrow> 'd \<Rightarrow> int) \<Rightarrow> 'd option" where
  "list_item [] data cmp = None"
| "list_item (x # xs) data cmp = (if cmp x data = 0 then Some x else list_item xs data cmp)"

definition irq_line_cmp :: "irq_line \<Rightarrow> irq_line \<Rightarrow> int" where
  "irq_line_cmp a b = (if line_irq a = line_irq b \<and> line_cookie a = line_cookie b then 0 else 1)"

definition irq_res_find :: "irq_line list \<Rightarrow> nat \<Rightarrow> u32 \<Rightarrow> irq_line option" where
  "irq_res_find irqs io_proxy irq =
     list_item irqs \<lparr>line_vcpu = 0, line_irq = irq, line_cookie = io_proxy\<rparr> irq_line_cmp"

definition irq_res_assign ::
  "'vm vm_ops \<Rightarrow> irq_line list_ops \<Rightarrow> irq_line list \<Rightarrow> nat \<Rightarrow> nat \<Rightarrow> u32 \<Rightarrow> 'vm
     \<Rightarrow> int \<times> irq_line list \<times> 'vm" where
  "irq_res_assign E L irqs io_proxy vcpu irq vm =
     (case calloc_ok E vm of (ok, vm) \<Rightarrow>
        if \<not> ok then (-1, irqs, vm)
        else case irq_line_init E \<lparr>line_vcpu = 0, line_irq = 0, line_cookie = 0\<rparr> vcpu irq io_proxy vm of
          (err, irq_line, vm) \<Rightarrow>
            if err \<noteq> 0 then (err, irqs, vm)
            else case list_append L irqs irq_line of (err, irqs) \<Rightarrow> (err, irqs, vm))"

text \<open>
  \<open>irq_res_free\<close> hands \<open>list_remove\<close> the address of its local pointer where the comparison
  expects a line: the comparison reads past that variable.
\<close>
definition irq_res_free :: "irq_line list \<Rightarrow> nat \<Rightarrow> u32 \<Rightarrow> (int \<times> irq_line list) res" where
  "irq_res_free irqs io_proxy irq =
     (case irq_res_find irqs io_proxy irq of
        None \<Rightarrow> Inr (-1, irqs)
      | Some r \<Rightarrow> Inl Out_Of_Bounds)"

definition irq_res_init :: "irq_line list_ops \<Rightarrow> irq_line list \<Rightarrow> int \<times> irq_line list" where
  "irq_res_init L irqs = list_init L irqs"

record mmio_reservation =
  mmio_addr :: u64
  mmio_len :: u64
  mmio_res :: nat
  mmio_proxy :: nat

definition mmio_res_cmp :: "mmio_reservation \<Rightarrow> mmio_reservation \<Rightarrow> int" where
  "mmio_res_cmp a b =
     (if mmio_addr a = mmio_addr b \<and> mmio_len a = mmio_len b \<and> mmio_proxy a = mmio_proxy b then 0 else 1)"

definition mmio_match :: "nat \<Rightarrow> u64 \<Rightarrow> u64 \<Rightarrow> mmio_reservation" where
  "mmio_match io_proxy addr sz = \<lparr>mmio_addr = addr, mmio_len = sz, mmio_res = 0, mmio_proxy = io_proxy\<rparr>"

definition mmio_res_find :: "mmio_reservation list \<Rightarrow> nat \<Rightarrow> u64 \<Rightarrow> u64 \<Rightarrow> mmio_reservation option" where
  "mmio_res_find mmios io_proxy addr sz = list_item mmios (mmio_match io_proxy addr sz) mmio_res_cmp"

definition mmio_res_assign ::
  "'vm vm_ops \<Rightarrow> mmio_reservation list_ops \<Rightarrow> mmio_reservation list \<Rightarrow> fault_callback \<Rightarrow> nat \<Rightarrow> u64 \<Rightarrow> u64 \<Rightarrow> 'vm
     \<Rightarrow> int \<times> mmio_reservation list \<times> 'vm" where
  "mmio_res_assign E L mmios fault_handler io_proxy addr sz vm =
     (case vm_reserve_memory_at E addr sz fault_handler io_proxy vm of (res, vm) \<Rightarrow>
        case res of
          None \<Rightarrow> (-1, mmios, vm)
        | Some r \<Rightarrow>
            (case calloc_ok E vm of (ok, vm) \<Rightarrow>
               if \<not> ok then (-1, mmios, vm)
               else case list_append L mmios \<lparr>mmio_addr = addr, mmio_len = sz, mmio_res = r, mmio_proxy = io_proxy\<rparr> of
                 (err, mmios) \<Rightarrow> (err, mmios, vm)))"

definition mmio_res_free ::
  "'vm vm_ops \<Rightarrow> mmio_reservation list_ops \<Rightarrow> mmio_reservation list \<Rightarrow> nat \<Rightarrow> u64 \<Rightarrow> u64 \<Rightarrow> 'vm
     \<Rightarrow> int \<times> mmio_reservation list \<times> 'vm" where
  "mmio_res_free E L mmios io_proxy addr sz vm =
     (case list_item mmios (mmio_match io_proxy addr sz) mmio_res_cmp of
        None \<Rightarrow> (-1, mmios, vm)
      | Some res \<Rightarrow>
          (case list_remove L mmios (mmio_match io_proxy addr sz) mmio_res_cmp of (err, mmios) \<Rightarrow>
             case vm_reservation_free E (mmio_res res) vm of (err, vm) \<Rightarrow> (err, mmios, vm)))"

definition mmio_res_init :: "mmio_reservation list_ops \<Rightarrow> mmio_reservation list \<Rightarrow> int \<times> mmio_reservation list" where
  "mmio_res_init L mmios = list_init L mmios"

section \<open>Registries as maps\<close>

locale keyed =
  fixes cmp :: "'d \<Rightarrow> 'd \<Rightarrow> int"
    and key :: "'d \<Rightarrow> 'k"
  assumes cmp_key: "cmp a b = 0 \<longleftrightarrow> key a = key b"
begin

text \<open>The registry as a map, and a registry in which every key occurs once.\<close>
definition lookup :: "'d list \<Rightarrow> 'k \<Rightarrow> 'd option" where
  "lookup l = map_of (map (\<lambda>d. (key d, d)) l)"

definition uniq :: "'d list \<Rightarrow> bool" where
  "uniq l \<longleftrightarrow> distinct (map key l)"

lemma item_lookup: "list_item l d cmp = lookup l (key d)"
  by (induction l) (auto simp: lookup_def cmp_key)

lemma lookup_key: "lookup l k = Some d \<Longrightarrow> key d = k \<and> d \<in> set l"
  by (auto simp: lookup_def dest: map_of_SomeD)

lemma lookup_None_iff: "lookup l k = None \<longleftrightarrow> k \<notin> key ` set l"
  by (force simp: lookup_def map_of_eq_None_iff)

lemma lookup_append:
  "lookup (l @ [d]) k = (case lookup l k of Some x \<Rightarrow> Some x | None \<Rightarrow> if k = key d then Some d else None)"
  by (auto simp: lookup_def map_add_def split: option.split)

lemma uniq_append: "uniq l \<Longrightarrow> lookup l (key d) = None \<Longrightarrow> uniq (l @ [d])"
  by (auto simp: uniq_def lookup_None_iff)

lemma remove_key:
  assumes "uniq l"
  shows "lookup (remove_match (\<lambda>y. cmp y d = 0) l) = (lookup l)(key d := None)"
    and "uniq (remove_match (\<lambda>y. cmp y d = 0) l)"
proof -
  have "key ` set (remove_match P l) \<subseteq> key ` set l" for P and l :: "'d list"
    using set_remove_match by fastforce
  then show "uniq (remove_match (\<lambda>y. cmp y d = 0) l)"
    using assms by (induction l) (auto simp: uniq_def)
  show "lookup (remove_match (\<lambda>y. cmp y d = 0) l) = (lookup l)(key d := None)"
    using assms
  proof (induction l)
    case Nil
    then show ?case by (auto simp: lookup_def)
  next
    case (Cons x l)
    then show ?case
      by (auto simp: lookup_def uniq_def cmp_key fun_eq_iff map_of_eq_None_iff image_image)
  qed
qed

text \<open>Removing what was just added gives back the registry.\<close>
lemma append_remove:
  assumes "lookup l (key d) = None"
  shows "remove_match (\<lambda>y. cmp y d = 0) (l @ [d]) = l"
  using assms by (induction l) (auto simp: lookup_def cmp_key)

end

definition irq_key :: "irq_line \<Rightarrow> u32 \<times> nat" where
  "irq_key l = (line_irq l, line_cookie l)"

definition mmio_key :: "mmio_reservation \<Rightarrow> u64 \<times> u64 \<times> nat" where
  "mmio_key r = (mmio_addr r, mmio_len r, mmio_proxy r)"

interpretation irqs: keyed irq_line_cmp irq_key
  by unfold_locales (auto simp: irq_line_cmp_def irq_key_def)

interpretation mmios: keyed mmio_res_cmp mmio_key
  by unfold_locales (auto simp: mmio_res_cmp_def mmio_key_def)

lemma irq_res_find_lookup: "irq_res_find irqs io_proxy irq = irqs.lookup irqs (irq, io_proxy)"
  by (simp add: irq_res_find_def irqs.item_lookup irq_key_def)

lemma mmio_res_find_lookup: "mmio_res_find l io_proxy addr sz = mmios.lookup l (addr, sz, io_proxy)"
  by (simp add: mmio_res_find_def mmios.item_lookup mmio_key_def mmio_match_def)

section \<open>Properties\<close>

lemma irq_assign_cases:
  assumes "list_spec L" "irq_res_assign E L irqs io_proxy vcpu irq vm = (rc, irqs', vm')"
  shows "irqs' = (if rc = 0 then irqs @ [\<lparr>line_vcpu = vcpu, line_irq = irq, line_cookie = io_proxy\<rparr>] else irqs)"
  using assms(2)
  by (auto simp: irq_res_assign_def irq_line_init_def Let_def split: prod.splits if_splits
      dest: list_specD(1) [OF assms(1)])

text \<open>
  The interrupt registry finds what was registered: registering an interrupt a backend
  does not have yet makes \<open>irq_res_find\<close> return a line with that interrupt, CPU and
  backend; every other lookup is unchanged, keys stay unique, and a failed registration
  changes nothing.
\<close>
lemma irq_registry_insert_lookup:
  assumes "list_spec L" "irq_res_find irqs io_proxy irq = None" "irqs.uniq irqs"
    and "irq_res_assign E L irqs io_proxy vcpu irq vm = (rc, irqs', vm')"
  shows "(rc = 0 \<longrightarrow> irq_res_find irqs' io_proxy irq = Some \<lparr>line_vcpu = vcpu, line_irq = irq, line_cookie = io_proxy\<rparr>)
    \<and> (\<forall>p i. (p, i) \<noteq> (io_proxy, irq) \<longrightarrow> irq_res_find irqs' p i = irq_res_find irqs p i)
    \<and> (rc \<noteq> 0 \<longrightarrow> irqs' = irqs) \<and> irqs.uniq irqs'"
proof -
  let ?line = "\<lparr>line_vcpu = vcpu, line_irq = irq, line_cookie = io_proxy\<rparr>"
  have k: "irq_key ?line = (irq, io_proxy)" by (simp add: irq_key_def)
  have new: "irqs.lookup irqs (irq_key ?line) = None"
    using assms(2) by (simp add: irq_res_find_lookup k)
  show ?thesis
    using irq_assign_cases [OF assms(1,4)] new assms(3) irqs.uniq_append [of irqs ?line]
    by (auto simp: irq_res_find_lookup irqs.lookup_append k split: if_splits option.split)
qed

text \<open>
  Freeing an MMIO region undoes its assignment: after a successful \<open>mmio_res_assign\<close> of a
  region the backend did not own, \<open>mmio_res_free\<close> of the same region releases exactly the
  reservation the assignment made, restores the registry, and returns the result of the
  release.
\<close>
lemma mmio_assign_free:
  assumes "list_spec L" "mmio_res_find mmios io_proxy addr sz = None"
    and "mmio_res_assign E L mmios cb io_proxy addr sz vm = (0, mmios1, vm1)"
  shows "\<exists>r. fst (vm_reserve_memory_at E addr sz cb io_proxy vm) = Some r
    \<and> mmio_res_free E L mmios1 io_proxy addr sz vm2 =
        (fst (vm_reservation_free E r vm2), mmios, snd (vm_reservation_free E r vm2))"
proof -
  obtain r where r: "fst (vm_reserve_memory_at E addr sz cb io_proxy vm) = Some r"
    and m: "mmios1 = mmios @ [\<lparr>mmio_addr = addr, mmio_len = sz, mmio_res = r, mmio_proxy = io_proxy\<rparr>]"
    using assms(3)
    by (auto simp: mmio_res_assign_def split: prod.splits option.splits if_splits
        dest: list_specD(1) [OF assms(1)])
  let ?d = "\<lparr>mmio_addr = addr, mmio_len = sz, mmio_res = r, mmio_proxy = io_proxy\<rparr>"
  let ?k = "mmio_match io_proxy addr sz"
  have k: "mmio_key ?k = (addr, sz, io_proxy)" "mmio_key ?d = (addr, sz, io_proxy)"
    by (simp_all add: mmio_match_def mmio_key_def)
  have new: "mmios.lookup mmios (addr, sz, io_proxy) = None"
    using assms(2) by (simp add: mmio_res_find_lookup)
  have item: "list_item mmios1 ?k mmio_res_cmp = Some ?d"
    using new by (simp add: mmios.item_lookup m mmios.lookup_append k)
  have same: "(\<lambda>y. mmio_res_cmp y ?k = 0) = (\<lambda>y. mmio_res_cmp y ?d = 0)"
    by (simp add: mmios.cmp_key k)
  obtain e l where rem: "list_remove L mmios1 ?k mmio_res_cmp = (e, l)" by fastforce
  have "e = 0" using list_specD(3) [OF assms(1) rem] m by (auto simp: mmios.cmp_key k)
  then have "l = mmios"
    using list_specD(2) [OF assms(1) rem] new k(2) by (simp add: m same mmios.append_remove)
  with r item rem show ?thesis
    by (auto simp: mmio_res_free_def split: prod.split)
qed

end
