(* ===== verification/Emulated_Device.thy ===== *)
theory Emulated_Device
  imports Reservations Gicv2m Pci_Defs
begin

unbundle bit_operations_syntax

text \<open>
  Devices a backend emulates outside PCI, \<open>src/emulated_device.c\<close>: their interrupts, which
  are registered on first use, and their MMIO regions.
\<close>

section \<open>Definitions\<close>

definition SEL4_MMIO_REGION_FREE :: u32 where "SEL4_MMIO_REGION_FREE = 1"

text \<open>
  The static state of the file and of the two registries. \<open>emu_handler\<close> is \<open>None\<close> until
  \<open>emudev_init\<close> has stored the virtual machine and the fault callback.
\<close>
record emudev =
  emu_handler :: "fault_callback option"
  emu_irqs :: "irq_line list"
  emu_mmios :: "mmio_reservation list"

record emu_lists =
  irq_list_ops :: "irq_line list_ops"
  mmio_list_ops :: "mmio_reservation list_ops"

definition irq_is_emulated_device :: "u32 \<Rightarrow> bool" where
  "irq_is_emulated_device irq \<longleftrightarrow> PCI_NUM_SLOTS \<le> irq"

definition emudev_irq_register ::
  "'vm vm_ops \<Rightarrow> emu_lists \<Rightarrow> emudev \<Rightarrow> nat \<Rightarrow> nat \<Rightarrow> u32 \<Rightarrow> 'vm \<Rightarrow> irq_line option \<times> emudev \<times> 'vm" where
  "emudev_irq_register E L st io_proxy vcpu irq vm =
     (case irq_res_assign E (irq_list_ops L) (emu_irqs st) io_proxy vcpu irq vm of (err, irqs, vm) \<Rightarrow>
        let st = st\<lparr>emu_irqs := irqs\<rparr> in
        if err \<noteq> 0 then (None, st, vm) else (irq_res_find irqs io_proxy irq, st, vm))"

text \<open>The line of an interrupt, registered if need be.\<close>
definition emudev_irq_line ::
  "'vm vm_ops \<Rightarrow> emu_lists \<Rightarrow> emudev \<Rightarrow> nat \<Rightarrow> u32 \<Rightarrow> 'vm \<Rightarrow> (irq_line option \<times> emudev \<times> 'vm) res" where
  "emudev_irq_line E L st io_proxy irq vm =
     (case irq_res_find (emu_irqs st) io_proxy irq of
        Some line \<Rightarrow> Inr (Some line, st, vm)
      | None \<Rightarrow>
          (case emu_handler st of
             None \<Rightarrow> Inl Null_Deref
           | Some h \<Rightarrow> Inr (emudev_irq_register E L st io_proxy BOOT_VCPU irq vm)))"

definition emudev_irq_set ::
  "'vm vm_ops \<Rightarrow> emu_lists \<Rightarrow> emudev \<Rightarrow> nat \<Rightarrow> u32 \<Rightarrow> u32 \<Rightarrow> 'vm \<Rightarrow> (int \<times> emudev \<times> 'vm) res" where
  "emudev_irq_set E L st io_proxy irq op vm =
     (if \<not> irq_is_emulated_device irq then Inr (-1, st, vm)
      else
        res_bind (emudev_irq_line E L st io_proxy irq vm) (\<lambda>(irq_line, st, vm).
          case irq_line of
            None \<Rightarrow> Inr (-1, st, vm)
          | Some line \<Rightarrow>
              if op = ucast RPC_IRQ_SET then
                (case irq_line_change E line True vm of (err, vm) \<Rightarrow> Inr (err, st, vm))
              else if op = ucast RPC_IRQ_CLR then
                (case irq_line_change E line False vm of (err, vm) \<Rightarrow> Inr (err, st, vm))
              else if op = ucast RPC_IRQ_PULSE then
                (case irq_line_pulse E line vm of (err, vm) \<Rightarrow> Inr (err, st, vm))
              else Inr (-1, st, vm)))"

text \<open>\<open>~(SEL4_MMIO_REGION_FREE)\<close> is a 32-bit value, zero-extended against the 64-bit flags.\<close>
definition emudev_mmio_config ::
  "'vm vm_ops \<Rightarrow> emu_lists \<Rightarrow> emudev \<Rightarrow> nat \<Rightarrow> u64 \<Rightarrow> u64 \<Rightarrow> u64 \<Rightarrow> 'vm \<Rightarrow> (int \<times> emudev \<times> 'vm) res" where
  "emudev_mmio_config E L st io_proxy addr sz flags vm =
     (if flags AND ucast (NOT SEL4_MMIO_REGION_FREE) \<noteq> 0 then Inr (-1, st, vm)
      else if flags AND ucast SEL4_MMIO_REGION_FREE \<noteq> 0 then
        (case mmio_res_free E (mmio_list_ops L) (emu_mmios st) io_proxy addr sz vm of (err, mmios, vm) \<Rightarrow>
           Inr (err, st\<lparr>emu_mmios := mmios\<rparr>, vm))
      else
        (case emu_handler st of
           None \<Rightarrow> Inl Null_Deref
         | Some h \<Rightarrow>
             (case mmio_res_assign E (mmio_list_ops L) (emu_mmios st) h io_proxy addr sz vm of (err, mmios, vm) \<Rightarrow>
                Inr (err, st\<lparr>emu_mmios := mmios\<rparr>, vm))))"

definition handle_emudev ::
  "'vm vm_ops \<Rightarrow> emu_lists \<Rightarrow> nat \<Rightarrow> u32 \<Rightarrow> rpcmsg \<Rightarrow> emudev \<Rightarrow> 'vm \<Rightarrow> (int \<times> emudev \<times> 'vm) res" where
  "handle_emudev E L io_proxy op msg st vm =
     (let rc = (\<lambda>(err, st, vm). Inr (if err \<noteq> 0 then RPCMSG_RC_ERROR else RPCMSG_RC_HANDLED, st, vm)) in
      if op = QEMU_OP_MMIO_REGION_CONFIG then
        res_bind (emudev_mmio_config E L st io_proxy (mr1 msg) (mr2 msg) (mr3 msg) vm) rc
      else if op = QEMU_OP_SET_IRQ then
        res_bind (emudev_irq_set E L st io_proxy (ucast (mr1 msg)) (ucast (mr2 msg)) vm) rc
      else Inr (RPCMSG_RC_NONE, st, vm))"

definition emudev_init :: "emu_lists \<Rightarrow> fault_callback \<Rightarrow> emudev \<Rightarrow> int \<times> emudev" where
  "emudev_init L fault_callback_fn st =
     (let st = st\<lparr>emu_handler := Some fault_callback_fn\<rparr> in
      case irq_res_init (irq_list_ops L) (emu_irqs st) of (err, irqs) \<Rightarrow>
        let st = st\<lparr>emu_irqs := irqs\<rparr> in
        if err \<noteq> 0 then (err, st)
        else case mmio_res_init (mmio_list_ops L) (emu_mmios st) of (err, mmios) \<Rightarrow>
          (err, st\<lparr>emu_mmios := mmios\<rparr>))"

section \<open>The invariant\<close>

text \<open>
  Initialised registries: each backend has each interrupt at most once, and every line is
  the boot CPU's.
\<close>
definition emudev_ok :: "emudev \<Rightarrow> bool" where
  "emudev_ok st \<longleftrightarrow> emu_handler st \<noteq> None \<and> irqs.uniq (emu_irqs st)
     \<and> (\<forall>l \<in> set (emu_irqs st). line_vcpu l = BOOT_VCPU)"

definition lists_ok :: "emu_lists \<Rightarrow> bool" where
  "lists_ok L \<longleftrightarrow> list_spec (irq_list_ops L) \<and> list_spec (mmio_list_ops L)"

lemma emudev_init_ok:
  "lists_ok L \<Longrightarrow> emudev_init L cb st = (0, \<lparr>emu_handler = Some cb, emu_irqs = [], emu_mmios = []\<rparr>)"
  by (simp add: lists_ok_def emudev_init_def irq_res_init_def mmio_res_init_def list_specD(4))

lemma found_line:
  assumes "emudev_ok st" "irq_res_find (emu_irqs st) io_proxy irq = Some line"
  shows "line_vcpu line = BOOT_VCPU" "line_irq line = irq"
  using assms irqs.lookup_key [of "emu_irqs st" "(irq, io_proxy)" line]
  by (auto simp: emudev_ok_def irq_res_find_lookup irq_key_def)

lemma assign_level:
  assumes "irq_spec E level" "irq_res_assign E L irqs io_proxy vcpu irq vm = (rc, irqs', vm')"
  shows "level vm' = level vm"
  using assms(2)
  by (auto simp: irq_res_assign_def irq_line_init_def Let_def split: prod.splits if_splits
      dest!: irq_specD(2,3) [OF assms(1)])

text \<open>The line used for an interrupt belongs to it; registering touches no level.\<close>
lemma emudev_irq_line_cases:
  assumes E: "irq_spec E level" and L: "lists_ok L" and ok: "emudev_ok st"
  obtains line st' vm' where "emudev_irq_line E L st io_proxy irq vm = Inr (line, st', vm')"
    "emudev_ok st'" "emu_mmios st' = emu_mmios st" "level vm' = level vm"
    "\<And>l. line = Some l \<Longrightarrow> line_vcpu l = BOOT_VCPU \<and> line_irq l = irq \<and> irq_res_find (emu_irqs st') io_proxy irq = Some l"
proof (cases "irq_res_find (emu_irqs st) io_proxy irq")
  case (Some line)
  with that [of "Some line" st vm] ok found_line [OF ok Some] show thesis
    by (simp add: emudev_irq_line_def)
next
  case None
  obtain rc irqs vm1 where a: "irq_res_assign E (irq_list_ops L) (emu_irqs st) io_proxy BOOT_VCPU irq vm = (rc, irqs, vm1)"
    by (metis prod_cases3)
  have L1: "list_spec (irq_list_ops L)" using L by (simp add: lists_ok_def)
  obtain h where h: "emu_handler st = Some h" using ok by (auto simp: emudev_ok_def)
  let ?st = "st\<lparr>emu_irqs := irqs\<rparr>"
  have uniq: "irqs.uniq (emu_irqs st)" using ok by (simp add: emudev_ok_def)
  have irqs: "irqs = (if rc = 0 then emu_irqs st @ [\<lparr>line_vcpu = BOOT_VCPU, line_irq = irq, line_cookie = io_proxy\<rparr>]
      else emu_irqs st)"
    by (rule irq_assign_cases [OF L1 a])
  have "irqs.uniq irqs"
    using irqs uniq irqs.uniq_append [of "emu_irqs st" "\<lparr>line_vcpu = BOOT_VCPU, line_irq = irq, line_cookie = io_proxy\<rparr>"] None
    by (auto simp: irq_res_find_lookup irq_key_def)
  then have st': "emudev_ok ?st" using ok irqs by (auto simp: emudev_ok_def)
  have run: "emudev_irq_line E L st io_proxy irq vm =
      Inr (if rc \<noteq> 0 then None else irq_res_find irqs io_proxy irq, ?st, vm1)"
    using None h a by (simp add: emudev_irq_line_def emudev_irq_register_def Let_def)
  show thesis
    by (rule that [OF run st' _ assign_level [OF E a]]) (use found_line [OF st'] in \<open>auto split: if_splits\<close>)
qed

text \<open>An interrupt request and the levels of the guest.\<close>
lemma emudev_irq_set_level:
  assumes "irq_spec E level" "lists_ok L" "emudev_ok st" "32 \<le> irq"
  shows "\<exists>rc st' vm'. emudev_irq_set E L st io_proxy irq op vm = Inr (rc, st', vm') \<and> emudev_ok st'
    \<and> (rc = 0 \<longrightarrow> level vm' BOOT_VCPU irq = (op = ucast RPC_IRQ_SET) \<and> irq_res_find (emu_irqs st') io_proxy irq \<noteq> None)
    \<and> (\<forall>v i. (v, i) \<noteq> (BOOT_VCPU, irq) \<longrightarrow> level vm' v i = level vm v i)"
proof (rule emudev_irq_line_cases [OF assms(1-3), of io_proxy irq vm])
  fix line st' vm1
  assume run: "emudev_irq_line E L st io_proxy irq vm = Inr (line, st', vm1)" and st': "emudev_ok st'"
    and lev: "level vm1 = level vm"
    and line: "\<And>l. line = Some l \<Longrightarrow> line_vcpu l = BOOT_VCPU \<and> line_irq l = irq \<and> irq_res_find (emu_irqs st') io_proxy irq = Some l"
  have emu: "irq_is_emulated_device irq" using assms(4) by (simp add: irq_is_emulated_device_def PCI_NUM_SLOTS_def)
  note set = emudev_irq_set_def [of E L st io_proxy irq op vm]
  have ops: "RPC_IRQ_SET = 1" "RPC_IRQ_CLR = 0" "RPC_IRQ_PULSE = 2"
    by (simp_all add: RPC_IRQ_SET_def RPC_IRQ_CLR_def RPC_IRQ_PULSE_def)
  show ?thesis
  proof (cases line)
    case None
    with run emu st' lev show ?thesis by (simp add: set)
  next
    case (Some l)
    note l = line [OF Some]
    obtain e1 v1 where c1: "irq_line_change E l True vm1 = (e1, v1)" by fastforce
    obtain e2 v2 where c2: "irq_line_change E l False vm1 = (e2, v2)" by fastforce
    obtain e3 v3 where c3: "irq_line_pulse E l vm1 = (e3, v3)" by fastforce
    note lv = irq_specD(1) [OF assms(1), of BOOT_VCPU irq]
    show ?thesis
      using run emu st' lev l Some c1 c2 c3 lv irq_line_pulse_level [OF assms(1) c3]
      by (auto simp: set ops irq_line_change_def)
  qed
qed

section \<open>Properties\<close>

text \<open>
  An interrupt request of an emulated device reaches the guest: for an interrupt from 32
  on, if \<open>emudev_irq_set\<close> returns zero then after a set the interrupt is high, after a clear
  or a pulse it is low, the interrupt is registered for the backend, and no other interrupt
  has changed; in every case it returns, and the registry invariant is kept.
\<close>
lemma emudev_irq_reaches_guest:
  assumes "irq_spec E level" "lists_ok L" "emudev_ok st" "32 \<le> irq"
  shows "\<exists>rc st' vm'. emudev_irq_set E L st io_proxy irq op vm = Inr (rc, st', vm') \<and> emudev_ok st'
    \<and> (rc = 0 \<longrightarrow> level vm' BOOT_VCPU irq = (op = ucast RPC_IRQ_SET) \<and> irq_res_find (emu_irqs st') io_proxy irq \<noteq> None)
    \<and> (\<forall>v i. (v, i) \<noteq> (BOOT_VCPU, irq) \<longrightarrow> level vm' v i = level vm v i)"
  using assms by (rule emudev_irq_set_level)

definition demo_lists :: emu_lists where
  "demo_lists = \<lparr>irq_list_ops = demo_list, mmio_list_ops = demo_list\<rparr>"

lemma demo_lists_ok: "lists_ok demo_lists"
  by (simp add: lists_ok_def demo_lists_def demo_list_spec)

definition demo_emudev :: emudev where
  "demo_emudev = \<lparr>emu_handler = Some Mmio_Fault_Handler, emu_irqs = [], emu_mmios = []\<rparr>"

text \<open>
  \<open>emudev_mmio_config\<close> rejects unknown flags only in the low half of the flags word: bits
  32 to 63 have no influence on its result.
\<close>
lemma mmio_flags_high_half_ignored:
  "emudev_mmio_config E L st io_proxy addr sz flags vm
     = emudev_mmio_config E L st io_proxy addr sz (flags AND mask 32) vm"
proof -
  have m: "(ucast x :: u64) = ucast x AND mask 32" for x :: u32
    by (rule bit_word_eqI) (auto simp: bit_simps dest: bit_imp_le_length)
  have "flags AND ucast x = (flags AND mask 32) AND ucast x" for x :: u32
    by (metis m and.assoc and.commute)
  then show ?thesis
    unfolding emudev_mmio_config_def by presburger
qed

end
