(* ===== verification/Vmm_Glue.thy ===== *)
theory Vmm_Glue
  imports Pci Emulated_Device
begin

unbundle bit_operations_syntax

text \<open>
  The monitor's RPC loop and MMIO fault handling, the second part of
  \<open>src/libsel4vm_glue.c\<close>: the chain of message handlers, \<open>rpc_process\<close> and \<open>rpc_run\<close>, the
  fault handler that turns a guest's access into an I/O request, and the initialisation of
  an I/O proxy.

  The locale \<open>handler_chain\<close> states what the dispatcher relies on of every handler (a handler
  that does not know a message leaves everything alone); it is interpreted on the five
  handlers of the monitor.
\<close>

section \<open>Definitions\<close>

text \<open>The state \<open>rpc_run\<close> works on, for one I/O proxy.\<close>
record 'vm vmm =
  g_vm :: 'vm
  g_nt :: natives
  g_px :: io_proxy
  g_pci :: pci_state
  g_emu :: emudev
  g_v2m :: gicv2m

record 'vm glue_env =
  g_ops :: "'vm vm_ops"
  g_lists :: emu_lists
  g_pci_env :: "'vm pci_env"

type_synonym 'vm rpc_callback = "u32 \<Rightarrow> rpcmsg \<Rightarrow> 'vm vmm \<Rightarrow> (int \<times> 'vm vmm) res"

text \<open>The handlers on the whole state.\<close>
definition cb_mmio :: "'vm glue_env \<Rightarrow> 'vm rpc_callback" where
  "cb_mmio G op msg s =
     res_bind (handle_mmio (g_ops G) op msg (g_px s) (g_nt s) (g_vm s)) (\<lambda>(rc, px, nt, vm).
       Inr (rc, s\<lparr>g_px := px, g_nt := nt, g_vm := vm\<rparr>))"

definition cb_msi :: "'vm glue_env \<Rightarrow> 'vm rpc_callback" where
  "cb_msi G op msg s =
     res_bind (handle_msi (g_ops G) (g_v2m s) op msg (g_vm s)) (\<lambda>(rc, vm). Inr (rc, s\<lparr>g_vm := vm\<rparr>))"

definition cb_pci :: "'vm glue_env \<Rightarrow> 'vm rpc_callback" where
  "cb_pci G op msg s =
     res_bind (handle_pci (g_ops G) (g_pci_env G) (px_id (g_px s)) op msg (g_pci s) (g_vm s)) (\<lambda>(rc, pci, vm).
       Inr (rc, s\<lparr>g_pci := pci, g_vm := vm\<rparr>))"

definition cb_emudev :: "'vm glue_env \<Rightarrow> 'vm rpc_callback" where
  "cb_emudev G op msg s =
     res_bind (handle_emudev (g_ops G) (g_lists G) (px_id (g_px s)) op msg (g_emu s) (g_vm s)) (\<lambda>(rc, emu, vm).
       Inr (rc, s\<lparr>g_emu := emu, g_vm := vm\<rparr>))"

definition handle_control :: "u32 \<Rightarrow> rpcmsg \<Rightarrow> io_proxy \<Rightarrow> int \<times> io_proxy" where
  "handle_control op msg px =
     (if op = QEMU_OP_START_VM then
        (RPCMSG_RC_HANDLED, px\<lparr>ok_to_run := 1, backend_started := Suc (backend_started px)\<rparr>)
      else (RPCMSG_RC_NONE, px))"

definition cb_control :: "'vm glue_env \<Rightarrow> 'vm rpc_callback" where
  "cb_control G op msg s = (case handle_control op msg (g_px s) of (rc, px) \<Rightarrow> Inr (rc, s\<lparr>g_px := px\<rparr>))"

definition rpc_callbacks :: "'vm glue_env \<Rightarrow> 'vm rpc_callback list" where
  "rpc_callbacks G = [cb_mmio G, cb_msi G, cb_pci G, cb_emudev G, cb_control G]"

text \<open>The loop over the table: it goes on while handlers return \<open>RPCMSG_RC_NONE\<close>.\<close>
fun run_callbacks :: "(u32 \<Rightarrow> rpcmsg \<Rightarrow> 's \<Rightarrow> (int \<times> 's) res) list \<Rightarrow> u32 \<Rightarrow> rpcmsg \<Rightarrow> 's \<Rightarrow> (int \<times> 's) res" where
  "run_callbacks [] op msg s = Inr (RPCMSG_RC_NONE, s)"
| "run_callbacks (cb # cbs) op msg s =
     res_bind (cb op msg s) (\<lambda>(rc, s).
       if rc = RPCMSG_RC_NONE then run_callbacks cbs op msg s else Inr (rc, s))"

definition rpc_process :: "'vm glue_env \<Rightarrow> rpcmsg \<Rightarrow> 'vm vmm \<Rightarrow> (int \<times> 'vm vmm) res" where
  "rpc_process G msg s =
     (let op = ucast (QEMU_OP (mr0 msg)) in
      res_bind (run_callbacks (rpc_callbacks G) op msg s) (\<lambda>(rc, s).
        Inr (if rc = RPCMSG_RC_ERROR then -1 else if rc = RPCMSG_RC_NONE then -1 else 0, s)))"

text \<open>\<open>rpcmsg_receive_response\<close> on the proxy's response queue, with the message it points to.\<close>
definition next_response :: "'vm vmm \<Rightarrow> ((msgptr \<times> rpcmsg) option \<times> 'vm vmm) res" where
  "next_response s =
     (let px = g_px s; r = response (driver_rpc (px_rpc px)); w = px_mem px in
      res_bind (rpcmsg_receive_response (q_at w r) (b_at w r) (Some 0)) (\<lambda>(m, tid, q).
        let s = s\<lparr>g_px := px\<lparr>px_mem := put_q r q w\<rparr>\<rparr> in
        case m of
          None \<Rightarrow> Inr (None, s)
        | Some m \<Rightarrow> res_bind (msg_read (b_at w r) m) (\<lambda>msg. Inr (Some (m, msg), s))))"

definition reclaim_response :: "msgptr \<Rightarrow> 'vm vmm \<Rightarrow> 'vm vmm res" where
  "reclaim_response m s =
     (let px = g_px s; d = driver_rpc (px_rpc px) in
      res_bind (rpcmsg_reclaim_buffer (buffer_state d) m) (\<lambda>st.
        Inr (s\<lparr>g_px := px\<lparr>px_rpc := (px_rpc px)\<lparr>driver_rpc := d\<lparr>buffer_state := st\<rparr>\<rparr>\<rparr>\<rparr>)))"

definition next_event :: "'vm vmm \<Rightarrow> (rpcmsg option \<times> 'vm vmm) res" where
  "next_event s =
     (let px = g_px s; r = device_event (px_rpc px); w = px_mem px in
      res_bind (rpcmsg_event_rx (q_at w r) (b_at w r) zero_msg) (\<lambda>(rc, msg, q).
        Inr (if rc = 0 then Some msg else None, s\<lparr>g_px := px\<lparr>px_mem := put_q r q w\<rparr>\<rparr>)))"

text \<open>\<open>for_each_driver_rpc_resp\<close> and \<open>for_each_device_event\<close> with the body of \<open>rpc_run\<close>.\<close>
partial_function (option) response_loop :: "'vm glue_env \<Rightarrow> int \<Rightarrow> 'vm vmm \<Rightarrow> (int \<times> 'vm vmm) res option" where
  "response_loop G rc s =
     (case next_response s of
        Inl e \<Rightarrow> Some (Inl e)
      | Inr (None, s) \<Rightarrow> Some (Inr (rc, s))
      | Inr (Some (m, msg), s) \<Rightarrow>
          (case rpc_process G msg s of
             Inl e \<Rightarrow> Some (Inl e)
           | Inr (rc, s) \<Rightarrow>
               if rc \<noteq> 0 then Some (Inr (rc, s))
               else (case reclaim_response m s of
                       Inl e \<Rightarrow> Some (Inl e)
                     | Inr s \<Rightarrow> response_loop G rc s)))"

partial_function (option) event_loop :: "'vm glue_env \<Rightarrow> int \<Rightarrow> 'vm vmm \<Rightarrow> (int \<times> 'vm vmm) res option" where
  "event_loop G rc s =
     (case next_event s of
        Inl e \<Rightarrow> Some (Inl e)
      | Inr (None, s) \<Rightarrow> Some (Inr (rc, s))
      | Inr (Some msg, s) \<Rightarrow>
          (case rpc_process G msg s of
             Inl e \<Rightarrow> Some (Inl e)
           | Inr (rc, s) \<Rightarrow> if rc \<noteq> 0 then Some (Inr (rc, s)) else event_loop G rc s))"

definition run_res :: "'a res option \<Rightarrow> 'a res" where
  "run_res x = (case x of None \<Rightarrow> Inl Diverges | Some r \<Rightarrow> r)"

definition rpc_run :: "'vm glue_env \<Rightarrow> 'vm vmm \<Rightarrow> (int \<times> 'vm vmm) res" where
  "rpc_run G s =
     res_bind (run_res (response_loop G 0 s)) (\<lambda>(rc, s). run_res (event_loop G rc s))"

text \<open>
  The notification callback and the \<open>run\<close> function of the CAmkES template, as instantiated for
  one device: \<open>reg_err\<close> is the result of registering the callback for the next notification.
\<close>
definition vm_ntfn_callback :: "'vm glue_env \<Rightarrow> int \<Rightarrow> 'vm vmm \<Rightarrow> 'vm vmm res" where
  "vm_ntfn_callback G reg_err s =
     (if reg_err \<noteq> 0 then Inl Assert_Failed
      else res_bind (rpc_run G s) (\<lambda>(err, s). if err \<noteq> 0 then Inl Fatal else Inr s))"

definition vm_io_proxy_run :: "'vm glue_env \<Rightarrow> int \<Rightarrow> 'vm vmm \<Rightarrow> (int \<times> 'vm vmm) res" where
  "vm_io_proxy_run G reg_err s = res_bind (vm_ntfn_callback G reg_err s) (\<lambda>s. Inr (0, s))"

definition mmio_fault_handler ::
  "'vm vm_ops \<Rightarrow> nat \<Rightarrow> u64 \<Rightarrow> u64 \<Rightarrow> io_proxy \<Rightarrow> 'vm \<Rightarrow> (memory_fault_result \<times> io_proxy) res" where
  "mmio_fault_handler E vcpu paddr len px vm =
     (let (dir, val) =
        (if \<not> is_vcpu_read_fault E vcpu vm then
           let s = (get_vcpu_fault_address E vcpu vm AND 0x3) * 8;
               m = drop_bit (unat s) (get_vcpu_fault_data_mask E vcpu vm)
           in (SEL4_IO_DIR_WRITE, get_vcpu_fault_data E vcpu vm AND m)
         else (SEL4_IO_DIR_READ, 0))
      in res_bind (ioreq_start px (of_nat vcpu) Ioack_Vcpu_Read Ioack_Vcpu_Write vcpu (ucast AS_GLOBAL) dir paddr len val)
           (\<lambda>(err, px). Inr (if err \<noteq> 0 then FAULT_ERROR else FAULT_HANDLED, px)))"

text \<open>
  \<open>libsel4vm_io_proxy_init\<close>: \<open>sem_err\<close> is the result of \<open>sync_sem_new\<close>, \<open>run\<close> the proxy's \<open>run\<close>
  function, which \<open>io_proxy_run\<close> calls, \<open>ini\<close> the static flag of \<open>irq_init\<close>, \<open>v2m\<close> the address of the MSI
  frame, and \<open>meanwhile\<close> what the backend does to the proxy before the wait is over.
\<close>
definition libsel4vm_io_proxy_init ::
  "'vm glue_env \<Rightarrow> int \<Rightarrow> ('vm vmm \<Rightarrow> (int \<times> 'vm vmm) res) \<Rightarrow> nat \<Rightarrow> (io_proxy \<Rightarrow> io_proxy) \<Rightarrow> bool \<Rightarrow> 'vm vmm
     \<Rightarrow> (int \<times> bool \<times> 'vm vmm) res" where
  "libsel4vm_io_proxy_init G sem_err run v2m meanwhile ini s =
     res_bind (io_proxy_init sem_err (g_px s)) (\<lambda>px.
       case vm_reserve_memory_at (g_ops G) (ctrl_base px) (ctrl_size px) Mmio_Fault_Handler (px_id px) (g_vm s) of
         (r, vm) \<Rightarrow>
           if r = None then Inl Fatal
           else
             res_bind (irq_init (g_ops G) (g_pci_env G) ini (g_pci s) vm) (\<lambda>(err, ini, pci, vm).
               let s = s\<lparr>g_px := px, g_pci := pci, g_vm := vm\<rparr> in
               if err \<noteq> 0 then Inr (-1, ini, s)
               else
                 res_bind (msi_init (g_ops G) v2m (g_v2m s) (g_vm s)) (\<lambda>(err, frame, vm).
                   let s = s\<lparr>g_v2m := frame, g_vm := vm\<rparr> in
                   if err \<noteq> 0 then Inr (-1, ini, s)
                   else case emudev_init (g_lists G) Mmio_Fault_Handler (g_emu s) of (err, emu) \<Rightarrow>
                     let s = s\<lparr>g_emu := emu\<rparr> in
                     if err \<noteq> 0 then Inr (-1, ini, s)
                     else
                       res_bind (run s) (\<lambda>(err, s).
                         if err \<noteq> 0 then Inr (-1, ini, s)
                         else case io_proxy_wait_for_backend (meanwhile (g_px s)) of
                           None \<Rightarrow> Inl Diverges
                         | Some px \<Rightarrow> Inr (0, ini, s\<lparr>g_px := px\<rparr>)))))"

section \<open>Dispatching a message\<close>

locale handler_chain =
  fixes chain :: "((u32 \<Rightarrow> rpcmsg \<Rightarrow> 's \<Rightarrow> (int \<times> 's) res) \<times> (u32 \<Rightarrow> rpcmsg \<Rightarrow> 's \<Rightarrow> bool)) list"
  assumes passes: "(cb, claims) \<in> set chain \<Longrightarrow> \<not> claims op msg s \<Longrightarrow> cb op msg s = Inr (RPCMSG_RC_NONE, s)"
    and takes: "(cb, claims) \<in> set chain \<Longrightarrow> claims op msg s \<Longrightarrow> cb op msg s = Inr (rc, s') \<Longrightarrow> rc \<noteq> RPCMSG_RC_NONE"
begin

text \<open>The first handler that claims the message decides; without one nothing happens.\<close>
lemma first_claim_decides:
  "run_callbacks (map fst chain) op msg s =
     (case find (\<lambda>(cb, claims). claims op msg s) chain of
        None \<Rightarrow> Inr (RPCMSG_RC_NONE, s)
      | Some (cb, claims) \<Rightarrow> cb op msg s)"
proof -
  have "set l \<subseteq> set chain \<Longrightarrow> run_callbacks (map fst l) op msg s =
     (case find (\<lambda>(cb, claims). claims op msg s) l of
        None \<Rightarrow> Inr (RPCMSG_RC_NONE, s)
      | Some (cb, claims) \<Rightarrow> cb op msg s)" for l
  proof (induction l)
    case Nil
    then show ?case by simp
  next
    case (Cons x l)
    obtain cb claims where x: "x = (cb, claims)" by (cases x)
    with Cons.prems have mem: "(cb, claims) \<in> set chain" by auto
    show ?case
    proof (cases "claims op msg s")
      case False
      with passes [OF mem False] Cons x show ?thesis by simp
    next
      case True
      show ?thesis
      proof (cases "cb op msg s")
        case (Inr y)
        then obtain rc s' where "cb op msg s = Inr (rc, s')" by (cases y) auto
        with takes [OF mem True] True x show ?thesis by simp
      qed (use True x in simp)
    qed
  qed
  from this [of chain] show ?thesis by simp
qed

end

text \<open>The messages each handler is responsible for.\<close>
definition claims_mmio :: "u32 \<Rightarrow> rpcmsg \<Rightarrow> 'vm vmm \<Rightarrow> bool" where
  "claims_mmio op msg s \<longleftrightarrow> op = QEMU_OP_MMIO"
definition claims_msi :: "u32 \<Rightarrow> rpcmsg \<Rightarrow> 'vm vmm \<Rightarrow> bool" where
  "claims_msi op msg s \<longleftrightarrow> op = QEMU_OP_SET_IRQ \<and> v2m_irq_valid (g_v2m s) (ucast (mr1 msg))"
definition claims_pci :: "u32 \<Rightarrow> rpcmsg \<Rightarrow> 'vm vmm \<Rightarrow> bool" where
  "claims_pci op msg s \<longleftrightarrow> op = QEMU_OP_SET_IRQ \<and> irq_is_pci (ucast (mr1 msg)) \<or> op = QEMU_OP_REGISTER_PCI_DEV"
definition claims_emudev :: "u32 \<Rightarrow> rpcmsg \<Rightarrow> 'vm vmm \<Rightarrow> bool" where
  "claims_emudev op msg s \<longleftrightarrow> op = QEMU_OP_SET_IRQ \<or> op = QEMU_OP_MMIO_REGION_CONFIG"
definition claims_control :: "u32 \<Rightarrow> rpcmsg \<Rightarrow> 'vm vmm \<Rightarrow> bool" where
  "claims_control op msg s \<longleftrightarrow> op = QEMU_OP_START_VM"

lemmas claims_defs = claims_mmio_def claims_msi_def claims_pci_def claims_emudev_def claims_control_def
lemmas op_defs = QEMU_OP_MMIO_def QEMU_OP_PUTC_LOG_def QEMU_OP_SET_IRQ_def QEMU_OP_START_VM_def
  QEMU_OP_REGISTER_PCI_DEV_def QEMU_OP_MMIO_REGION_CONFIG_def
lemmas rc_defs = RPCMSG_RC_NONE_def RPCMSG_RC_ERROR_def RPCMSG_RC_HANDLED_def

definition vmm_chain :: "'vm glue_env \<Rightarrow> ('vm rpc_callback \<times> (u32 \<Rightarrow> rpcmsg \<Rightarrow> 'vm vmm \<Rightarrow> bool)) list" where
  "vmm_chain G = [(cb_mmio G, claims_mmio), (cb_msi G, claims_msi), (cb_pci G, claims_pci),
     (cb_emudev G, claims_emudev), (cb_control G, claims_control)]"

lemma vmm_chain_callbacks: "map fst (vmm_chain G) = rpc_callbacks G"
  by (simp add: vmm_chain_def rpc_callbacks_def)

interpretation vmm: handler_chain "vmm_chain G" for G
proof unfold_locales
  fix cb claims op msg and s :: "'a vmm"
  assume mem: "(cb, claims) \<in> set (vmm_chain G)"
  show "cb op msg s = Inr (RPCMSG_RC_NONE, s)" if "\<not> claims op msg s"
    using mem that
    by (auto simp: vmm_chain_def claims_defs cb_mmio_def cb_msi_def cb_pci_def cb_emudev_def cb_control_def
        handle_mmio_def handle_msi_def msi_irq_set_def handle_pci_def handle_emudev_def handle_control_def Let_def)
  show "rc \<noteq> RPCMSG_RC_NONE" if "claims op msg s" "cb op msg s = Inr (rc, s')" for rc s'
    using mem that
    by (auto simp: vmm_chain_def claims_defs cb_mmio_def cb_msi_def cb_pci_def cb_emudev_def cb_control_def
        handle_mmio_def handle_msi_def msi_irq_set_def handle_pci_def handle_emudev_def handle_control_def
        Let_def op_defs rc_defs res_simps split: if_splits prod.splits)
qed

text \<open>What \<open>rpc_process\<close> makes of a handler's answer.\<close>
definition verdict :: "(int \<times> 'vm vmm) res \<Rightarrow> (int \<times> 'vm vmm) res" where
  "verdict r = res_bind r (\<lambda>(rc, s). Inr (if rc = RPCMSG_RC_ERROR \<or> rc = RPCMSG_RC_NONE then -1 else 0, s))"

lemma rpc_process_cases:
  assumes "op = ucast (QEMU_OP (mr0 msg))"
  shows "rpc_process G msg s =
    (if op = QEMU_OP_MMIO then verdict (cb_mmio G op msg s)
     else if op = QEMU_OP_SET_IRQ then
       if v2m_irq_valid (g_v2m s) (ucast (mr1 msg)) then verdict (cb_msi G op msg s)
       else if irq_is_pci (ucast (mr1 msg)) then verdict (cb_pci G op msg s)
       else verdict (cb_emudev G op msg s)
     else if op = QEMU_OP_REGISTER_PCI_DEV then verdict (cb_pci G op msg s)
     else if op = QEMU_OP_MMIO_REGION_CONFIG then verdict (cb_emudev G op msg s)
     else if op = QEMU_OP_START_VM then verdict (cb_control G op msg s)
     else Inr (-1, s))"
proof -
  have "rpc_process G msg s = verdict (run_callbacks (map fst (vmm_chain G)) op msg s)"
    by (auto simp: rpc_process_def verdict_def vmm_chain_callbacks assms intro: res_bind_cong)
  then show ?thesis
    unfolding vmm.first_claim_decides
    by (simp add: vmm_chain_def claims_defs op_defs verdict_def rc_defs)
qed

section \<open>Interrupt messages\<close>

text \<open>The guest interrupt an interrupt message of the backend is about, if any.\<close>
definition irq_target :: "'vm glue_env \<Rightarrow> rpcmsg \<Rightarrow> 'vm vmm \<Rightarrow> u32 option" where
  "irq_target G msg s =
     (let irq = ucast (mr1 msg) in
      if v2m_irq_valid (g_v2m s) irq then Some irq
      else if irq_is_pci irq then
        map_option (\<lambda>d. INTERRUPT_PCI_INTX_BASE (g_pci_env G) + of_nat (pci_map_irq d))
          (pcidev_find (g_pci s) (px_id (g_px s)) (PCI_DEVFN irq 0))
      else Some irq)"

text \<open>The interrupt components of the monitor are set up.\<close>
definition irqs_ok :: "'vm glue_env \<Rightarrow> ('vm \<Rightarrow> nat \<Rightarrow> u32 \<Rightarrow> bool) \<Rightarrow> 'vm vmm \<Rightarrow> bool" where
  "irqs_ok G level s \<longleftrightarrow> v2m_ok (g_v2m s) \<and> emudev_ok (g_emu s)
     \<and> intx_ok level (INTERRUPT_PCI_INTX_BASE (g_pci_env G)) (g_pci s) (g_vm s)"

lemma intx_set_frame:
  assumes "irq_spec E level" "intx_ok level base st vm" "pcidev_intx_set E p bdf b st vm = Inr (rc, st', vm')"
  shows "pci_devs st' = pci_devs st"
    and "Some i \<noteq> map_option (\<lambda>d. base + of_nat (pci_map_irq d)) (pcidev_find st p bdf) \<or> v \<noteq> BOOT_VCPU \<Longrightarrow> level vm' v i = level vm v i"
    and "rc = 0 \<Longrightarrow> intx_ok level base st' vm'"
proof -
  have "pci_devs st' = pci_devs st
      \<and> (Some i \<noteq> map_option (\<lambda>d. base + of_nat (pci_map_irq d)) (pcidev_find st p bdf) \<or> v \<noteq> BOOT_VCPU \<longrightarrow> level vm' v i = level vm v i)
      \<and> (rc = 0 \<longrightarrow> intx_ok level base st' vm')"
  proof (cases "pcidev_find st p bdf")
    case None
    with assms(3) show ?thesis by (simp add: pcidev_intx_set_def)
  next
    case (Some d)
    have len: "length (pci_intx st) = 4" using assms(2) by (simp add: intx_ok_def)
    have "PCI_SLOT (devfn d) < 31"
    proof (rule ccontr)
      assume "\<not> PCI_SLOT (devfn d) < 31"
      then have "31 \<le> PCI_SLOT (devfn d)" "PCI_SLOT (devfn d) < 64"
        using PCI_SLOT_less [of "devfn d"] by (simp_all add: word_less_nat_alt word_le_nat_alt)
      from high_source_undefined [OF this, of E "pci_intx st ! pci_map_irq d" b vm] assms(3) Some len pci_map_irq_less [of d] show False
        by (simp add: pcidev_intx_set_def Let_def not_le)
    qed
    then show ?thesis
      by (rule intx_set_ok [OF assms(1,2) Some, of b]) (use assms(3) Some in auto)
  qed
  then show "pci_devs st' = pci_devs st"
    "Some i \<noteq> map_option (\<lambda>d. base + of_nat (pci_map_irq d)) (pcidev_find st p bdf) \<or> v \<noteq> BOOT_VCPU \<Longrightarrow> level vm' v i = level vm v i"
    "rc = 0 \<Longrightarrow> intx_ok level base st' vm'" by blast+
qed

lemma pci_intx_frame:
  assumes E: "irq_spec E level" and ok: "intx_ok level base st vm"
    and run: "handle_pci_intx E p bdf irq_op st vm = Inr (rc, st', vm')"
    and other: "Some i \<noteq> map_option (\<lambda>d. base + of_nat (pci_map_irq d)) (pcidev_find st p bdf) \<or> v \<noteq> BOOT_VCPU"
  shows "level vm' v i = level vm v i"
proof -
  have ops: "RPC_IRQ_SET = 1" "RPC_IRQ_CLR = 0" "RPC_IRQ_PULSE = 2"
    by (simp_all add: RPC_IRQ_SET_def RPC_IRQ_CLR_def RPC_IRQ_PULSE_def)
  consider (one) b where "pcidev_intx_set E p bdf b st vm = Inr (rc, st', vm')"
    | (two) st1 vm1 where "pcidev_intx_set E p bdf True st vm = Inr (0, st1, vm1)"
        "pcidev_intx_set E p bdf False st1 vm1 = Inr (rc, st', vm')"
    | (none) "vm' = vm"
    using run by (auto simp: handle_pci_intx_def ops res_simps split: if_splits)
  then show ?thesis
  proof cases
    case one
    from intx_set_frame(2) [OF E ok one other] show ?thesis .
  next
    case two
    note first = intx_set_frame [OF E ok two(1)]
    have "pcidev_find st1 p bdf = pcidev_find st p bdf" using first(1) by (simp add: pcidev_find_def)
    with intx_set_frame(2) [OF E first(3) two(2)] first(2) other show ?thesis by simp
  qed simp
qed

section \<open>Running the queues\<close>

text \<open>Processing a list of messages up to the first that fails: result, messages left, state.\<close>
fun process_msgs :: "'vm glue_env \<Rightarrow> int \<Rightarrow> rpcmsg list \<Rightarrow> 'vm vmm \<Rightarrow> (int \<times> rpcmsg list \<times> 'vm vmm) res" where
  "process_msgs G rc [] s = Inr (rc, [], s)"
| "process_msgs G rc (m # ms) s =
     res_bind (rpc_process G m s) (\<lambda>(rc, s). if rc \<noteq> 0 then Inr (rc, ms, s) else process_msgs G rc ms s)"

text \<open>The state with another endpoint and shared memory: what the handlers do not look at.\<close>
definition with_io :: "vso_rpc \<Rightarrow> io_mem \<Rightarrow> 'vm vmm \<Rightarrow> 'vm vmm" where
  "with_io r w s = s\<lparr>g_px := (g_px s)\<lparr>px_rpc := r, px_mem := w\<rparr>\<rparr>"

lemma with_io_simps [simp]:
  "with_io r w (with_io r' w' s) = with_io r w s" "px_rpc (g_px (with_io r w s)) = r" "px_mem (g_px (with_io r w s)) = w"
  "with_io (px_rpc (g_px s)) (px_mem (g_px s)) s = s" "g_vm (with_io r w s) = g_vm s" "g_nt (with_io r w s) = g_nt s"
  "g_pci (with_io r w s) = g_pci s" "g_emu (with_io r w s) = g_emu s" "g_v2m (with_io r w s) = g_v2m s"
  "px_id (g_px (with_io r w s)) = px_id (g_px s)" "ioacks (g_px (with_io r w s)) = ioacks (g_px s)"
  by (simp_all add: with_io_def)

abbreviation io_lift :: "vso_rpc \<Rightarrow> io_mem \<Rightarrow> (int \<times> 'vm vmm) res \<Rightarrow> (int \<times> 'vm vmm) res" where
  "io_lift r w m \<equiv> res_bind m (\<lambda>(rc, s). Inr (rc, with_io r w s))"

lemma handlers_io:
  "cb_mmio G op msg (with_io r w s) = io_lift r w (cb_mmio G op msg s)"
  "cb_msi G op msg (with_io r w s) = io_lift r w (cb_msi G op msg s)"
  "cb_pci G op msg (with_io r w s) = io_lift r w (cb_pci G op msg s)"
  "cb_emudev G op msg (with_io r w s) = io_lift r w (cb_emudev G op msg s)"
  "cb_control G op msg (with_io r w s) = io_lift r w (cb_control G op msg s)"
proof -
  show "cb_mmio G op msg (with_io r w s) = io_lift r w (cb_mmio G op msg s)"
    by (simp add: cb_mmio_def handle_mmio_def ioreq_finish_def Let_def split: option.split prod.split)
      (simp add: with_io_def)
  show "cb_msi G op msg (with_io r w s) = io_lift r w (cb_msi G op msg s)"
    by (cases "handle_msi (g_ops G) (g_v2m s) op msg (g_vm s)") (auto simp: cb_msi_def with_io_def)
  show "cb_pci G op msg (with_io r w s) = io_lift r w (cb_pci G op msg s)"
    by (cases "handle_pci (g_ops G) (g_pci_env G) (px_id (g_px s)) op msg (g_pci s) (g_vm s)")
      (auto simp: cb_pci_def with_io_def)
  show "cb_emudev G op msg (with_io r w s) = io_lift r w (cb_emudev G op msg s)"
    by (cases "handle_emudev (g_ops G) (g_lists G) (px_id (g_px s)) op msg (g_emu s) (g_vm s)")
      (auto simp: cb_emudev_def with_io_def)
  show "cb_control G op msg (with_io r w s) = io_lift r w (cb_control G op msg s)"
    by (simp add: cb_control_def handle_control_def with_io_def)
qed

lemma verdict_io: "verdict (io_lift r w m) = io_lift r w (verdict m)"
  by (cases m) (auto simp: verdict_def)

lemma rpc_process_io: "rpc_process G msg (with_io r w s) = io_lift r w (rpc_process G msg s)"
  by (simp add: rpc_process_cases [OF refl] handlers_io verdict_io)

lemma rpc_process_keeps_io:
  assumes "rpc_process G msg s = Inr (rc, s')"
  shows "px_rpc (g_px s') = px_rpc (g_px s)" "px_mem (g_px s') = px_mem (g_px s)"
  using rpc_process_io [of G msg "px_rpc (g_px s)" "px_mem (g_px s)" s] assms by (auto, (metis with_io_simps(2,3))+)

lemma process_msgs_io:
  "process_msgs G rc ms (with_io r w s)
     = res_bind (process_msgs G rc ms s) (\<lambda>(rc, left, s). Inr (rc, left, with_io r w s))"
proof (induction ms arbitrary: rc s)
  case (Cons m ms)
  then show ?case
    by (cases "rpc_process G m s") (auto simp: rpc_process_io)
qed simp

text \<open>The monitor's end of the shared memory: responses and events waiting, and its state.\<close>
definition resp_ids :: "io_proxy \<Rightarrow> msgptr list" where
  "resp_ids px = rpc_ids (q_at (px_mem px) driver_drvrpc_resp)"
definition responses :: "io_proxy \<Rightarrow> rpcmsg list" where
  "responses px = map ((!) (b_at (px_mem px) driver_drvrpc_resp)) (resp_ids px)"
definition events :: "io_proxy \<Rightarrow> rpcmsg list" where
  "events px = event_msgs (q_at (px_mem px) devevt_queue, b_at (px_mem px) devevt_queue)"
definition lent_ids :: "io_proxy \<Rightarrow> msgptr set" where
  "lent_ids px = lent (buffer_state (driver_rpc (px_rpc px)))"

definition inbox_ok :: "io_proxy \<Rightarrow> bool" where
  "inbox_ok px \<longleftrightarrow> response (driver_rpc (px_rpc px)) = driver_drvrpc_resp \<and> device_event (px_rpc px) = devevt_queue
     \<and> length (iobuf_queues (iobuf (px_mem px))) = 4 \<and> rpc_ok (q_at (px_mem px) driver_drvrpc_resp)
     \<and> length (b_at (px_mem px) driver_drvrpc_resp) = 32 \<and> pool_ok (buffer_state (driver_rpc (px_rpc px)))
     \<and> event_ok (q_at (px_mem px) devevt_queue, b_at (px_mem px) devevt_queue)"

declare vso_refs [simp del]

lemmas inbox_defs = resp_ids_def responses_def events_def lent_ids_def

lemma inbox_cong:
  assumes "px_rpc px = px_rpc px'" "px_mem px = px_mem px'"
  shows "inbox_ok px = inbox_ok px'" "resp_ids px = resp_ids px'" "responses px = responses px'"
    "events px = events px'" "lent_ids px = lent_ids px'"
  by (simp_all add: inbox_ok_def inbox_defs assms)

lemma put_q_resp:
  assumes "length (iobuf_queues (iobuf w)) = 4"
  shows "q_at (put_q driver_drvrpc_resp q w) driver_drvrpc_resp = q"
    "q_at (put_q driver_drvrpc_resp q w) devevt_queue = q_at w devevt_queue"
    "q_at (put_q devevt_queue q w) devevt_queue = q"
    "q_at (put_q devevt_queue q w) driver_drvrpc_resp = q_at w driver_drvrpc_resp"
    "length (iobuf_queues (iobuf (put_q r q w))) = 4" "b_at (put_q r q w) r' = b_at w r'"
    "q_at (put_q driver_drvrpc_resp q w) driver_drvrpc_req = q_at w driver_drvrpc_req"
    "q_at (put_q devevt_queue q w) driver_drvrpc_req = q_at w driver_drvrpc_req"
  using assms by (simp_all add: q_at_def b_at_def put_q_def driver_drvrpc_req_def driver_drvrpc_resp_def devevt_queue_def iobuf_queue_def
      queue_id_drvrpc_req_def queue_id_drvrpc_resp_def queue_id_devevt_def)

text \<open>
  What the loops leave alone: the buffers, the requests on their way and the queues of the
  other parties, and the endpoint but for the lending state.
\<close>
definition io_keeps :: "io_proxy \<Rightarrow> io_proxy \<Rightarrow> bool" where
  "io_keeps px px' \<longleftrightarrow> (\<forall>r. b_at (px_mem px') r = b_at (px_mem px) r)
     \<and> (\<forall>r. ref_queue r \<noteq> queue_id_drvrpc_resp \<and> ref_queue r \<noteq> queue_id_devevt \<longrightarrow> q_at (px_mem px') r = q_at (px_mem px) r)
     \<and> (mem_ok (px_mem px) \<longrightarrow> mem_ok (px_mem px'))
     \<and> (\<exists>st. px_rpc px' = (px_rpc px)\<lparr>driver_rpc := (driver_rpc (px_rpc px))\<lparr>buffer_state := st\<rparr>\<rparr>)"

lemma io_keeps_refl: "px_rpc px' = px_rpc px \<Longrightarrow> px_mem px' = px_mem px \<Longrightarrow> io_keeps px px'"
  by (auto simp: io_keeps_def intro!: exI [of _ "buffer_state (driver_rpc (px_rpc px))"])

lemma io_keeps_trans: "io_keeps px px' \<Longrightarrow> io_keeps px' px'' \<Longrightarrow> io_keeps px px''"
  unfolding io_keeps_def by (elim conjE exE) (simp, blast)

lemma q_at_put_other: "ref_queue r' \<noteq> ref_queue r \<Longrightarrow> q_at (put_q r q w) r' = q_at w r'"
  by (simp add: q_at_def put_q_def)

lemma io_keeps_put:
  assumes "px_rpc px' = px_rpc px" "px_mem px' = put_q r q (px_mem px)" "r = driver_drvrpc_resp \<or> r = devevt_queue"
  shows "io_keeps px px'"
proof -
  have "q_at (put_q r q (px_mem px)) r' = q_at (px_mem px) r'" if "ref_queue r' \<noteq> 2 \<and> ref_queue r' \<noteq> 3" for r'
    using assms(3) that by (intro q_at_put_other) (auto simp: vso_refs)
  with assms(1,2) show ?thesis
    by (auto simp: io_keeps_def intro!: exI [of _ "buffer_state (driver_rpc (px_rpc px))"])
qed

lemma io_keeps_responses: "io_keeps px px' \<Longrightarrow> responses px' = map ((!) (b_at (px_mem px) driver_drvrpc_resp)) (resp_ids px')"
  by (simp add: io_keeps_def responses_def)

lemma put_q_self [simp]: "put_q r (q_at w r) w = w"
  by (simp add: put_q_def q_at_def)

lemma put_mem: "s\<lparr>g_px := (g_px s)\<lparr>px_mem := w\<rparr>\<rparr> = with_io (px_rpc (g_px s)) w s"
  by (simp add: with_io_def)

lemma put_state:
  "s\<lparr>g_px := (g_px s)\<lparr>px_rpc := r\<rparr>\<rparr> = with_io r (px_mem (g_px s)) s"
  by (simp add: with_io_def)

text \<open>Receiving one response: the state is the old one but for the response queue.\<close>
lemma next_response_cons:
  assumes "inbox_ok (g_px s)" "resp_ids (g_px s) = m # ms"
  obtains s' where "next_response s = Inr (Some (m, b_at (px_mem (g_px s)) driver_drvrpc_resp ! m), s')"
    "s' = with_io (px_rpc (g_px s)) (px_mem (g_px s')) s" "inbox_ok (g_px s')" "resp_ids (g_px s') = ms" "m < 32"
    "responses (g_px s') = tl (responses (g_px s))" "events (g_px s') = events (g_px s)" "io_keeps (g_px s) (g_px s')"
proof -
  let ?w = "px_mem (g_px s)" let ?q = "q_at ?w driver_drvrpc_resp"
  have q: "rpc_ok ?q" "rpc_ids ?q = m # ms" and l: "length (iobuf_queues (iobuf ?w)) = 4"
    using assms by (simp_all add: inbox_ok_def resp_ids_def)
  note rx = rpc_rx_ok [OF q]
  let ?s' = "with_io (px_rpc (g_px s)) (put_q driver_drvrpc_resp (advance_cons ?q) ?w) s"
  show thesis
  proof (rule that [of ?s'])
    show "next_response s = Inr (Some (m, b_at ?w driver_drvrpc_resp ! m), ?s')"
      using assms rx by (simp add: next_response_def receive_response_ok [OF q] inbox_ok_def msg_read_def put_mem Let_def)
    show "io_keeps (g_px s) (g_px ?s')" by (rule io_keeps_put [where r = driver_drvrpc_resp]) simp_all
  qed (use assms rx l in \<open>auto simp: inbox_ok_def inbox_defs put_q_resp\<close>)
qed

lemma next_response_nil:
  "inbox_ok (g_px s) \<Longrightarrow> resp_ids (g_px s) = [] \<Longrightarrow> next_response s = Inr (None, s)"
  by (simp add: next_response_def inbox_ok_def resp_ids_def receive_response_empty put_mem Let_def)

lemma reclaim_response_ok:
  assumes "inbox_ok (g_px s)" "m < 32"
  obtains s' where "reclaim_response m s = Inr s'" "s' = with_io (px_rpc (g_px s')) (px_mem (g_px s)) s"
    "inbox_ok (g_px s')" "lent_ids (g_px s') = lent_ids (g_px s) - {m}" "resp_ids (g_px s') = resp_ids (g_px s)"
    "responses (g_px s') = responses (g_px s)" "events (g_px s') = events (g_px s)" "io_keeps (g_px s) (g_px s')"
proof -
  let ?r = "px_rpc (g_px s)"
  have ok: "pool_ok (buffer_state (driver_rpc ?r))" using assms(1) by (simp add: inbox_ok_def)
  obtain st where st: "rpcmsg_reclaim_buffer (buffer_state (driver_rpc ?r)) m = Inr st" "pool_ok st"
      "lent st = lent (buffer_state (driver_rpc ?r)) - {m}"
    by (rule reclaim_lent [OF ok assms(2)])
  show thesis
    by (rule that [of "with_io (?r\<lparr>driver_rpc := (driver_rpc ?r)\<lparr>buffer_state := st\<rparr>\<rparr>) (px_mem (g_px s)) s"])
      (use st assms in \<open>auto simp: reclaim_response_def put_state inbox_ok_def inbox_defs io_keeps_def Let_def\<close>)
qed

lemma next_event_cons:
  assumes "inbox_ok (g_px s)" "events (g_px s) = msg # ms"
  obtains s' where "next_event s = Inr (Some msg, s')" "s' = with_io (px_rpc (g_px s)) (px_mem (g_px s')) s"
    "inbox_ok (g_px s')" "events (g_px s') = ms" "resp_ids (g_px s') = resp_ids (g_px s)" "io_keeps (g_px s) (g_px s')"
proof -
  let ?w = "px_mem (g_px s)" let ?q = "q_at ?w devevt_queue"
  have q: "event_ok (?q, b_at ?w devevt_queue)" "event_msgs (?q, b_at ?w devevt_queue) = msg # ms"
    and l: "length (iobuf_queues (iobuf ?w)) = 4"
    using assms by (simp_all add: inbox_ok_def events_def)
  note rx = event_rx_ok [OF q]
  let ?s' = "with_io (px_rpc (g_px s)) (put_q devevt_queue (advance_cons ?q) ?w) s"
  have "io_keeps (g_px s) (g_px ?s')" by (rule io_keeps_put [where r = devevt_queue]) simp_all
  then show thesis
    by (elim that [of ?s', rotated -1])
      (use assms rx l in \<open>auto simp: next_event_def rpcmsg_event_rx_def put_mem Let_def inbox_ok_def inbox_defs put_q_resp\<close>)
qed

lemma next_event_nil:
  assumes "inbox_ok (g_px s)" "events (g_px s) = []"
  shows "next_event s = Inr (None, s)"
proof -
  let ?w = "px_mem (g_px s)"
  have "queue_ok (q_at ?w devevt_queue)" "queue_len (q_at ?w devevt_queue) = 0"
    using assms length_event_msgs [of "(q_at ?w devevt_queue, b_at ?w devevt_queue)"]
    by (simp_all add: inbox_ok_def event_ok_def events_def)
  with assms(1) show ?thesis
    by (simp add: next_event_def rpcmsg_event_rx_def dequeue_empty inbox_ok_def put_mem Let_def)
qed

text \<open>A message processed after the queue was advanced: as before, on the advanced queue.\<close>
lemma process_after_receive:
  assumes "rpc_process G msg s = Inr (rc, t)" "s2 = with_io r w s"
  obtains s3 where "rpc_process G msg s2 = Inr (rc, s3)" "s3 = with_io r w t"
    "inbox_ok (g_px s3) = inbox_ok (g_px s2)" "events (g_px s3) = events (g_px s2)"
    "resp_ids (g_px s3) = resp_ids (g_px s2)" "responses (g_px s3) = responses (g_px s2)"
    "lent_ids (g_px s3) = lent_ids (g_px s2)" "io_keeps (g_px s2) (g_px s3)"
proof (rule that [of "with_io r w t"])
  have same: "px_rpc (g_px (with_io r w t)) = px_rpc (g_px s2)" "px_mem (g_px (with_io r w t)) = px_mem (g_px s2)"
    by (simp_all add: assms(2))
  note inbox_cong [OF same]
  then show "inbox_ok (g_px (with_io r w t)) = inbox_ok (g_px s2)" "events (g_px (with_io r w t)) = events (g_px s2)"
    "resp_ids (g_px (with_io r w t)) = resp_ids (g_px s2)" "responses (g_px (with_io r w t)) = responses (g_px s2)"
    "lent_ids (g_px (with_io r w t)) = lent_ids (g_px s2)" by simp_all
  show "rpc_process G msg s2 = Inr (rc, with_io r w t)" using assms by (simp add: rpc_process_io)
  show "io_keeps (g_px s2) (g_px (with_io r w t))" using same by (rule io_keeps_refl)
qed simp

text \<open>
  The loop over the events processes them in order up to the first that fails. It returns
  for every state of the queue, and leaves the events that were not processed.
\<close>
lemma event_loop_spec:
  assumes "inbox_ok (g_px s)" "process_msgs G rc (events (g_px s)) s = Inr (rc', left, s1)"
  shows "\<exists>s'. event_loop G rc s = Some (Inr (rc', s')) \<and> s' = with_io (px_rpc (g_px s)) (px_mem (g_px s')) s1
      \<and> inbox_ok (g_px s') \<and> events (g_px s') = left \<and> resp_ids (g_px s') = resp_ids (g_px s) \<and> io_keeps (g_px s) (g_px s')"
  using assms
proof (induction "events (g_px s)" arbitrary: s rc s1)
  case Nil
  then have "event_loop G rc s = Some (Inr (rc, s))"
    using next_event_nil [of s] by (subst event_loop.simps) simp
  with Nil show ?case by (intro exI [of _ s]) (auto intro: io_keeps_refl)
next
  case (Cons msg ms)
  obtain s2 where s2: "next_event s = Inr (Some msg, s2)" "s2 = with_io (px_rpc (g_px s)) (px_mem (g_px s2)) s"
    "inbox_ok (g_px s2)" "events (g_px s2) = ms" "resp_ids (g_px s2) = resp_ids (g_px s)" "io_keeps (g_px s) (g_px s2)"
    by (rule next_event_cons [OF Cons.prems(1) Cons.hyps(2) [symmetric]])
  have r2: "px_rpc (g_px s2) = px_rpc (g_px s)" by (subst s2(2)) simp
  obtain rc2 t where t: "rpc_process G msg s = Inr (rc2, t)"
    using Cons.prems(2) Cons.hyps(2) [symmetric] by (cases "rpc_process G msg s") auto
  obtain s3 where s3: "rpc_process G msg s2 = Inr (rc2, s3)" "s3 = with_io (px_rpc (g_px s)) (px_mem (g_px s2)) t"
    "inbox_ok (g_px s3)" "events (g_px s3) = ms" "resp_ids (g_px s3) = resp_ids (g_px s)" "io_keeps (g_px s2) (g_px s3)"
    by (rule process_after_receive [OF t s2(2)]) (use s2 in simp)
  note keeps = io_keeps_trans [OF s2(6) s3(6)]
  have r3: "px_rpc (g_px s3) = px_rpc (g_px s)" by (simp add: s3(2))
  show ?case
  proof (cases "rc2 = 0")
    case False
    then have "rc' = rc2" "left = ms" "s1 = t" using Cons.prems(2) Cons.hyps(2) [symmetric] t by simp_all
    moreover have "event_loop G rc s = Some (Inr (rc2, s3))"
      using False s2 s3 by (simp add: event_loop.simps [of G rc])
    moreover have "px_mem (g_px s3) = px_mem (g_px s2)" by (simp add: s3(2))
    ultimately show ?thesis using s3 keeps by auto
  next
    case True
    have step: "event_loop G rc s = event_loop G 0 s3"
      using True s2 s3 by (simp add: event_loop.simps [of G rc])
    have "process_msgs G 0 ms t = Inr (rc', left, s1)" using Cons.prems(2) Cons.hyps(2) [symmetric] t True by simp
    then have "process_msgs G 0 ms s3 = Inr (rc', left, with_io (px_rpc (g_px s)) (px_mem (g_px s2)) s1)"
      by (simp add: s3(2) process_msgs_io)
    with Cons.hyps(1) [of s3 0] s3 obtain s' where "event_loop G 0 s3 = Some (Inr (rc', s'))"
      "s' = with_io (px_rpc (g_px s3)) (px_mem (g_px s')) (with_io (px_rpc (g_px s)) (px_mem (g_px s2)) s1)"
      "inbox_ok (g_px s')" "events (g_px s') = left" "resp_ids (g_px s') = resp_ids (g_px s3)" "io_keeps (g_px s3) (g_px s')"
      by auto
    with s3(5) io_keeps_trans [OF keeps] show ?thesis by (intro exI [of _ s']) (simp add: step r3)
  qed
qed

lemma process_msgs_append:
  assumes "process_msgs G 0 (ms @ ms') s = Inr (0, [], s2)"
  obtains s1 where "process_msgs G 0 ms s = Inr (0, [], s1)" "process_msgs G 0 ms' s1 = Inr (0, [], s2)"
  using assms
proof (induction ms arbitrary: s thesis)
  case (Cons m ms)
  then obtain s' where "rpc_process G m s = Inr (0, s')" "process_msgs G 0 (ms @ ms') s' = Inr (0, [], s2)"
    by (auto simp: res_simps split: if_splits)
  then show ?case by (elim Cons.IH [rotated]) (use Cons.prems(1) in simp)
qed simp

lemma process_msgs_left:
  assumes "process_msgs G rc ms s = Inr (rc', left, s1)"
  shows "length left \<le> length ms" "rc = 0 \<Longrightarrow> rc' \<noteq> 0 \<Longrightarrow> length left < length ms"
  using assms
proof (induction ms arbitrary: rc s)
  case (Cons m ms)
  { case 1 with Cons.IH(1) show ?case by (auto simp: res_simps split: if_splits) (metis le_SucI) }
  { case 2 with Cons.IH(2) show ?case
      by (auto simp: res_simps split: if_splits) (metis less_SucI) }
qed auto

text \<open>
  The loop over the responses: each response that is processed gives its buffer back, the
  response that fails does not, and those after it stay queued.
\<close>
lemma response_loop_spec:
  assumes "inbox_ok (g_px s)" "process_msgs G rc (responses (g_px s)) s = Inr (rc', left, s1)"
    and "k = length (resp_ids (g_px s)) - length left"
  shows "\<exists>s'. response_loop G rc s = Some (Inr (rc', s')) \<and> s' = with_io (px_rpc (g_px s')) (px_mem (g_px s')) s1
      \<and> inbox_ok (g_px s') \<and> events (g_px s') = events (g_px s) \<and> resp_ids (g_px s') = drop k (resp_ids (g_px s))
      \<and> lent_ids (g_px s') = lent_ids (g_px s) - set (take (if rc' = 0 then k else k - 1) (resp_ids (g_px s)))
      \<and> io_keeps (g_px s) (g_px s')"
  using assms
proof (induction "resp_ids (g_px s)" arbitrary: s rc s1 k)
  case Nil
  then have "response_loop G rc s = Some (Inr (rc, s))"
    using next_response_nil [of s] by (subst response_loop.simps) simp
  with Nil show ?case by (intro exI [of _ s]) (auto simp: responses_def intro: io_keeps_refl)
next
  case (Cons m ms)
  let ?b = "b_at (px_mem (g_px s)) driver_drvrpc_resp"
  have resp: "responses (g_px s) = ?b ! m # map ((!) ?b) ms" using Cons.hyps(2) [symmetric] by (simp add: responses_def)
  obtain s2 where s2: "next_response s = Inr (Some (m, ?b ! m), s2)"
    "s2 = with_io (px_rpc (g_px s)) (px_mem (g_px s2)) s" "inbox_ok (g_px s2)" "resp_ids (g_px s2) = ms" "m < 32"
    "responses (g_px s2) = tl (responses (g_px s))" "events (g_px s2) = events (g_px s)" "io_keeps (g_px s) (g_px s2)"
    by (rule next_response_cons [OF Cons.prems(1) Cons.hyps(2) [symmetric]])
  obtain rc2 t where t: "rpc_process G (?b ! m) s = Inr (rc2, t)"
    using Cons.prems(2) resp by (cases "rpc_process G (?b ! m) s") auto
  have "px_rpc (g_px s2) = px_rpc (g_px s)" by (subst s2(2)) simp
  then have lent2: "lent_ids (g_px s2) = lent_ids (g_px s)" by (simp add: lent_ids_def)
  obtain s3 where s3: "rpc_process G (?b ! m) s2 = Inr (rc2, s3)" "s3 = with_io (px_rpc (g_px s)) (px_mem (g_px s2)) t"
    "inbox_ok (g_px s3)" "events (g_px s3) = events (g_px s)" "resp_ids (g_px s3) = ms"
    "responses (g_px s3) = map ((!) ?b) ms" "lent_ids (g_px s3) = lent_ids (g_px s)" "io_keeps (g_px s2) (g_px s3)"
    by (rule process_after_receive [OF t s2(2)]) (use s2 resp lent2 in simp)
  note keeps = io_keeps_trans [OF s2(8) s3(8)]
  show ?case
  proof (cases "rc2 = 0")
    case False
    then have "rc' = rc2" "left = map ((!) ?b) ms" "s1 = t" using Cons.prems(2) resp t by simp_all
    moreover have "response_loop G rc s = Some (Inr (rc2, s3))"
      using False s2 s3 by (subst response_loop.simps) simp
    ultimately show ?thesis
      using s3 False keeps Cons.hyps(2) [symmetric] Cons.prems(3) by (auto simp: Suc_diff_le)
  next
    case True
    obtain s4 where s4: "reclaim_response m s3 = Inr s4" "s4 = with_io (px_rpc (g_px s4)) (px_mem (g_px s3)) s3"
      "inbox_ok (g_px s4)" "lent_ids (g_px s4) = lent_ids (g_px s3) - {m}" "resp_ids (g_px s4) = resp_ids (g_px s3)"
      "responses (g_px s4) = responses (g_px s3)" "events (g_px s4) = events (g_px s3)" "io_keeps (g_px s3) (g_px s4)"
      by (rule reclaim_response_ok [OF s3(3) s2(5)])
    have step: "response_loop G rc s = response_loop G 0 s4"
      using True s2 s3 s4 by (subst response_loop.simps) simp
    have rest: "process_msgs G 0 (map ((!) ?b) ms) t = Inr (rc', left, s1)" using Cons.prems(2) resp t True by simp
    have "s4 = with_io (px_rpc (g_px s4)) (px_mem (g_px s3)) t" using s4(2) s3(2) by (metis with_io_simps(1))
    then have run: "process_msgs G 0 (responses (g_px s4)) s4
        = Inr (rc', left, with_io (px_rpc (g_px s4)) (px_mem (g_px s3)) s1)"
      using rest s3 s4 process_msgs_io [of G 0 "map ((!) ?b) ms" "px_rpc (g_px s4)" "px_mem (g_px s3)" t] by simp
    obtain j where j: "j = length (resp_ids (g_px s4)) - length left" by simp
    have le: "length left \<le> length ms" "rc' \<noteq> 0 \<Longrightarrow> length left < length ms"
      using process_msgs_left [OF rest] by auto
    have k: "k = Suc j" and jpos: "rc' \<noteq> 0 \<Longrightarrow> 0 < j"
      using le j Cons.hyps(2) [symmetric] Cons.prems(3) s3 s4 by (auto simp: Suc_diff_le)
    obtain s' where s': "response_loop G 0 s4 = Some (Inr (rc', s'))" "s' = with_io (px_rpc (g_px s')) (px_mem (g_px s')) s1"
      "inbox_ok (g_px s')" "events (g_px s') = events (g_px s)" "resp_ids (g_px s') = drop j ms"
      "lent_ids (g_px s') = lent_ids (g_px s) - {m} - set (take (if rc' = 0 then j else j - 1) ms)" "io_keeps (g_px s4) (g_px s')"
      using Cons.hyps(1) [OF _ s4(3) run j] s3 s4 by (metis with_io_simps(1))
    moreover have "io_keeps (g_px s) (g_px s')" by (rule io_keeps_trans [OF keeps io_keeps_trans [OF s4(8)]]) fact
    moreover have "take (if rc' = 0 then k else k - 1) (m # ms) = m # take (if rc' = 0 then j else j - 1) ms"
      using k jpos by (cases j) auto
    ultimately show ?thesis
      using Cons.hyps(2) [symmetric] k by (intro exI [of _ s']) (auto simp: step)
  qed
qed

text \<open>\<open>rpc_run\<close> on a monitor whose queues are in order.\<close>
lemma rpc_run_spec:
  assumes "inbox_ok (g_px s)" "process_msgs G 0 (responses (g_px s)) s = Inr (rc1, left, s1)"
    and "process_msgs G rc1 (events (g_px s)) s1 = Inr (rc2, late, s2)"
    and "k = length (resp_ids (g_px s)) - length left"
  shows "\<exists>s'. rpc_run G s = Inr (rc2, s') \<and> s' = with_io (px_rpc (g_px s')) (px_mem (g_px s')) s2
      \<and> inbox_ok (g_px s') \<and> events (g_px s') = late \<and> resp_ids (g_px s') = drop k (resp_ids (g_px s))
      \<and> lent_ids (g_px s') = lent_ids (g_px s) - set (take (if rc1 = 0 then k else k - 1) (resp_ids (g_px s)))
      \<and> io_keeps (g_px s) (g_px s')"
proof -
  obtain t where t: "response_loop G 0 s = Some (Inr (rc1, t))" "t = with_io (px_rpc (g_px t)) (px_mem (g_px t)) s1"
      "inbox_ok (g_px t)" "events (g_px t) = events (g_px s)" "resp_ids (g_px t) = drop k (resp_ids (g_px s))"
      "lent_ids (g_px t) = lent_ids (g_px s) - set (take (if rc1 = 0 then k else k - 1) (resp_ids (g_px s)))" "io_keeps (g_px s) (g_px t)"
    using response_loop_spec [OF assms(1,2,4)] by blast
  have "process_msgs G rc1 (events (g_px t)) t = Inr (rc2, late, with_io (px_rpc (g_px t)) (px_mem (g_px t)) s2)"
    using process_msgs_io [of G rc1 "events (g_px t)" "px_rpc (g_px t)" "px_mem (g_px t)" s1] assms(3) t(2,4) by simp
  from event_loop_spec [OF t(3) this] obtain s' where s': "event_loop G rc1 t = Some (Inr (rc2, s'))"
      "s' = with_io (px_rpc (g_px t)) (px_mem (g_px s')) (with_io (px_rpc (g_px t)) (px_mem (g_px t)) s2)"
      "inbox_ok (g_px s')" "events (g_px s') = late" "resp_ids (g_px s') = resp_ids (g_px t)" "io_keeps (g_px t) (g_px s')"
    by blast
  have r: "px_rpc (g_px s') = px_rpc (g_px t)" by (subst s'(2)) simp
  then have "lent_ids (g_px s') = lent_ids (g_px t)" by (simp add: lent_ids_def)
  with s' t r io_keeps_trans [OF t(7) s'(6)] show ?thesis by (intro exI [of _ s']) (simp add: rpc_run_def run_res_def)
qed

section \<open>Initialisation\<close>

text \<open>The proxy with its shared memory as the loader leaves it, before \<open>io_proxy_init\<close>.\<close>
definition proxy_static :: "io_proxy \<Rightarrow> bool" where
  "proxy_static px \<longleftrightarrow> mem_ok (px_mem px) \<and> length (ioacks px) = num_ioacks \<and> doorbell (px_rpc px) \<noteq> None
     \<and> pool_ok (buffer_state (driver_rpc (px_rpc px)))
     \<and> event_ok (q_at (px_mem px) devevt_queue, b_at (px_mem px) devevt_queue)"

text \<open>A proxy ready for requests: no request and no response under way.\<close>
definition proxy_idle :: "io_proxy \<Rightarrow> bool" where
  "proxy_idle px \<longleftrightarrow> proxy_ok px \<and> inbox_ok px \<and> rpc_ids (q_at (px_mem px) driver_drvrpc_req) = [] \<and> resp_ids px = []"

lemma io_proxy_init_idle:
  assumes "proxy_static px"
  obtains px' where "io_proxy_init 0 px = Inr px'" "proxy_idle px'" "events px' = events px" "lent_ids px' = lent_ids px"
    "ctrl_base px' = ctrl_base px" "ctrl_size px' = ctrl_size px" "px_id px' = px_id px" "ok_to_run px' = ok_to_run px"
    "ioacks px' = ioacks px" "q_at (px_mem px') device_drvrpc_req = q_at (px_mem px) device_drvrpc_req"
proof -
  have z: "rpc_ok (rpcmsg_queue_init q)" "rpc_ids (rpcmsg_queue_init q) = []" for q
    using queue_init_ok [of q] by (simp_all add: rpc_ok_def rpc_ids_def)
  note ok = assms [unfolded proxy_static_def]
  obtain px' where px': "io_proxy_init 0 px = Inr px'"
    by (simp add: io_proxy_init_def vso_driver_rpc_init_def vso_rpc_driver_def Let_def)
  have eqs: "px_mem px' = put_b (iobuf_queue 0 0) (rpcmsg_buffer_init (b_at w (iobuf_queue 0 0))) w"
    if "w = rpcmsg_reply_queue_init (iobuf_queue 0 2) (rpcmsg_call_queue_init (iobuf_queue 0 0) (px_mem px))" for w
    using px' that by (auto simp: io_proxy_init_def vso_driver_rpc_init_def vso_rpc_driver_def Let_def vso_refs)
  have rest: "px_rpc px' = (px_rpc px)\<lparr>driver_rpc := (driver_rpc (px_rpc px))\<lparr>request := driver_drvrpc_req, response := driver_drvrpc_resp\<rparr>,
      device_event := devevt_queue\<rparr>" "ioacks px' = ioacks px" "ctrl_base px' = ctrl_base px" "ctrl_size px' = ctrl_size px"
      "px_id px' = px_id px" "ok_to_run px' = ok_to_run px"
    using px' by (auto simp: io_proxy_init_def vso_driver_rpc_init_def vso_rpc_driver_def Let_def)
  have mem: "mem_ok (px_mem px')" "q_at (px_mem px') (iobuf_queue 0 0) = rpcmsg_queue_init (q_at (px_mem px) (iobuf_queue 0 0))"
    "q_at (px_mem px') (iobuf_queue 0 2) = rpcmsg_queue_init (q_at (px_mem px) (iobuf_queue 0 2))"
    "q_at (px_mem px') devevt_queue = q_at (px_mem px) devevt_queue" "b_at (px_mem px') devevt_queue = b_at (px_mem px) devevt_queue"
    "length (b_at (px_mem px') (iobuf_queue 0 2)) = 32" "q_at (px_mem px') device_drvrpc_req = q_at (px_mem px) device_drvrpc_req"
    using ok by (simp_all add: eqs [OF refl] rpcmsg_call_queue_init_def rpcmsg_reply_queue_init_def rpcmsg_queue_ref_init_def
        RPCMSG_F_INIT_ALL_def RPCMSG_F_INIT_BUFFER_def RPCMSG_F_INIT_QUEUE_def Let_def vso_refs)
  show thesis
  proof (rule that [OF px'])
    show "proxy_idle px'"
      using ok mem(1,6) mem(4,5) by (simp add: proxy_idle_def proxy_ok_def inbox_ok_def endpoint_ok_def resp_ids_def rest vso_refs
          mem(2,3) z) (simp add: mem_ok_def)
    show "events px' = events px" "lent_ids px' = lent_ids px" using mem by (simp_all add: events_def lent_ids_def rest)
  qed (simp_all add: rest mem(7))
qed

lemma proxy_idle_start:
  "proxy_idle (px\<lparr>ok_to_run := a, backend_started := n\<rparr>) = proxy_idle px" "events (px\<lparr>ok_to_run := a, backend_started := n\<rparr>) = events px"
  by (simp_all add: proxy_idle_def proxy_ok_def inbox_ok_def inbox_defs)

lemma run_idle:
  assumes "inbox_ok (g_px s)" "resp_ids (g_px s) = []" "events (g_px s) = []"
  shows "vm_io_proxy_run G 0 s = Inr (0, s)"
proof -
  have "response_loop G 0 s = Some (Inr (0, s))" "event_loop G 0 s = Some (Inr (0, s))"
    using next_response_nil [OF assms(1,2)] next_event_nil [OF assms(1,3)]
    by (simp_all add: response_loop.simps event_loop.simps)
  then show ?thesis by (simp add: vm_io_proxy_run_def vm_ntfn_callback_def rpc_run_def run_res_def)
qed

lemma wait_started:
  "io_proxy_wait_for_backend (snd (handle_control QEMU_OP_START_VM msg px))
     = Some (px\<lparr>ok_to_run := 1, backend_started := Suc (backend_started px)\<rparr>)"
  by (simp add: io_proxy_wait_for_backend_def handle_control_def)

text \<open>Initialisation, with what it leaves alone.\<close>
lemma init_establishes:
  assumes E: "irq_spec (g_ops G) level" and L: "lists_ok (g_lists G)"
    and frame: "g_v2m s = v2m_rpi4 \<or> g_v2m s = v2m_qemu_arm_virt"
    and pci: "length (pci_intx (g_pci s)) = 4" "\<forall>p < 4. \<not> level (g_vm s) BOOT_VCPU (INTERRUPT_PCI_INTX_BASE (g_pci_env G) + of_nat p)"
    and px: "proxy_static (g_px s)" "events (g_px s) = []"
    and res: "vm_reserve_memory_at (g_ops G) (ctrl_base (g_px s)) (ctrl_size (g_px s)) Mmio_Fault_Handler (px_id (g_px s)) (g_vm s) = (Some r, vm1)"
  shows "\<exists>rc ini s'. libsel4vm_io_proxy_init G 0 (vm_io_proxy_run G 0) v2m (\<lambda>px. snd (handle_control QEMU_OP_START_VM msg px)) False s = Inr (rc, ini, s')
    \<and> (rc = 0 \<longrightarrow> ini \<and> irqs_ok G level s' \<and> proxy_idle (g_px s') \<and> events (g_px s') = []
         \<and> lent_ids (g_px s') = lent_ids (g_px s) \<and> ok_to_run (g_px s') = 1
         \<and> ioacks (g_px s') = ioacks (g_px s) \<and> q_at (px_mem (g_px s')) device_drvrpc_req = q_at (px_mem (g_px s)) device_drvrpc_req
         \<and> g_nt s' = g_nt s \<and> pci_devs (g_pci s') = pci_devs (g_pci s))"
proof -
  obtain px1 where px1: "io_proxy_init 0 (g_px s) = Inr px1" "proxy_idle px1" "events px1 = []"
      "lent_ids px1 = lent_ids (g_px s)" "ctrl_base px1 = ctrl_base (g_px s)" "ctrl_size px1 = ctrl_size (g_px s)" "px_id px1 = px_id (g_px s)"
      "ioacks px1 = ioacks (g_px s)" "q_at (px_mem px1) device_drvrpc_req = q_at (px_mem (g_px s)) device_drvrpc_req"
    by (rule io_proxy_init_idle [OF px(1)]) (use px(2) in auto)
  have low: "\<forall>p < 4. \<not> level vm1 BOOT_VCPU (INTERRUPT_PCI_INTX_BASE (g_pci_env G) + of_nat p)"
    using pci(2) irq_specD(4) [OF E res] by simp
  obtain rc ini st vm2 where irq: "irq_init (g_ops G) (g_pci_env G) False (g_pci s) vm1 = Inr (rc, ini, st, vm2)" "(rc = 0) = ini"
      "level vm2 = level vm1" "pci_devs st = pci_devs (g_pci s)" "ini \<longrightarrow> intx_ok level (INTERRUPT_PCI_INTX_BASE (g_pci_env G)) st vm2"
    using irq_init_establishes [OF E pci(1) low] by blast
  have size: "unat (irq_base (g_v2m s)) + unat (num_irq (g_v2m s)) < 2 ^ 32" "length (v2m_irq (g_v2m s)) = GICV2M_IRQ_MAX"
    using frame by (auto simp: v2m_rpi4_def v2m_qemu_arm_virt_def v2m_lines_def)
  obtain rc' f vm3 where msi: "msi_init (g_ops G) v2m (g_v2m s) vm2 = Inr (rc', f, vm3)" "rc' = 0 \<longrightarrow> v2m_ok f"
    using v2m_init_cases [OF size, of "g_ops G" v2m vm2] unfolding msi_init_def by blast
  have intx: "intx_ok level (INTERRUPT_PCI_INTX_BASE (g_pci_env G)) st vm3" if ini
    using that irq(5) unfolding intx_ok_def line_synced_def v2m_init_level [OF E msi(1) [unfolded msi_init_def]] by blast
  have emu: "emudev_ok \<lparr>emu_handler = Some Mmio_Fault_Handler, emu_irqs = [], emu_mmios = []\<rparr>"
    by (simp add: emudev_ok_def irqs.uniq_def)
  have lent: "lent_ids (px1\<lparr>ok_to_run := a, backend_started := n\<rparr>) = lent_ids px1" for a n by (simp add: lent_ids_def)
  have run: "vm_io_proxy_run G 0 t = Inr (0, t)" if "g_px t = px1" for t
    using px1(2,3) that by (intro run_idle) (simp_all add: proxy_idle_def)
  show ?thesis
    using px1 res irq(1,2,4) msi intx emu
    by (simp add: libsel4vm_io_proxy_init_def emudev_init_ok [OF L] wait_started Let_def irqs_ok_def proxy_idle_start lent run) blast
qed

section \<open>Properties\<close>

text \<open>
  C18. Every message goes to exactly one handler: MMIO responses to the I/O proxy, device
  registration to PCI, region configuration to the emulated devices, the start message to
  the control handler; an interrupt goes to the MSI frame if its number is in the frame's
  range, to PCI if it is below 32, and to the emulated devices otherwise. A message with
  any other operation is refused and changes nothing.
\<close>
theorem rpc_dispatch:
  "let op = ucast (QEMU_OP (mr0 msg)) in
   rpc_process G msg s =
    (if op = QEMU_OP_MMIO then verdict (cb_mmio G op msg s)
     else if op = QEMU_OP_SET_IRQ then
       if v2m_irq_valid (g_v2m s) (ucast (mr1 msg)) then verdict (cb_msi G op msg s)
       else if irq_is_pci (ucast (mr1 msg)) then verdict (cb_pci G op msg s)
       else verdict (cb_emudev G op msg s)
     else if op = QEMU_OP_REGISTER_PCI_DEV then verdict (cb_pci G op msg s)
     else if op = QEMU_OP_MMIO_REGION_CONFIG then verdict (cb_emudev G op msg s)
     else if op = QEMU_OP_START_VM then verdict (cb_control G op msg s)
     else Inr (-1, s))"
  unfolding Let_def by (rule rpc_process_cases) simp

text \<open>
  C19. An interrupt message touches only its own interrupt: whatever the backend asks for,
  processing a set-irq message changes the level of no guest interrupt but the one the
  message is routed to, at the boot CPU.
\<close>
theorem irq_message_isolated:
  assumes "irq_spec (g_ops G) level" "lists_ok (g_lists G)" "irqs_ok G level s"
    and "ucast (QEMU_OP (mr0 msg)) = QEMU_OP_SET_IRQ" "rpc_process G msg s = Inr (rc, s')"
    and "Some i \<noteq> irq_target G msg s \<or> v \<noteq> BOOT_VCPU"
  shows "level (g_vm s') v i = level (g_vm s) v i"
proof -
  let ?irq = "ucast (mr1 msg) :: u32"
  have ok: "v2m_ok (g_v2m s)" "emudev_ok (g_emu s)"
    "intx_ok level (INTERRUPT_PCI_INTX_BASE (g_pci_env G)) (g_pci s) (g_vm s)"
    using assms(3) by (simp_all add: irqs_ok_def)
  note process = rpc_process_cases [OF assms(4) [symmetric], of G s]
  consider (msi) "v2m_irq_valid (g_v2m s) ?irq"
    | (pci) "\<not> v2m_irq_valid (g_v2m s) ?irq" "irq_is_pci ?irq"
    | (emu) "\<not> v2m_irq_valid (g_v2m s) ?irq" "\<not> irq_is_pci ?irq" by blast
  then show ?thesis
  proof cases
    case msi
    then have "Some i \<noteq> Some ?irq \<or> v \<noteq> BOOT_VCPU" using assms(6) by (simp add: irq_target_def)
    moreover have "\<exists>rc vm'. v2m_inject_irq (g_ops G) (g_v2m s) ?irq (g_vm s) = Inr (rc, vm')
        \<and> (\<forall>v i. (v, i) \<noteq> (BOOT_VCPU, ?irq) \<longrightarrow> level vm' v i = level (g_vm s) v i)"
      using v2m_inject_level [OF assms(1) ok(1), of ?irq "g_vm s"] by blast
    ultimately show ?thesis
      using msi assms(4,5) process
      by (auto simp: op_defs cb_msi_def handle_msi_def msi_irq_set_def verdict_def res_simps split: if_splits)
  next
    case pci
    then have other: "Some i \<noteq> map_option (\<lambda>d. INTERRUPT_PCI_INTX_BASE (g_pci_env G) + of_nat (pci_map_irq d))
        (pcidev_find (g_pci s) (px_id (g_px s)) (PCI_DEVFN ?irq 0)) \<or> v \<noteq> BOOT_VCPU"
      using assms(6) by (simp add: irq_target_def)
    obtain rc1 st1 where "handle_pci_intx (g_ops G) (px_id (g_px s)) (PCI_DEVFN ?irq 0) (ucast (mr2 msg)) (g_pci s) (g_vm s)
        = Inr (rc1, st1, g_vm s')"
      using pci assms(4,5) process
      by (auto simp: op_defs cb_pci_def handle_pci_def verdict_def res_simps Let_def split: if_splits)
    from pci_intx_frame [OF assms(1) ok(3) this other] show ?thesis .
  next
    case emu
    then have "Some i \<noteq> Some ?irq \<or> v \<noteq> BOOT_VCPU" using assms(6) by (simp add: irq_target_def)
    moreover have "32 \<le> ?irq" using emu by (simp add: irq_is_pci_def PCI_NUM_SLOTS_def)
    from emudev_irq_set_level [OF assms(1,2) ok(2) this, of "px_id (g_px s)" "ucast (mr2 msg)" "g_vm s"]
    have "\<exists>rc st' vm'. emudev_irq_set (g_ops G) (g_lists G) (g_emu s) (px_id (g_px s)) ?irq (ucast (mr2 msg)) (g_vm s) = Inr (rc, st', vm')
        \<and> (\<forall>v i. (v, i) \<noteq> (BOOT_VCPU, ?irq) \<longrightarrow> level vm' v i = level (g_vm s) v i)"
      by blast
    ultimately show ?thesis
      using emu assms(4,5) process
      by (auto simp: op_defs cb_emudev_def handle_emudev_def verdict_def res_simps Let_def split: if_splits)
  qed
qed

text \<open>
  C16. When no message is refused, one run of the monitor handles all responses in order,
  then all events in order, leaves both queues empty and gives back every buffer that
  carried a response; it returns 0 and never loops forever. The handlers see nothing of
  the queues: apart from the shared memory and the lending state the result is that of
  processing the messages one after the other.
\<close>
theorem rpc_run_drains:
  assumes "inbox_ok (g_px s)" "process_msgs G 0 (responses (g_px s) @ events (g_px s)) s = Inr (0, [], s2)"
  shows "\<exists>s'. rpc_run G s = Inr (0, s') \<and> s' = with_io (px_rpc (g_px s')) (px_mem (g_px s')) s2
      \<and> inbox_ok (g_px s') \<and> events (g_px s') = [] \<and> resp_ids (g_px s') = []
      \<and> lent_ids (g_px s') = lent_ids (g_px s) - set (resp_ids (g_px s))"
proof -
  obtain s1 where "process_msgs G 0 (responses (g_px s)) s = Inr (0, [], s1)"
    "process_msgs G 0 (events (g_px s)) s1 = Inr (0, [], s2)"
    using assms(2) by (rule process_msgs_append)
  from rpc_run_spec [OF assms(1) this refl] show ?thesis by auto
qed

text \<open>
  C39. A failure among the responses is lost: if a response is refused but the events after
  it are handled, the run returns 0 although a message failed. The refused response is
  gone from its queue, but its buffer stays lent for ever, since only the loop's own
  step gives buffers back.
\<close>
theorem rpc_run_loses_error:
  assumes "inbox_ok (g_px s)" "resp_ids (g_px s) = i # ids" "responses (g_px s) = msg # msgs"
    and "rpc_process G msg s = Inr (-1, s1)"
    and "process_msgs G (-1) (events (g_px s)) s1 = Inr (0, [], s2)"
  shows "\<exists>s'. rpc_run G s = Inr (0, s') \<and> resp_ids (g_px s') = ids \<and> lent_ids (g_px s') = lent_ids (g_px s)"
proof -
  have first: "process_msgs G 0 (responses (g_px s)) s = Inr (-1, msgs, s1)" using assms(3,4) by simp
  have "length msgs = length ids" using assms(2,3) by (auto simp: responses_def)
  then show ?thesis
    using rpc_run_spec [OF assms(1) first assms(5) refl] assms(2) by auto
qed

text \<open>
  A guest access from fault to completion: with a free slot and room in the queue, the
  fault of a CPU becomes one request with the address, the size, the direction and, for a
  write, the data the guest stores shifted out of its byte lanes; the CPU's fault is not
  advanced. Whenever a response that keeps the request's \<open>mr0\<close> is handled, a read
  delivers the response's data in the byte lanes of the faulting address, the fault is
  advanced once, and the slot is free again.
\<close>
lemma guest_access_completes:
  assumes "proxy_ok px" "vcpu < 16" "ack_callback (ioacks px ! vcpu) = None" "len \<le> 8"
    and "lent_ids px \<noteq> {..<32}" "queue_len (q_at (px_mem px) driver_drvrpc_req) < 32" "doorbell (px_rpc px) = Some c"
    and "rd = is_vcpu_read_fault E vcpu vm" "lane = unat ((get_vcpu_fault_address E vcpu vm AND 3) * 8)"
  shows "\<exists>i px1. mmio_fault_handler E vcpu paddr len px vm = Inr (FAULT_HANDLED, px1)
    \<and> rpc_ids (q_at (px_mem px1) driver_drvrpc_req) = rpc_ids (q_at (px_mem px) driver_drvrpc_req) @ [i]
    \<and> b_at (px_mem px1) driver_drvrpc_req ! i =
        \<lparr>mr0 = mmio_request_mr0 (if rd then SEL4_IO_DIR_READ else SEL4_IO_DIR_WRITE) (ucast AS_GLOBAL) (of_nat vcpu) len,
         mr1 = paddr,
         mr2 = (if rd then 0 else get_vcpu_fault_data E vcpu vm AND drop_bit lane (get_vcpu_fault_data_mask E vcpu vm)),
         mr3 = 0\<rparr>
    \<and> (\<forall>msg nt vm'. mr0 msg = mr0 (b_at (px_mem px1) driver_drvrpc_req ! i) \<longrightarrow>
         handle_mmio E QEMU_OP_MMIO msg px1 nt vm' =
           Inr (RPCMSG_RC_HANDLED, px1\<lparr>ioacks := (ioacks px)[vcpu := \<lparr>ack_callback = None, ack_cookie = vcpu\<rparr>]\<rparr>, nt,
             advance_vcpu_fault E vcpu
               (if rd then set_vcpu_fault_data E vcpu
                  (push_bit (unat ((get_vcpu_fault_address E vcpu vm' AND 3) * 8)) (mr2 msg)) vm'
                else vm')))"
proof -
  let ?dir = "if rd then SEL4_IO_DIR_READ else SEL4_IO_DIR_WRITE"
  let ?val = "if rd then 0 else get_vcpu_fault_data E vcpu vm AND drop_bit lane (get_vcpu_fault_data_mask E vcpu vm)"
  let ?start = "ioreq_start px (of_nat vcpu) Ioack_Vcpu_Read Ioack_Vcpu_Write vcpu (ucast AS_GLOBAL) ?dir paddr len ?val"
  have slot: "unat (of_nat vcpu :: u32) = vcpu" using assms(2) by (simp add: unat_of_nat)
  have pre: "unat (of_nat vcpu :: u32) < 32" "ack_callback (ioacks px ! unat (of_nat vcpu :: u32)) = None"
    "lent (buffer_state (driver_rpc (px_rpc px))) \<noteq> {..<32}" "queue_len (q_at (px_mem px) (iobuf_queue 0 0)) < 32"
    using assms(2,3,5,6) slot by (simp_all add: lent_ids_def vso_refs)
  obtain i px1 where start: "?start = Inr (0, px1)"
    "rpc_ids (q_at (px_mem px1) driver_drvrpc_req) = rpc_ids (q_at (px_mem px) driver_drvrpc_req) @ [i]"
    "b_at (px_mem px1) driver_drvrpc_req ! i = \<lparr>mr0 = mmio_request_mr0 ?dir (ucast AS_GLOBAL) (of_nat vcpu) len, mr1 = paddr, mr2 = ?val, mr3 = 0\<rparr>"
    using ioreq_start_queues [OF assms(1) pre(1,2) assms(4) pre(3,4) assms(7), of Ioack_Vcpu_Read Ioack_Vcpu_Write vcpu
        "ucast AS_GLOBAL" ?dir paddr ?val] unfolding vso_refs by blast
  have len: "length (ioacks px) = 32" using assms(1) by (simp add: proxy_ok_def)
  have "mmio_fault_handler E vcpu paddr len px vm = Inr (FAULT_HANDLED, px1)"
    using start(1) assms(8,9) by (cases rd) (simp_all add: mmio_fault_handler_def Let_def)
  moreover have dir: "(?dir = SEL4_IO_DIR_READ) = rd" by (simp add: SEL4_IO_DIR_READ_def SEL4_IO_DIR_WRITE_def)
  have "handle_mmio E QEMU_OP_MMIO msg px1 nt vm' =
      Inr (RPCMSG_RC_HANDLED, px1\<lparr>ioacks := (ioacks px)[vcpu := \<lparr>ack_callback = None, ack_cookie = vcpu\<rparr>]\<rparr>, nt,
        advance_vcpu_fault E vcpu (if rd then set_vcpu_fault_data E vcpu
          (push_bit (unat ((get_vcpu_fault_address E vcpu vm' AND 3) * 8)) (mr2 msg)) vm' else vm'))"
    if "mr0 msg = mmio_request_mr0 ?dir (ucast AS_GLOBAL) (of_nat vcpu) len" for msg nt vm'
    using finish_started [OF start(1) pre(1) len that, of E nt vm']
    by (simp add: dir slot run_ioack_def ioack_vcpu_read_def ioack_vcpu_write_def Let_def)
  ultimately show ?thesis using start(2,3) by (intro exI [of _ i] exI [of _ px1]) simp
qed

text \<open>
  C38. Initialisation establishes what the other properties assume: on either platform, from a
  loaded proxy and with the INTx interrupts low, if the semaphore and the control region
  are granted and the backend sends its start message, \<open>libsel4vm_io_proxy_init\<close> with the
  CAmkES \<open>run\<close> function returns; when it returns zero, the MSI frame, the INTx lines and the
  emulated devices are set up and in step with the guest, and the proxy's queues are empty
  and consistent.
\<close>
theorem monitor_init_establishes:
  assumes E: "irq_spec (g_ops G) level" and L: "lists_ok (g_lists G)"
    and frame: "g_v2m s = v2m_rpi4 \<or> g_v2m s = v2m_qemu_arm_virt"
    and pci: "length (pci_intx (g_pci s)) = 4" "\<forall>p < 4. \<not> level (g_vm s) BOOT_VCPU (INTERRUPT_PCI_INTX_BASE (g_pci_env G) + of_nat p)"
    and px: "proxy_static (g_px s)" "events (g_px s) = []"
    and res: "vm_reserve_memory_at (g_ops G) (ctrl_base (g_px s)) (ctrl_size (g_px s)) Mmio_Fault_Handler (px_id (g_px s)) (g_vm s) = (Some r, vm1)"
  shows "\<exists>rc ini s'. libsel4vm_io_proxy_init G 0 (vm_io_proxy_run G 0) v2m (\<lambda>px. snd (handle_control QEMU_OP_START_VM msg px)) False s = Inr (rc, ini, s')
    \<and> (rc = 0 \<longrightarrow> ini \<and> irqs_ok G level s' \<and> proxy_idle (g_px s') \<and> events (g_px s') = []
         \<and> lent_ids (g_px s') = lent_ids (g_px s) \<and> ok_to_run (g_px s') = 1)"
  using init_establishes [OF assms, of v2m msg] by blast

section \<open>Concrete runs\<close>

definition one_queue :: rpcmsg_queue where
  "one_queue = \<lparr>queue_prod = \<lparr>bound_tail = \<lparr>marker_pos = 1, marker_count = 1\<rparr>, bound_head = \<lparr>marker_pos = 1, marker_count = 1\<rparr>\<rparr>,
     queue_cons = \<lparr>bound_tail = zero_marker, bound_head = zero_marker\<rparr>, queue_ring = replicate 32 0\<rparr>"

text \<open>One response and one start event wait; slot 3 of the proxy waits for a read.\<close>
definition inbox_proxy :: "rpcmsg \<Rightarrow> io_proxy" where
  "inbox_proxy resp = demo_proxy\<lparr>
     px_rpc := (px_rpc demo_proxy)\<lparr>driver_rpc := (driver_rpc (px_rpc demo_proxy))\<lparr>buffer_state := [1]\<rparr>\<rparr>,
     px_mem := \<lparr>iobuf = \<lparr>iobuf_buffers = [(replicate 32 zero_msg)[0 := resp], (replicate 32 zero_msg)[0 := zero_msg\<lparr>mr0 := ucast QEMU_OP_START_VM\<rparr>]],
                 iobuf_queues = [zero_queue, zero_queue, one_queue, one_queue]\<rparr>, rung = []\<rparr>,
     ioacks := (replicate 32 \<lparr>ack_callback = None, ack_cookie = 0\<rparr>)[3 := \<lparr>ack_callback = Some Ioack_Vcpu_Read, ack_cookie = 3\<rparr>]\<rparr>"

definition demo_vmm :: "io_proxy \<Rightarrow> demo_vm vmm" where
  "demo_vmm px = \<lparr>g_vm = demo_vm0, g_nt = demo_natives, g_px = px, g_pci = demo_bus, g_emu = demo_emudev, g_v2m = v2m_demo\<rparr>"

definition demo_env :: "demo_vm glue_env" where
  "demo_env = \<lparr>g_ops = demo_ops, g_lists = demo_lists, g_pci_env = demo_pci\<rparr>"

lemma one_queue_slots [simp]: "queue_slots one_queue = [0]" "queue_ok one_queue"
  by (simp_all add: queue_slots_def queue_ok_def queue_len_def one_queue_def zero_marker_def slots_def)

lemma inbox_proxy_ok:
  "inbox_ok (inbox_proxy m)" "resp_ids (inbox_proxy m) = [0]" "responses (inbox_proxy m) = [m]"
  "events (inbox_proxy m) = [zero_msg\<lparr>mr0 := ucast QEMU_OP_START_VM\<rparr>]" "lent_ids (inbox_proxy m) = {0}"
proof -
  have q: "q_at (px_mem (inbox_proxy m)) driver_drvrpc_resp = one_queue" "q_at (px_mem (inbox_proxy m)) devevt_queue = one_queue"
    "b_at (px_mem (inbox_proxy m)) driver_drvrpc_resp = (replicate 32 zero_msg)[0 := m]"
    "b_at (px_mem (inbox_proxy m)) devevt_queue = (replicate 32 zero_msg)[0 := zero_msg\<lparr>mr0 := ucast QEMU_OP_START_VM\<rparr>]"
    by (simp_all add: q_at_def b_at_def vso_refs inbox_proxy_def)
  have r: "queue_ring one_queue ! 0 = 0" by (simp add: one_queue_def)
  show ids: "resp_ids (inbox_proxy m) = [0]" by (simp add: resp_ids_def rpc_ids_def q r)
  show "responses (inbox_proxy m) = [m]" by (simp add: responses_def ids q)
  show "events (inbox_proxy m) = [zero_msg\<lparr>mr0 := ucast QEMU_OP_START_VM\<rparr>]" by (simp add: events_def event_msgs_def q r)
  show "lent_ids (inbox_proxy m) = {0}"
    by (auto simp: lent_ids_def inbox_proxy_def lent_Collect bitmap_test_def bit_1_iff)
  show "inbox_ok (inbox_proxy m)"
    unfolding inbox_ok_def q by (simp add: rpc_ok_def event_ok_def r)
      (simp add: inbox_proxy_def demo_proxy_def vso_refs pool_ok_def)
qed

lemma demo_ops_words: "ucast (QEMU_OP 18) = QEMU_OP_START_VM" "ucast (QEMU_OP 63) = (63 :: u32)"
  "ucast (QEMU_OP 16) = QEMU_OP_SET_IRQ" "ucast (QEMU_OP 192) = QEMU_OP_MMIO"
  "BIT_FIELD_GET 192 RPC_MR0_MMIO_SLOT = 3"
  by (simp_all add: QEMU_OP_def BIT_FIELD_GET_def RPC_MR0_OP_def RPC_MR0_MMIO_SLOT_def RPC_MR0_COMMON_def op_defs MASK_def)

lemma start_event:
  "rpc_process G (zero_msg\<lparr>mr0 := ucast QEMU_OP_START_VM\<rparr>) s
     = Inr (0, s\<lparr>g_px := (g_px s)\<lparr>ok_to_run := 1, backend_started := Suc (backend_started (g_px s))\<rparr>\<rparr>)"
proof -
  have "QEMU_OP_START_VM = ucast (QEMU_OP (mr0 (zero_msg\<lparr>mr0 := ucast QEMU_OP_START_VM\<rparr>)))"
    using demo_ops_words(1) by (simp add: QEMU_OP_START_VM_def)
  from rpc_process_cases [OF this, of G s] show ?thesis
    by (simp add: op_defs verdict_def cb_control_def handle_control_def rc_defs)
qed

lemma unknown_event: "rpc_process G (zero_msg\<lparr>mr0 := 63\<rparr>) s = Inr (-1, s)"
proof -
  have "(63 :: u32) = ucast (QEMU_OP (mr0 (zero_msg\<lparr>mr0 := 63\<rparr>)))" by (simp add: demo_ops_words)
  from rpc_process_cases [OF this, of G s] show ?thesis by (simp add: op_defs)
qed

lemma mmio_response:
  assumes "g_ops G = demo_ops" "g_px s = inbox_proxy m"
  shows "\<exists>s'. rpc_process G (zero_msg\<lparr>mr0 := 192, mr2 := 42\<rparr>) s = Inr (0, s') \<and> demo_data (g_vm s') = push_bit (unat ((demo_addr (g_vm s) AND 3) * 8)) 42"
proof -
  have "QEMU_OP_MMIO = ucast (QEMU_OP (mr0 (zero_msg\<lparr>mr0 := 192, mr2 := 42\<rparr>)))"
    by (simp add: demo_ops_words)
  from rpc_process_cases [OF this, of G s] show ?thesis
    using assms by (simp add: verdict_def cb_mmio_def handle_mmio_def demo_ops_words ioreq_finish_def inbox_proxy_def
        run_ioack_def ioack_vcpu_read_def demo_ops_def rc_defs Let_def)
qed

theorem rpc_run_drains_witness:
  "\<exists>s'. rpc_run demo_env (demo_vmm (inbox_proxy (zero_msg\<lparr>mr0 := 192, mr2 := 42\<rparr>))) = Inr (0, s')
     \<and> demo_data (g_vm s') = 42 \<and> events (g_px s') = [] \<and> resp_ids (g_px s') = [] \<and> lent_ids (g_px s') = {}"
proof -
  let ?msg = "zero_msg\<lparr>mr0 := 192, mr2 := 42\<rparr>" let ?s = "demo_vmm (inbox_proxy ?msg)"
  have px: "g_px ?s = inbox_proxy ?msg" by (simp add: demo_vmm_def)
  obtain s1 where s1: "rpc_process demo_env ?msg ?s = Inr (0, s1)" "demo_data (g_vm s1) = 42"
    using mmio_response [OF _ px, of demo_env] by (auto simp: demo_env_def demo_vmm_def demo_vm0_def)
  obtain s2 where "process_msgs demo_env 0 (responses (g_px ?s) @ events (g_px ?s)) ?s = Inr (0, [], s2)" "g_vm s2 = g_vm s1"
    using s1 by (simp add: px inbox_proxy_ok start_event)
  with rpc_run_drains [of ?s demo_env s2] s1 show ?thesis
    by (auto simp: px inbox_proxy_ok) (metis with_io_simps(5))
qed

theorem rpc_run_loses_error_witness:
  "\<exists>s'. rpc_run demo_env (demo_vmm (inbox_proxy (zero_msg\<lparr>mr0 := 63\<rparr>))) = Inr (0, s') \<and> lent_ids (g_px s') = {0}"
proof -
  let ?s = "demo_vmm (inbox_proxy (zero_msg\<lparr>mr0 := 63\<rparr>))"
  have px: "g_px ?s = inbox_proxy (zero_msg\<lparr>mr0 := 63\<rparr>)" by (simp add: demo_vmm_def)
  show ?thesis
    using rpc_run_loses_error [of ?s 0 "[]" "zero_msg\<lparr>mr0 := 63\<rparr>" "[]" demo_env ?s]
    by (auto simp: px inbox_proxy_ok unknown_event start_event)
qed

theorem irq_message_isolated_witness:
  "\<exists>rc s'. rpc_process demo_env (zero_msg\<lparr>mr0 := 16, mr1 := 150, mr2 := 1\<rparr>) (demo_vmm demo_proxy) = Inr (rc, s')
     \<and> irq_target demo_env (zero_msg\<lparr>mr0 := 16, mr1 := 150, mr2 := 1\<rparr>) (demo_vmm demo_proxy) = Some 150
     \<and> demo_level (g_vm s') 0 151 = demo_level demo_vm0 0 151"
proof -
  let ?s = "demo_vmm demo_proxy" let ?msg = "zero_msg\<lparr>mr0 := 16, mr1 := 150, mr2 := 1\<rparr>"
  have valid: "v2m_irq_valid v2m_demo 150" by (simp add: v2m_irq_valid_def v2m_demo_def v2m_rpi4_def)
  have emu: "emudev_ok demo_emudev" by (simp add: emudev_ok_def demo_emudev_def irqs.uniq_def)
  have ok: "irq_spec (g_ops demo_env) demo_level" "lists_ok (g_lists demo_env)" "irqs_ok demo_env demo_level ?s"
    using demo_irq_spec demo_lists_ok v2m_demo_ok demo_bus_ok emu
    by (simp_all add: demo_env_def irqs_ok_def demo_vmm_def demo_pci_def)
  have op: "ucast (QEMU_OP (mr0 ?msg)) = QEMU_OP_SET_IRQ" by (simp add: demo_ops_words)
  obtain rc vm' where "v2m_inject_irq demo_ops v2m_demo 150 demo_vm0 = Inr (rc, vm')"
    using v2m_inject_level [OF demo_irq_spec v2m_demo_ok, of 150 demo_vm0] by blast
  then obtain rc s' where run: "rpc_process demo_env ?msg ?s = Inr (rc, s')"
    using valid by (simp add: rpc_process_cases [OF op [symmetric]] op_defs demo_vmm_def demo_env_def cb_msi_def
        handle_msi_def msi_irq_set_def verdict_def RPC_IRQ_SET_def)
  have target: "irq_target demo_env ?msg ?s = Some 150" using valid by (simp add: irq_target_def demo_vmm_def)
  show ?thesis
    using irq_message_isolated [OF ok op run, of 151 0] target run by (auto simp: demo_vmm_def)
qed

theorem monitor_init_establishes_witness:
  "\<exists>rc ini s'. libsel4vm_io_proxy_init demo_env 0 (vm_io_proxy_run demo_env 0) 5 (\<lambda>px. snd (handle_control QEMU_OP_START_VM zero_msg px)) False
      ((demo_vmm demo_proxy)\<lparr>g_v2m := v2m_rpi4\<rparr>) = Inr (rc, ini, s')
    \<and> (rc = 0 \<longrightarrow> irqs_ok demo_env demo_level s' \<and> proxy_idle (g_px s'))"
proof -
  let ?s = "(demo_vmm demo_proxy)\<lparr>g_v2m := v2m_rpi4\<rparr>"
  have "q_at (px_mem demo_proxy) devevt_queue = rpcmsg_queue_init zero_queue"
    "b_at (px_mem demo_proxy) devevt_queue = replicate 32 zero_msg"
    by (simp_all add: demo_proxy_def vso_refs q_at_def b_at_def zero_mem_def zero_queue_def rpcmsg_queue_init_def)
  then have static: "proxy_static demo_proxy"
    using demo_proxy_ok(1) queue_init_ok [of zero_queue]
    by (simp add: proxy_static_def proxy_ok_def endpoint_ok_def event_ok_def)
  have env: "irq_spec (g_ops demo_env) demo_level" "lists_ok (g_lists demo_env)"
    using demo_irq_spec demo_lists_ok by (simp_all add: demo_env_def)
  have none: "events demo_proxy = []"
    by (simp add: events_def event_msgs_def queue_slots_def queue_len_def demo_proxy_def vso_refs q_at_def zero_mem_def zero_queue_def zero_marker_def slots_def)
  have s: "proxy_static (g_px ?s)" "g_v2m ?s = v2m_rpi4 \<or> g_v2m ?s = v2m_qemu_arm_virt" "length (pci_intx (g_pci ?s)) = 4"
    "\<forall>p < 4. \<not> demo_level (g_vm ?s) BOOT_VCPU (INTERRUPT_PCI_INTX_BASE (g_pci_env demo_env) + of_nat p)"
    "events (g_px ?s) = []"
    using static none by (simp_all add: demo_vmm_def demo_bus_def demo_vm0_def)
  have "\<exists>r vm1. vm_reserve_memory_at (g_ops demo_env) (ctrl_base (g_px ?s)) (ctrl_size (g_px ?s)) Mmio_Fault_Handler (px_id (g_px ?s)) (g_vm ?s) = (Some r, vm1)"
    by (simp add: demo_env_def demo_ops_def)
  then show ?thesis
    using monitor_init_establishes [OF env s(2,3,4,1,5), of _ _ 5 zero_msg] by blast
qed

end
