(* ===== verification/Fdt.thy ===== *)
theory Fdt
  imports Format Pci_Defs
begin

unbundle bit_operations_syntax

text \<open>
  The device tree code of \<open>src/fdt.c\<close> and \<open>src/plat/rpi4/fdt.c\<close>: node names, nodes for reserved
  memory and PCI devices, references from one to the other, and the registry of nodes that
  components contribute.

  libfdt and the generator of memory nodes are library code: the record \<open>fdt_ops\<close>, on a blob
  of some type \<open>'f\<close>. What their documentation promises is the predicate \<open>fdt_spec\<close>, which
  reads the blob through a view (the nodes by path, the node at an offset, the values
  appended to a property, the node a path string resolves to).
\<close>

section \<open>Library interface\<close>

record 'f fdt_ops =
  fdt_get_max_phandle :: "'f \<Rightarrow> u32"
  fdt_get_phandle :: "'f \<Rightarrow> int \<Rightarrow> u32"
  fdt_path_offset :: "'f \<Rightarrow> string \<Rightarrow> int"
  fdt_address_cells :: "'f \<Rightarrow> int \<Rightarrow> int"
  fdt_size_cells :: "'f \<Rightarrow> int \<Rightarrow> int"
  fdt_add_subnode :: "'f \<Rightarrow> int \<Rightarrow> string \<Rightarrow> int \<times> 'f"
  fdt_appendprop_u32 :: "'f \<Rightarrow> int \<Rightarrow> string \<Rightarrow> u32 \<Rightarrow> int \<times> 'f"
  fdt_appendprop_uint :: "'f \<Rightarrow> int \<Rightarrow> string \<Rightarrow> u64 \<Rightarrow> int \<Rightarrow> int \<times> 'f"
  fdt_appendprop_string :: "'f \<Rightarrow> int \<Rightarrow> string \<Rightarrow> string \<Rightarrow> int \<times> 'f"
  fdt_generate_memory_node :: "'f \<Rightarrow> u64 \<Rightarrow> u64 \<Rightarrow> int \<times> 'f"
  FDT_ERR_NOTFOUND :: int
  FDT_ERR_INTERNAL :: int
  FDT_ERR_NOPHANDLES :: int

section \<open>Definitions\<close>

text \<open>Going on with the blob unless the previous step failed (\<open>if (err) goto error\<close>).\<close>
definition fdt_try :: "int \<times> 'f \<Rightarrow> ('f \<Rightarrow> int \<times> 'f) \<Rightarrow> int \<times> 'f" where
  "fdt_try r k = (case r of (err, f) \<Rightarrow> if err \<noteq> 0 then (err, f) else k f)"

definition fdt_format :: "'f fdt_ops \<Rightarrow> nat \<Rightarrow> string \<Rightarrow> int \<times> string" where
  "fdt_format F len s =
     (case snprintf len s of (n, buf) \<Rightarrow> (if n < 0 \<or> n \<ge> int len then - FDT_ERR_INTERNAL F else 0, buf))"

definition fdt_format_memory_name :: "'f fdt_ops \<Rightarrow> nat \<Rightarrow> string \<Rightarrow> u64 \<Rightarrow> int \<times> string" where
  "fdt_format_memory_name F len prefix base = fdt_format F len (prefix @ ''@'' @ fmt_x base)"

definition fdt_format_pci_devfn_name :: "'f fdt_ops \<Rightarrow> nat \<Rightarrow> string \<Rightarrow> u32 \<Rightarrow> int \<times> string" where
  "fdt_format_pci_devfn_name F len prefix dfn =
     fdt_format F len (prefix @ ''@'' @ fmt_u (PCI_SLOT dfn) @ '','' @ fmt_u (PCI_FUNC dfn))"

definition fdt_assign_phandle :: "'f fdt_ops \<Rightarrow> 'f \<Rightarrow> int \<Rightarrow> int \<times> 'f" where
  "fdt_assign_phandle F f offset =
     (let max_phandle = fdt_get_max_phandle F f in
      if max_phandle = -1 then (- FDT_ERR_NOPHANDLES F, f)
      else
        let phandle = max_phandle + 1 in
        if phandle < max_phandle \<or> phandle = -1 then (- FDT_ERR_NOPHANDLES F, f)
        else fdt_try (fdt_appendprop_u32 F f offset ''phandle'' phandle) (\<lambda>f. (0, f)))"

text \<open>A null \<open>compatible\<close> is dereferenced by the library.\<close>
definition fdt_generate_reserved_node ::
  "'f fdt_ops \<Rightarrow> string \<Rightarrow> string option \<Rightarrow> u64 \<Rightarrow> u64 \<Rightarrow> 'f \<Rightarrow> (int \<times> 'f) res" where
  "fdt_generate_reserved_node F prefix compatible base sz f =
     (case fdt_format_memory_name F 64 prefix base of (err, name) \<Rightarrow>
        if err \<noteq> 0 then Inr (- FDT_ERR_INTERNAL F, f)
        else
          let root_offset = fdt_path_offset F f ''/reserved-memory'' in
          if root_offset < 0 then Inr (root_offset, f)
          else
            let address_cells = fdt_address_cells F f root_offset; size_cells = fdt_size_cells F f root_offset in
            case fdt_add_subnode F f root_offset name of (this, f) \<Rightarrow>
              if this < 0 then Inr (this, f)
              else
                case compatible of
                  None \<Rightarrow> Inl Null_Deref
                | Some c \<Rightarrow>
                    Inr (fdt_try (fdt_appendprop_string F f this ''compatible'' c) (\<lambda>f.
                      fdt_try (fdt_appendprop_uint F f this ''reg'' base address_cells) (\<lambda>f.
                        fdt_try (fdt_appendprop_uint F f this ''reg'' sz size_cells) (\<lambda>f.
                          fdt_try (fdt_assign_phandle F f this) (\<lambda>f.
                            case fdt_generate_memory_node F f base sz of (err, f) \<Rightarrow>
                              (if err \<noteq> 0 then -1 else this, f)))))))"

text \<open>The loop that appends the remaining zero cells of \<open>reg\<close>.\<close>
fun append_zero_cells :: "'f fdt_ops \<Rightarrow> int \<Rightarrow> nat \<Rightarrow> 'f \<Rightarrow> int \<times> 'f" where
  "append_zero_cells F this 0 f = (0, f)"
| "append_zero_cells F this (Suc n) f =
     fdt_try (fdt_appendprop_u32 F f this ''reg'' 0) (append_zero_cells F this n)"

definition fdt_generate_pci_node :: "'f fdt_ops \<Rightarrow> string \<Rightarrow> u32 \<Rightarrow> 'f \<Rightarrow> int \<times> 'f" where
  "fdt_generate_pci_node F prefix dfn f =
     (let root_offset = fdt_path_offset F f ''/pci'' in
      if root_offset < 0 then (root_offset, f)
      else
        case fdt_format_pci_devfn_name F 64 prefix dfn of (err, name) \<Rightarrow>
          if err \<noteq> 0 then (- FDT_ERR_INTERNAL F, f)
          else
            case fdt_add_subnode F f root_offset name of (this, f) \<Rightarrow>
              if this < 0 then (this, f)
              else
                fdt_try (fdt_appendprop_u32 F f this ''reg'' (push_bit 8 (dfn AND 0xff))) (\<lambda>f.
                  fdt_try (append_zero_cells F this 4 f) (\<lambda>f. (this, f))))"

text \<open>The pointers are not null at the only call; the phandle is returned instead of stored.\<close>
definition fdt_reserved_memory_phandle :: "'f fdt_ops \<Rightarrow> 'f \<Rightarrow> string \<Rightarrow> int \<times> u32" where
  "fdt_reserved_memory_phandle F f name =
     (case snprintf 256 (''/reserved-memory/'' @ name) of (n, path) \<Rightarrow>
        if n < 0 \<or> n \<ge> 256 then (- FDT_ERR_INTERNAL F, 0)
        else
          let off = fdt_path_offset F f path in
          if off < 0 then (off, 0)
          else
            let p = fdt_get_phandle F f off in
            if p = 0 then (- FDT_ERR_NOTFOUND F, 0) else (0, p))"

text \<open>The result of formatting the name is not tested: \<open>name\<close> is an array and never null.\<close>
definition fdt_assign_reserved_memory ::
  "'f fdt_ops \<Rightarrow> int \<Rightarrow> string option \<Rightarrow> u64 \<Rightarrow> 'f option \<Rightarrow> int \<times> 'f option" where
  "fdt_assign_reserved_memory F off prefix base fdt =
     (case (fdt, prefix) of
        (Some f, Some prefix) \<Rightarrow>
          (case fdt_format_memory_name F 64 prefix base of (_, name) \<Rightarrow>
             case fdt_reserved_memory_phandle F f name of (err, phandle) \<Rightarrow>
               if err = - FDT_ERR_NOTFOUND F then (0, Some f)
               else if err < 0 then (-1, Some f)
               else map_prod id Some (fdt_try (fdt_appendprop_u32 F f off ''memory-region'' phandle) (\<lambda>f. (0, f))))
      | _ \<Rightarrow> (-1, fdt))"

subsection \<open>The node registry\<close>

datatype fdt_generate_fn = Fdt_Node_Generate_Dataport | Fdt_Node_Generate_Swiotlb

record fdt_node =
  node_name :: string
  node_compatible :: "string option"
  generated :: bool
  generate :: "fdt_generate_fn option"

record fdt_dataport = fdt_node +
  gpa :: u64
  dp_size :: u64

definition MAX_FDT_NODES :: nat where "MAX_FDT_NODES = 32"

text \<open>
  The linker section \<open>_fdt_node\<close>: the array \<open>fdt_nodes\<close> with the static pointers that the
  linker placed before and after it, and the nodes the pointers lead to.
\<close>
record fdt_registry =
  section_before :: "nat option list"
  fdt_nodes :: "nat option list"
  section_after :: "nat option list"
  num_fdt_nodes :: nat
  node_mem :: "nat \<Rightarrow> fdt_dataport"

definition fdt_section :: "fdt_registry \<Rightarrow> nat option list" where
  "fdt_section reg = section_before reg @ fdt_nodes reg @ section_after reg"

definition fdt_node_add :: "nat \<Rightarrow> fdt_registry \<Rightarrow> int \<times> fdt_registry" where
  "fdt_node_add node reg =
     (if MAX_FDT_NODES \<le> num_fdt_nodes reg then (-1, reg)
      else (0, reg\<lparr>fdt_nodes := (fdt_nodes reg)[num_fdt_nodes reg := Some node], num_fdt_nodes := Suc (num_fdt_nodes reg)\<rparr>))"

text \<open>\<open>guest_ram_base\<close> and \<open>guest_ram_size\<close>.\<close>
record guest_ram =
  guest_ram_base :: u64
  guest_ram_size :: u64

definition fdt_node_generate_dataport :: "'f fdt_ops \<Rightarrow> fdt_dataport \<Rightarrow> 'f \<Rightarrow> (int \<times> 'f) res" where
  "fdt_node_generate_dataport F dataport f =
     res_bind (fdt_generate_reserved_node F (node_name dataport) (node_compatible dataport) (gpa dataport) (dp_size dataport) f)
       (\<lambda>(offset, f). Inr (if offset \<le> 0 then -1 else 1, f))"

definition fdt_node_generate_swiotlb :: "'f fdt_ops \<Rightarrow> guest_ram \<Rightarrow> fdt_dataport \<Rightarrow> 'f \<Rightarrow> (int \<times> 'f) res" where
  "fdt_node_generate_swiotlb F ram dataport f =
     (if gpa dataport = guest_ram_base ram \<and> dp_size dataport = guest_ram_size ram then Inr (0, f)
      else fdt_node_generate_dataport F dataport f)"

text \<open>\<open>node->generate(node, fdt)\<close>.\<close>
definition run_generate :: "'f fdt_ops \<Rightarrow> guest_ram \<Rightarrow> fdt_generate_fn \<Rightarrow> fdt_dataport \<Rightarrow> 'f \<Rightarrow> (int \<times> 'f) res" where
  "run_generate F ram g node f =
     (case g of
        Fdt_Node_Generate_Dataport \<Rightarrow> fdt_node_generate_dataport F node f
      | Fdt_Node_Generate_Swiotlb \<Rightarrow> fdt_node_generate_swiotlb F ram node f)"

definition fdt_node_generate ::
  "'f fdt_ops \<Rightarrow> guest_ram \<Rightarrow> nat \<Rightarrow> fdt_registry \<Rightarrow> 'f option \<Rightarrow> (int \<times> fdt_registry \<times> 'f option) res" where
  "fdt_node_generate F ram node reg fdt =
     (let n = node_mem reg node in
      case (generate n, fdt) of
        (Some g, Some f) \<Rightarrow>
          if generated n then Inr (0, reg, fdt)
          else
            res_bind (run_generate F ram g n f) (\<lambda>(rc, f).
              Inr (rc, if rc > 0 then reg\<lparr>node_mem := (node_mem reg)(node := n\<lparr>generated := True\<rparr>)\<rparr> else reg, Some f))
      | _ \<Rightarrow> Inr (-1, reg, fdt))"

definition fdt_node_filter_compatible :: "fdt_dataport \<Rightarrow> string option \<Rightarrow> int" where
  "fdt_node_filter_compatible node cookie =
     (case cookie of
        None \<Rightarrow> -1
      | Some compatible \<Rightarrow> if node_compatible node = Some compatible then 1 else 0)"

text \<open>The loop of \<open>fdt_node_generate_filter\<close> over the rest of the section, with its variable \<open>rc\<close>.\<close>
fun generate_filter_loop ::
  "'f fdt_ops \<Rightarrow> guest_ram \<Rightarrow> (fdt_dataport \<Rightarrow> int) option \<Rightarrow> nat option list \<Rightarrow> int \<Rightarrow> fdt_registry \<Rightarrow> 'f option
     \<Rightarrow> (int \<times> fdt_registry \<times> 'f option) res" where
  "generate_filter_loop F ram filter_fn [] rc reg fdt = Inr (0, reg, fdt)"
| "generate_filter_loop F ram filter_fn (ptr # ptrs) rc reg fdt =
     (if rc \<noteq> 0 then Inr (0, reg, fdt)
      else
        case ptr of
          None \<Rightarrow> generate_filter_loop F ram filter_fn ptrs rc reg fdt
        | Some node \<Rightarrow>
            let rc = (case filter_fn of None \<Rightarrow> rc | Some fn \<Rightarrow> fn (node_mem reg node)) in
            if filter_fn \<noteq> None \<and> rc = -1 then Inr (-1, reg, fdt)
            else if rc = 0 then generate_filter_loop F ram filter_fn ptrs rc reg fdt
            else
              res_bind (fdt_node_generate F ram node reg fdt) (\<lambda>(rc, reg, fdt).
                if rc < 0 then Inr (-1, reg, fdt) else generate_filter_loop F ram filter_fn ptrs rc reg fdt))"

definition fdt_node_generate_filter ::
  "'f fdt_ops \<Rightarrow> guest_ram \<Rightarrow> (fdt_dataport \<Rightarrow> int) option \<Rightarrow> fdt_registry \<Rightarrow> 'f option
     \<Rightarrow> (int \<times> fdt_registry \<times> 'f option) res" where
  "fdt_node_generate_filter F ram filter_fn reg fdt = generate_filter_loop F ram filter_fn (fdt_section reg) 0 reg fdt"

definition fdt_node_generate_compatibles ::
  "'f fdt_ops \<Rightarrow> guest_ram \<Rightarrow> fdt_registry \<Rightarrow> 'f option \<Rightarrow> string option \<Rightarrow> (int \<times> fdt_registry \<times> 'f option) res" where
  "fdt_node_generate_compatibles F ram reg fdt compatible =
     fdt_node_generate_filter F ram (Some (\<lambda>n. fdt_node_filter_compatible n compatible)) reg fdt"

definition fdt_node_generate_all ::
  "'f fdt_ops \<Rightarrow> guest_ram \<Rightarrow> fdt_registry \<Rightarrow> 'f option \<Rightarrow> (int \<times> fdt_registry \<times> 'f option) res" where
  "fdt_node_generate_all F ram reg fdt = fdt_node_generate_filter F ram None reg fdt"

subsection \<open>The Raspberry Pi 4\<close>

definition USB_PCI_NODE_PATH :: string where "USB_PCI_NODE_PATH = ''/scb/pcie@7d500000/pci@0,0''"
definition USB_NODE_NAME :: string where "USB_NODE_NAME = ''usb@0,0''"

text \<open>The appended cells, in the order of the calls.\<close>
fun append_cells :: "'f fdt_ops \<Rightarrow> int \<Rightarrow> (string \<times> u32) list \<Rightarrow> 'f \<Rightarrow> int \<times> 'f" where
  "append_cells F this [] f = (0, f)"
| "append_cells F this ((name, v) # ps) f = fdt_try (fdt_appendprop_u32 F f this name v) (append_cells F this ps)"

definition fdt_generate_usb_node :: "'f fdt_ops \<Rightarrow> 'f \<Rightarrow> int \<times> 'f" where
  "fdt_generate_usb_node F f =
     (let root_offset = fdt_path_offset F f USB_PCI_NODE_PATH in
      if root_offset \<le> 0 then (0, f)
      else
        case fdt_add_subnode F f root_offset USB_NODE_NAME of (this, f) \<Rightarrow>
          if this < 0 then (this, f)
          else append_cells F this [(''resets'', 0x2d), (''resets'', 0), (''reg'', 0x10000), (''reg'', 0), (''reg'', 0),
                 (''reg'', 0), (''reg'', 0)] f)"

definition fdt_plat_customize :: "'f fdt_ops \<Rightarrow> 'f \<Rightarrow> int \<times> 'f" where
  "fdt_plat_customize F f = (case fdt_generate_usb_node F f of (err, f) \<Rightarrow> (if err \<noteq> 0 then -1 else 0, f))"

section \<open>Documented behaviour of the library\<close>

datatype fdt_val = Cell u32 | Uint u64 int | Str string

type_synonym path = "string list"

record 'f fdt_view =
  v_nodes :: "'f \<Rightarrow> path set"
  v_at :: "'f \<Rightarrow> int \<Rightarrow> path option"
  v_prop :: "'f \<Rightarrow> path \<Rightarrow> string \<Rightarrow> fdt_val list"
  v_path :: "'f \<Rightarrow> string \<Rightarrow> path option"

text \<open>The name of a node without its unit address, which a path may leave out.\<close>
definition base_name :: "string \<Rightarrow> string" where
  "base_name s = takeWhile (\<lambda>c. c \<noteq> CHR ''@'') s"

text \<open>Appending to a property changes that property of that node and nothing else; errors are negative.\<close>
definition appended :: "'f fdt_view \<Rightarrow> 'f \<Rightarrow> int \<Rightarrow> string \<Rightarrow> fdt_val \<Rightarrow> int \<times> 'f \<Rightarrow> bool" where
  "appended V f off name v r \<longleftrightarrow>
     fst r \<le> 0 \<and> (fst r = 0 \<longrightarrow> (\<exists>p. v_at V f off = Some p \<and> v_at V (snd r) off = Some p \<and> v_nodes V (snd r) = v_nodes V f
        \<and> v_path V (snd r) = v_path V f
        \<and> v_prop V (snd r) = (v_prop V f)(p := (v_prop V f p)(name := v_prop V f p name @ [v]))))"

text \<open>
  A node that is added has no properties; the others keep theirs, and a path that resolved
  to a node still does, unless a name on it is the new name up to the unit address.
\<close>
definition added :: "'f fdt_view \<Rightarrow> 'f \<Rightarrow> int \<Rightarrow> string \<Rightarrow> int \<times> 'f \<Rightarrow> bool" where
  "added V f off name r \<longleftrightarrow>
     (0 \<le> fst r \<longrightarrow> 0 < fst r \<and> (\<exists>p. v_at V f off = Some p \<and> p @ [name] \<notin> v_nodes V f
        \<and> v_nodes V (snd r) = insert (p @ [name]) (v_nodes V f) \<and> v_at V (snd r) (fst r) = Some (p @ [name])
        \<and> v_prop V (snd r) = (v_prop V f)(p @ [name] := (\<lambda>_. []))
        \<and> (\<forall>s q. v_path V f s = Some q \<longrightarrow> base_name name \<notin> base_name ` set q \<longrightarrow> v_path V (snd r) s = Some q)))"

definition fdt_spec :: "'f fdt_ops \<Rightarrow> 'f fdt_view \<Rightarrow> bool" where
  "fdt_spec F V \<longleftrightarrow>
     0 < FDT_ERR_NOTFOUND F \<and> 0 < FDT_ERR_INTERNAL F \<and> 0 < FDT_ERR_NOPHANDLES F
     \<and> (\<forall>f off name v. appended V f off name (Cell v) (fdt_appendprop_u32 F f off name v))
     \<and> (\<forall>f off name v n. appended V f off name (Uint v n) (fdt_appendprop_uint F f off name v n))
     \<and> (\<forall>f off name v. appended V f off name (Str v) (fdt_appendprop_string F f off name v))
     \<and> (\<forall>f off name. added V f off name (fdt_add_subnode F f off name))
     \<and> (\<forall>f s. if fdt_path_offset F f s < 0 then v_path V f s = None
              else v_path V f s = v_at V f (fdt_path_offset F f s) \<and> v_path V f s \<noteq> None)
     \<and> (\<forall>f s q. v_path V f (''/'' @ s) = Some q \<longrightarrow> CHR ''/'' \<notin> set s \<longrightarrow> (\<exists>x. q = [x] \<and> (x = s \<or> base_name x = s)))
     \<and> (\<forall>f s p name. v_path V f s = Some p \<longrightarrow> CHR ''@'' \<in> set name \<longrightarrow> CHR ''/'' \<notin> set name \<longrightarrow>
          v_path V f (s @ ''/'' @ name) = (if p @ [name] \<in> v_nodes V f then Some (p @ [name]) else None))
     \<and> (\<forall>f off p h. v_at V f off = Some p \<longrightarrow> v_prop V f p ''phandle'' = [Cell h] \<longrightarrow> fdt_get_phandle F f off = h)
     \<and> (\<forall>f p h. fdt_get_max_phandle F f \<noteq> -1 \<longrightarrow> p \<in> v_nodes V f \<longrightarrow> v_prop V f p ''phandle'' = [Cell h] \<longrightarrow>
          h \<le> fdt_get_max_phandle F f)
     \<and> (\<forall>f base sz. fst (fdt_generate_memory_node F f base sz) = 0 \<longrightarrow>
          (let f' = snd (fdt_generate_memory_node F f base sz) in
           v_nodes V f \<subseteq> v_nodes V f' \<and> (\<forall>p \<in> v_nodes V f' - v_nodes V f. base_name (last p) = ''memory'')
           \<and> (\<forall>p \<in> v_nodes V f. base_name (last p) \<noteq> ''memory'' \<longrightarrow> v_prop V f' p = v_prop V f p)
           \<and> (\<forall>s q. v_path V f s = Some q \<longrightarrow> ''memory'' \<notin> base_name ` set q \<longrightarrow> v_path V f' s = Some q)))"

lemma fdt_specD:
  assumes "fdt_spec F V"
  shows "0 < FDT_ERR_NOTFOUND F" "0 < FDT_ERR_INTERNAL F" "0 < FDT_ERR_NOPHANDLES F"
    "appended V f off name (Cell v) (fdt_appendprop_u32 F f off name v)"
    "appended V f off name (Uint x n) (fdt_appendprop_uint F f off name x n)"
    "appended V f off name (Str t) (fdt_appendprop_string F f off name t)"
    "added V f off name (fdt_add_subnode F f off name)"
    "fdt_path_offset F f s < 0 \<Longrightarrow> v_path V f s = None"
    "0 \<le> fdt_path_offset F f s \<Longrightarrow> \<exists>p. v_path V f s = Some p \<and> v_at V f (fdt_path_offset F f s) = Some p"
    "v_path V f (''/'' @ s) = Some p \<Longrightarrow> CHR ''/'' \<notin> set s \<Longrightarrow> \<exists>x. p = [x] \<and> (x = s \<or> base_name x = s)"
    "v_path V f s = Some p \<Longrightarrow> CHR ''@'' \<in> set name \<Longrightarrow> CHR ''/'' \<notin> set name \<Longrightarrow>
       v_path V f (s @ ''/'' @ name) = (if p @ [name] \<in> v_nodes V f then Some (p @ [name]) else None)"
    "v_at V f off = Some p \<Longrightarrow> v_prop V f p ''phandle'' = [Cell h] \<Longrightarrow> fdt_get_phandle F f off = h"
    "fdt_get_max_phandle F f \<noteq> -1 \<Longrightarrow> p \<in> v_nodes V f \<Longrightarrow> v_prop V f p ''phandle'' = [Cell h] \<Longrightarrow> h \<le> fdt_get_max_phandle F f"
proof -
  note spec = assms [unfolded fdt_spec_def]
  show "0 < FDT_ERR_NOTFOUND F" "0 < FDT_ERR_INTERNAL F" "0 < FDT_ERR_NOPHANDLES F"
    using spec by blast+
  show "appended V f off name (Cell v) (fdt_appendprop_u32 F f off name v)"
    "appended V f off name (Uint x n) (fdt_appendprop_uint F f off name x n)"
    "appended V f off name (Str t) (fdt_appendprop_string F f off name t)"
    "added V f off name (fdt_add_subnode F f off name)"
    using spec by (elim conjE, simp only:)+
  have path: "\<forall>f s. if fdt_path_offset F f s < 0 then v_path V f s = None
      else v_path V f s = v_at V f (fdt_path_offset F f s) \<and> v_path V f s \<noteq> None"
    using spec by (elim conjE)
  show "fdt_path_offset F f s < 0 \<Longrightarrow> v_path V f s = None"
    "0 \<le> fdt_path_offset F f s \<Longrightarrow> \<exists>p. v_path V f s = Some p \<and> v_at V f (fdt_path_offset F f s) = Some p"
    using path [rule_format, of f s] by (cases "v_path V f s", auto)+
  show "v_path V f (''/'' @ s) = Some p \<Longrightarrow> CHR ''/'' \<notin> set s \<Longrightarrow> \<exists>x. p = [x] \<and> (x = s \<or> base_name x = s)"
    using spec by (elim conjE) meson
  show "v_path V f s = Some p \<Longrightarrow> CHR ''@'' \<in> set name \<Longrightarrow> CHR ''/'' \<notin> set name \<Longrightarrow>
       v_path V f (s @ ''/'' @ name) = (if p @ [name] \<in> v_nodes V f then Some (p @ [name]) else None)"
    using spec by (elim conjE) meson
  show "v_at V f off = Some p \<Longrightarrow> v_prop V f p ''phandle'' = [Cell h] \<Longrightarrow> fdt_get_phandle F f off = h"
    "fdt_get_max_phandle F f \<noteq> -1 \<Longrightarrow> p \<in> v_nodes V f \<Longrightarrow> v_prop V f p ''phandle'' = [Cell h] \<Longrightarrow> h \<le> fdt_get_max_phandle F f"
    using spec by (elim conjE, meson)+
qed

lemma memory_node_keeps:
  assumes "fdt_spec F V" "fdt_generate_memory_node F f base sz = (0, f')"
  shows "v_nodes V f \<subseteq> v_nodes V f'" "p \<in> v_nodes V f \<Longrightarrow> base_name (last p) \<noteq> ''memory'' \<Longrightarrow> v_prop V f' p = v_prop V f p"
    "v_path V f s = Some q \<Longrightarrow> ''memory'' \<notin> base_name ` set q \<Longrightarrow> v_path V f' s = Some q"
    "p \<in> v_nodes V f' \<Longrightarrow> p \<notin> v_nodes V f \<Longrightarrow> base_name (last p) = ''memory''"
proof -
  have "let f' = snd (fdt_generate_memory_node F f base sz) in
           v_nodes V f \<subseteq> v_nodes V f' \<and> (\<forall>p \<in> v_nodes V f' - v_nodes V f. base_name (last p) = ''memory'')
           \<and> (\<forall>p \<in> v_nodes V f. base_name (last p) \<noteq> ''memory'' \<longrightarrow> v_prop V f' p = v_prop V f p)
           \<and> (\<forall>s q. v_path V f s = Some q \<longrightarrow> ''memory'' \<notin> base_name ` set q \<longrightarrow> v_path V f' s = Some q)"
    using assms(1) [unfolded fdt_spec_def] assms(2) by (elim conjE allE [of _ f] allE [of _ base] allE [of _ sz]) simp
  then show "v_nodes V f \<subseteq> v_nodes V f'" "p \<in> v_nodes V f \<Longrightarrow> base_name (last p) \<noteq> ''memory'' \<Longrightarrow> v_prop V f' p = v_prop V f p"
    "v_path V f s = Some q \<Longrightarrow> ''memory'' \<notin> base_name ` set q \<Longrightarrow> v_path V f' s = Some q"
    "p \<in> v_nodes V f' \<Longrightarrow> p \<notin> v_nodes V f \<Longrightarrow> base_name (last p) = ''memory''"
    by (simp_all add: assms(2))
qed

section \<open>Names\<close>

lemma fdt_format_fits: "length s < len \<Longrightarrow> fdt_format F len s = (0, s)"
  by (simp add: fdt_format_def)

lemma fdt_format_ok: "0 < FDT_ERR_INTERNAL F \<Longrightarrow> fdt_format F len s = (0, name) \<longleftrightarrow> length s < len \<and> name = s"
  by (auto simp: fdt_format_def snprintf_def split: if_splits)

lemma memory_name_ok:
  "0 < FDT_ERR_INTERNAL F \<Longrightarrow> fdt_format_memory_name F len prefix base = (0, name) \<Longrightarrow> name = prefix @ ''@'' @ fmt_x base"
  by (simp add: fdt_format_memory_name_def fdt_format_ok)

lemma memory_name_fits:
  "length prefix \<le> 46 \<Longrightarrow> fdt_format_memory_name F 64 prefix base = (0, prefix @ ''@'' @ fmt_x base)"
  using length_fmt_x [of base] by (simp add: fdt_format_memory_name_def fdt_format_fits)

lemma base_name_at [simp]: "CHR ''@'' \<notin> set p \<Longrightarrow> base_name (p @ CHR ''@'' # s) = p"
  by (simp add: base_name_def takeWhile_append2 takeWhile_eq_all_conv takeWhile_append)

section \<open>Steps\<close>

lemma fdt_try_ok: "fdt_try r k = (0, f') \<longleftrightarrow> (\<exists>f. r = (0, f) \<and> k f = (0, f'))"
  by (cases r) (auto simp: fdt_try_def)

lemma fdt_try_nonneg:
  "fdt_try r k = (n, f') \<Longrightarrow> 0 \<le> n \<Longrightarrow> fst r \<le> 0 \<Longrightarrow> \<exists>f. r = (0, f) \<and> k f = (n, f')"
  by (cases r) (auto simp: fdt_try_def split: if_splits)

text \<open>
  While a node is filled in: the blob \<open>f\<close> is the blob \<open>f0\<close> with the new node \<open>p\<close>, which the
  offset refers to and which has the properties \<open>props\<close> so far.
\<close>
definition building :: "'f fdt_view \<Rightarrow> 'f \<Rightarrow> int \<Rightarrow> path \<Rightarrow> (string \<Rightarrow> fdt_val list) \<Rightarrow> 'f \<Rightarrow> bool" where
  "building V f0 off p props f \<longleftrightarrow>
     v_at V f off = Some p \<and> p \<notin> v_nodes V f0 \<and> v_nodes V f = insert p (v_nodes V f0) \<and> v_prop V f = (v_prop V f0)(p := props)
     \<and> (\<forall>s q. v_path V f0 s = Some q \<longrightarrow> base_name (last p) \<notin> base_name ` set q \<longrightarrow> v_path V f s = Some q)"

lemma building_add:
  assumes "fdt_spec F V" "fdt_add_subnode F f off name = (this, f')" "0 \<le> this" "v_at V f off = Some p"
  shows "0 < this \<and> building V f this (p @ [name]) (\<lambda>_. []) f'"
  using fdt_specD(7) [OF assms(1), of f off name] assms(2-) by (auto simp: added_def building_def)

lemma building_append:
  assumes "building V f0 off p props f" "appended V f off name v (0, f')"
  shows "building V f0 off p (props(name := props name @ [v])) f'"
  using assms by (auto simp: building_def appended_def)

lemma building_try:
  assumes "building V f0 off p props f" "appended V f off name v r" "fdt_try r k = (n, f')" "0 \<le> n"
  obtains f1 where "building V f0 off p (props(name := props name @ [v])) f1" "k f1 = (n, f')"
proof -
  have "fst r \<le> 0" using assms(2) by (simp add: appended_def)
  then obtain f1 where "r = (0, f1)" "k f1 = (n, f')" using fdt_try_nonneg [OF assms(3,4)] by auto
  with assms(2) have "appended V f off name v (0, f1)" by simp
  from building_append [OF assms(1) this] \<open>k f1 = (n, f')\<close> show ?thesis by (rule that)
qed

lemma building_zero_cells:
  assumes "fdt_spec F V" "building V f0 off p props f" "append_zero_cells F off n f = (0, f')"
  shows "building V f0 off p (props(''reg'' := props ''reg'' @ replicate n (Cell 0))) f'"
  using assms(2,3)
proof (induction n arbitrary: f props)
  case (Suc n)
  obtain f1 where "building V f0 off p (props(''reg'' := props ''reg'' @ [Cell 0])) f1" "append_zero_cells F off n f1 = (0, f')"
    using Suc.prems building_try [OF Suc.prems(1) fdt_specD(4) [OF assms(1)]] by (metis append_zero_cells.simps(2) order_refl)
  from Suc.IH [OF this] show ?case by (simp only: fun_upd_upd fun_upd_same append_assoc append_Cons append_Nil replicate_Suc)
qed simp

lemma zero_cells_nonpos: "fdt_spec F V \<Longrightarrow> fst (append_zero_cells F off n f) \<le> 0"
proof (induction n arbitrary: f)
  case (Suc n)
  then show ?case
    using fdt_specD(4) [OF Suc.prems, of f off "''reg''" 0]
    by (auto simp: fdt_try_def appended_def split: prod.splits)
qed simp

lemma phandle_fresh:
  assumes "fdt_spec F V" "building V f0 off p props f" "props ''phandle'' = []" "fdt_try (fdt_assign_phandle F f off) k = (n, f')" "0 \<le> n"
  obtains h f1 where "building V f0 off p (props(''phandle'' := [Cell h])) f1" "k f1 = (n, f')" "0 < h" "h \<noteq> -1"
    "\<And>q x. q \<in> v_nodes V f0 \<Longrightarrow> v_prop V f0 q ''phandle'' = [Cell x] \<Longrightarrow> x < h"
proof -
  let ?m = "fdt_get_max_phandle F f"
  have m: "?m \<noteq> -1" "\<not> ?m + 1 < ?m" "?m + 1 \<noteq> -1"
    and t: "fdt_try (fdt_appendprop_u32 F f off ''phandle'' (?m + 1)) k = (n, f')"
    using assms(4,5) fdt_specD(3) [OF assms(1)]
    by (auto simp: fdt_assign_phandle_def fdt_try_def Let_def split: if_splits prod.splits)
  obtain f1 where f1: "building V f0 off p (props(''phandle'' := [Cell (?m + 1)])) f1" "k f1 = (n, f')"
    using building_try [OF assms(2) fdt_specD(4) [OF assms(1)] t assms(5)] assms(3) by auto
  have lt: "?m < ?m + 1" using m by (metis add.right_neutral add_left_cancel not_less_iff_gr_or_eq zero_neq_one)
  have "x < ?m + 1" if "q \<in> v_nodes V f0" "v_prop V f0 q ''phandle'' = [Cell x]" for q x
  proof -
    have "q \<in> v_nodes V f" "v_prop V f q ''phandle'' = [Cell x]" using that assms(2) by (auto simp: building_def)
    then have "x \<le> ?m" using fdt_specD(13) [OF assms(1) m(1)] by blast
    with lt show ?thesis by simp
  qed
  moreover have "0 < ?m + 1" using lt by (metis word_gt_0 not_less_iff_gr_or_eq word_zero_le leD)
  ultimately show ?thesis using that f1 m(3) by blast
qed

section \<open>Generated nodes\<close>

lemma path_memory_node:
  assumes "fdt_spec F V" "v_path V f ''/reserved-memory'' = Some root" "CHR ''/'' \<notin> set prefix"
  shows "v_path V f (''/reserved-memory/'' @ prefix @ ''@'' @ fmt_x base) =
    (if root @ [prefix @ ''@'' @ fmt_x base] \<in> v_nodes V f then Some (root @ [prefix @ ''@'' @ fmt_x base]) else None)"
  using fdt_specD(11) [OF assms(1,2), of "prefix @ ''@'' @ fmt_x base"] assms(3) by simp

lemma root_path:
  assumes "fdt_spec F V" "v_path V f (''/'' @ s) = Some q" "CHR ''/'' \<notin> set s" "CHR ''@'' \<notin> set s"
  shows "\<exists>x. q = [x] \<and> base_name x = s"
proof -
  obtain x where "q = [x]" "x = s \<or> base_name x = s" using fdt_specD(10) [OF assms(1-3)] by blast
  with assms(4) show ?thesis by (auto simp: base_name_def takeWhile_eq_all_conv)
qed

lemma reserved_root:
  "fdt_spec F V \<Longrightarrow> v_path V f ''/reserved-memory'' = Some q \<Longrightarrow> \<exists>x. q = [x] \<and> base_name x = ''reserved-memory''"
  using root_path [of F V f "''reserved-memory''" q] by simp

lemma pci_root:
  "fdt_spec F V \<Longrightarrow> v_path V f ''/pci'' = Some q \<Longrightarrow> \<exists>x. q = [x] \<and> base_name x = ''pci''"
  using root_path [of F V f "''pci''" q] by simp

lemma reserved_phandle_found:
  assumes "fdt_spec F V" "v_path V f (''/reserved-memory/'' @ name) = Some p" "v_prop V f p ''phandle'' = [Cell h]" "h \<noteq> 0"
    "length name < 64"
  shows "fdt_reserved_memory_phandle F f name = (0, h)"
proof -
  let ?off = "fdt_path_offset F f (''/reserved-memory/'' @ name)"
  have off: "0 \<le> ?off" using fdt_specD(8) [OF assms(1), of f "''/reserved-memory/'' @ name"] assms(2) by force
  then have "v_at V f ?off = Some p" using fdt_specD(9) [OF assms(1)] assms(2) by fastforce
  then have "fdt_get_phandle F f ?off = h" using fdt_specD(12) [OF assms(1)] assms(3) by blast
  with off assms(4,5) show ?thesis by (simp add: fdt_reserved_memory_phandle_def)
qed

text \<open>The properties of the node of a reserved region: cells are as wide as \<open>/reserved-memory\<close> says.\<close>
definition reserved_props :: "'f fdt_ops \<Rightarrow> 'f \<Rightarrow> string \<Rightarrow> u64 \<Rightarrow> u64 \<Rightarrow> u32 \<Rightarrow> string \<Rightarrow> fdt_val list" where
  "reserved_props F f c base sz h = (\<lambda>_. [])(
     ''compatible'' := [Str c],
     ''reg'' := [Uint base (fdt_address_cells F f (fdt_path_offset F f ''/reserved-memory'')),
                 Uint sz (fdt_size_cells F f (fdt_path_offset F f ''/reserved-memory''))],
     ''phandle'' := [Cell h])"

text \<open>What \<open>fdt_generate_reserved_node\<close> has done before the memory node when it succeeds.\<close>
lemma reserved_node_built:
  assumes spec: "fdt_spec F V" and gen: "fdt_generate_reserved_node F prefix (Some c) base sz f = Inr (this, f')" and ok: "0 \<le> this"
  obtains root h f1 where
    "v_path V f ''/reserved-memory'' = Some root" "0 < this" "length (prefix @ ''@'' @ fmt_x base) < 64"
    "building V f this (root @ [prefix @ ''@'' @ fmt_x base]) (reserved_props F f c base sz h) f1"
    "fdt_generate_memory_node F f1 base sz = (0, f')" "0 < h" "h \<noteq> -1"
    "\<forall>q x. q \<in> v_nodes V f \<longrightarrow> v_prop V f q ''phandle'' = [Cell x] \<longrightarrow> x < h"
proof -
  let ?name = "prefix @ ''@'' @ fmt_x base" and ?ro = "fdt_path_offset F f ''/reserved-memory''"
  obtain err name where fmt: "fdt_format_memory_name F 64 prefix base = (err, name)" by fastforce
  obtain this0 f0 where sub: "fdt_add_subnode F f ?ro name = (this0, f0)" by fastforce
  note E = fdt_specD(1-3) [OF spec]
  have "err = 0" "0 \<le> ?ro" "0 \<le> this0" and
    steps: "fdt_try (fdt_appendprop_string F f0 this0 ''compatible'' c) (\<lambda>f1.
      fdt_try (fdt_appendprop_uint F f1 this0 ''reg'' base (fdt_address_cells F f ?ro)) (\<lambda>f1.
        fdt_try (fdt_appendprop_uint F f1 this0 ''reg'' sz (fdt_size_cells F f ?ro)) (\<lambda>f1.
          fdt_try (fdt_assign_phandle F f1 this0) (\<lambda>f1.
            case fdt_generate_memory_node F f1 base sz of (err, f1) \<Rightarrow> (if err \<noteq> 0 then -1 else this0, f1))))) = (this, f')"
    using gen ok E by (auto simp: fdt_generate_reserved_node_def fmt sub Let_def split: if_splits)
  from \<open>err = 0\<close> fmt have name: "name = ?name" "length ?name < 64"
    using E(2) by (auto simp: fdt_format_memory_name_def fdt_format_ok)
  obtain root where root: "v_path V f ''/reserved-memory'' = Some root" "v_at V f ?ro = Some root"
    using fdt_specD(9) [OF spec \<open>0 \<le> ?ro\<close>] by blast
  have b0: "0 < this0" "building V f this0 (root @ [?name]) (\<lambda>_. []) f0"
    using building_add [OF spec sub \<open>0 \<le> this0\<close> root(2)] name by auto
  show ?thesis
    apply (rule building_try [OF b0(2) fdt_specD(6) [OF spec] steps ok])
    apply (erule building_try [OF _ fdt_specD(5) [OF spec] _ ok], assumption)
    apply (erule building_try [OF _ fdt_specD(5) [OF spec] _ ok], assumption)
    apply (erule phandle_fresh [OF spec _ _ _ ok], simp, assumption)
    subgoal for f1 f2 f3 h f4
      apply (rule that [of root h f4])
      apply (use root b0 name ok in \<open>auto simp: reserved_props_def split: prod.splits if_splits\<close>)
      done
    done
qed

lemma reserved_node_spec:
  assumes "fdt_spec F V" "fdt_generate_reserved_node F prefix (Some c) base sz f = Inr (this, f')" "0 \<le> this"
    "CHR ''@'' \<notin> set prefix" "CHR ''/'' \<notin> set prefix" "prefix \<noteq> ''memory''" "prefix \<noteq> ''reserved-memory''"
  shows "\<exists>root h. v_path V f ''/reserved-memory'' = Some root
    \<and> root @ [prefix @ ''@'' @ fmt_x base] \<in> v_nodes V f' - v_nodes V f
    \<and> v_prop V f' (root @ [prefix @ ''@'' @ fmt_x base]) = reserved_props F f c base sz h
    \<and> 0 < h \<and> h \<noteq> -1 \<and> (\<forall>q x. q \<in> v_nodes V f \<longrightarrow> v_prop V f q ''phandle'' = [Cell x] \<longrightarrow> x < h)
    \<and> (\<forall>q \<in> v_nodes V f. base_name (last q) \<noteq> ''memory'' \<longrightarrow> q \<in> v_nodes V f' \<and> v_prop V f' q = v_prop V f q)
    \<and> (\<forall>q \<in> v_nodes V f' - v_nodes V f. q = root @ [prefix @ ''@'' @ fmt_x base] \<or> base_name (last q) = ''memory'')
    \<and> v_path V f' ''/reserved-memory'' = Some root \<and> fdt_reserved_memory_phandle F f' (prefix @ ''@'' @ fmt_x base) = (0, h)"
proof -
  note spec = assms(1)
  let ?name = "prefix @ ''@'' @ fmt_x base"
  from reserved_node_built [OF assms(1-3)] obtain root h f1 where
    root: "v_path V f ''/reserved-memory'' = Some root" and this: "0 < this" and len: "length ?name < 64" and
    b: "building V f this (root @ [?name]) (reserved_props F f c base sz h) f1"
    and mem: "fdt_generate_memory_node F f1 base sz = (0, f')" and h: "0 < h" "h \<noteq> -1"
    "\<forall>q x. q \<in> v_nodes V f \<longrightarrow> v_prop V f q ''phandle'' = [Cell x] \<longrightarrow> x < h" .
  have bn: "base_name ?name = prefix" using assms(4) by simp
  obtain x where x: "root = [x]" "base_name x = ''reserved-memory''" using reserved_root [OF spec root] by blast
  have new: "root @ [?name] \<in> v_nodes V f1" "root @ [?name] \<notin> v_nodes V f" "v_prop V f1 (root @ [?name]) = reserved_props F f c base sz h"
    using b by (auto simp: building_def)
  note keep = memory_node_keeps [OF spec mem]
  have new': "root @ [?name] \<in> v_nodes V f'" "v_prop V f' (root @ [?name]) = reserved_props F f c base sz h"
    using keep(1,2) new bn assms(6) by auto
  have "v_path V f1 ''/reserved-memory'' = Some root" using b root bn x assms(7) by (simp add: building_def)
  then have root': "v_path V f' ''/reserved-memory'' = Some root" using keep(3) x by simp
  from path_memory_node [OF spec this assms(5), of base] new'(1)
  have "v_path V f' (''/reserved-memory/'' @ ?name) = Some (root @ [?name])" by simp
  then have found: "fdt_reserved_memory_phandle F f' ?name = (0, h)"
    by (rule reserved_phandle_found [OF spec]) (use new'(2) h(1) len in \<open>simp_all add: reserved_props_def\<close>)
  have old: "q \<in> v_nodes V f' \<and> v_prop V f' q = v_prop V f q" if "q \<in> v_nodes V f" "base_name (last q) \<noteq> ''memory''" for q
    using that keep(1) keep(2) [of q] b new(2) by (auto simp: building_def)
  have only: "q = root @ [?name] \<or> base_name (last q) = ''memory''" if "q \<in> v_nodes V f'" "q \<notin> v_nodes V f" for q
    using that keep(4) [of q] b by (auto simp: building_def)
  from root root' new(2) new' h found old only show ?thesis by blast
qed


text \<open>A PCI node: the bus, device and function in the first cell of reg, and four zero cells.\<close>
definition pci_reg :: "u32 \<Rightarrow> fdt_val list" where
  "pci_reg dfn = Cell (push_bit 8 (dfn AND 0xff)) # replicate 4 (Cell 0)"

definition pci_node_name :: "string \<Rightarrow> u32 \<Rightarrow> string" where
  "pci_node_name prefix dfn = prefix @ ''@'' @ fmt_u (PCI_SLOT dfn) @ '','' @ fmt_u (PCI_FUNC dfn)"

lemma pci_node_built:
  assumes spec: "fdt_spec F V" and gen: "fdt_generate_pci_node F prefix dfn f = (this, f')" and ok: "0 \<le> this"
  obtains root where "v_path V f ''/pci'' = Some root" "0 < this"
    "building V f this (root @ [pci_node_name prefix dfn]) ((\<lambda>_. [])(''reg'' := pci_reg dfn)) f'"
proof -
  let ?name = "pci_node_name prefix dfn" and ?ro = "fdt_path_offset F f ''/pci''"
  obtain err name where fmt: "fdt_format_pci_devfn_name F 64 prefix dfn = (err, name)" by fastforce
  obtain this0 f0 where sub: "fdt_add_subnode F f ?ro name = (this0, f0)" by fastforce
  note E = fdt_specD(1-3) [OF spec]
  have "err = 0" "0 \<le> ?ro" "0 \<le> this0" and
    steps: "fdt_try (fdt_appendprop_u32 F f0 this0 ''reg'' (push_bit 8 (dfn AND 0xff)))
      (\<lambda>f. fdt_try (append_zero_cells F this0 4 f) (\<lambda>f. (this0, f))) = (this, f')"
    using gen ok E by (auto simp: fdt_generate_pci_node_def fmt sub Let_def split: if_splits)
  from \<open>err = 0\<close> fmt have name: "name = ?name"
    using E(2) by (auto simp: fdt_format_pci_devfn_name_def pci_node_name_def fdt_format_ok)
  obtain root where root: "v_path V f ''/pci'' = Some root" "v_at V f ?ro = Some root"
    using fdt_specD(9) [OF spec \<open>0 \<le> ?ro\<close>] by blast
  have b0: "0 < this0" "building V f this0 (root @ [?name]) (\<lambda>_. []) f0"
    using building_add [OF spec sub \<open>0 \<le> this0\<close> root(2)] name by auto
  from building_try [OF b0(2) fdt_specD(4) [OF spec] steps ok] obtain f1 where
    b1: "building V f this0 (root @ [?name]) ((\<lambda>_. [])(''reg'' := [Cell (push_bit 8 (dfn AND 0xff))])) f1" and
    s1: "fdt_try (append_zero_cells F this0 4 f1) (\<lambda>f. (this0, f)) = (this, f')" by auto
  from fdt_try_nonneg [OF s1 ok zero_cells_nonpos [OF spec]] have
    "append_zero_cells F this0 4 f1 = (0, f')" "this0 = this" by auto
  with building_zero_cells [OF spec b1] have
    "building V f this (root @ [?name]) ((\<lambda>_. [])(''reg'' := pci_reg dfn)) f'" by (auto simp: pci_reg_def)
  with that root(1) b0(1) \<open>this0 = this\<close> show ?thesis by blast
qed

lemma building_cells:
  assumes "fdt_spec F V" "building V f0 off p props f" "append_cells F off ps f = (0, f')"
  shows "building V f0 off p (\<lambda>name. props name @ map (Cell \<circ> snd) (filter (\<lambda>(n, v). n = name) ps)) f'"
  using assms(2,3)
proof (induction ps arbitrary: f props)
  case (Cons x ps)
  obtain name v where x: "x = (name, v)" by (cases x)
  from Cons.prems(2) x have t: "fdt_try (fdt_appendprop_u32 F f off name v) (append_cells F off ps) = (0, f')" by simp
  obtain f1 where f1: "building V f0 off p (props(name := props name @ [Cell v])) f1" "append_cells F off ps f1 = (0, f')"
    by (rule building_try [OF Cons.prems(1) fdt_specD(4) [OF assms(1)] t]) simp_all
  have "(\<lambda>n. (props(name := props name @ [Cell v])) n @ map (Cell \<circ> snd) (filter (\<lambda>(m, v). m = n) ps))
      = (\<lambda>n. props n @ map (Cell \<circ> snd) (filter (\<lambda>(m, v). m = n) (x # ps)))"
    by (auto simp: x)
  with Cons.IH [OF f1] show ?case by (simp only:)
qed simp

text \<open>
  Customising the tree of the Raspberry Pi 4: without the PCIe bridge nothing changes; with
  it, success means that the bridge has a new USB node with its reset and its address.\<close>
lemma usb_node_generated:
  assumes spec: "fdt_spec F V" and run: "fdt_plat_customize F f = (0, f')"
  shows "(fdt_path_offset F f USB_PCI_NODE_PATH \<le> 0 \<and> f' = f) \<or>
    (\<exists>root off props. v_path V f USB_PCI_NODE_PATH = Some root \<and> building V f off (root @ [USB_NODE_NAME]) props f'
       \<and> props ''resets'' = [Cell 0x2d, Cell 0] \<and> props ''reg'' = Cell 0x10000 # replicate 4 (Cell 0))"
proof (cases "fdt_path_offset F f USB_PCI_NODE_PATH \<le> 0")
  case True
  with run show ?thesis by (simp add: fdt_plat_customize_def fdt_generate_usb_node_def Let_def)
next
  case False
  let ?cells = "[(''resets'', 0x2d), (''resets'', 0), (''reg'', 0x10000), (''reg'', 0), (''reg'', 0), (''reg'', 0), (''reg'', 0)] :: (string \<times> u32) list"
  obtain this f1 where sub: "fdt_add_subnode F f (fdt_path_offset F f USB_PCI_NODE_PATH) USB_NODE_NAME = (this, f1)" by fastforce
  have cells: "0 \<le> this" "append_cells F this ?cells f1 = (0, f')"
    using run False by (auto simp: fdt_plat_customize_def fdt_generate_usb_node_def Let_def sub simp del: append_cells.simps split: if_splits prod.splits)
  obtain root where root: "v_path V f USB_PCI_NODE_PATH = Some root" "v_at V f (fdt_path_offset F f USB_PCI_NODE_PATH) = Some root"
    using fdt_specD(9) [OF spec, of f USB_PCI_NODE_PATH] False by auto
  from building_add [OF spec sub cells(1) root(2)] have "building V f this (root @ [USB_NODE_NAME]) (\<lambda>_. []) f1" by blast
  note b = building_cells [OF spec this cells(2)]
  show ?thesis
    by (rule disjI2, intro exI conjI, rule root(1), rule b) (simp_all add: numeral_eq_Suc)
qed

section \<open>The registry\<close>

text \<open>The dynamic part of the section: \<open>num_fdt_nodes\<close> pointers and null pointers after them.\<close>
definition registry_ok :: "fdt_registry \<Rightarrow> bool" where
  "registry_ok reg \<longleftrightarrow>
     (\<exists>ns. length ns = num_fdt_nodes reg \<and> num_fdt_nodes reg \<le> MAX_FDT_NODES
       \<and> fdt_nodes reg = map Some ns @ replicate (MAX_FDT_NODES - num_fdt_nodes reg) None)"

text \<open>
  C32. The registry stays well-formed: a node that is added becomes the last of the dynamic
  nodes, the static nodes stay where the linker placed them, and once the array is full an
  addition is refused and changes nothing.\<close>
theorem fdt_node_add_registry:
  assumes "registry_ok reg" "fdt_node_add node reg = (rc, reg')"
  shows "registry_ok reg'
    \<and> (if num_fdt_nodes reg < MAX_FDT_NODES
       then rc = 0 \<and> filter (\<lambda>ptr. ptr \<noteq> None) (fdt_section reg') =
              filter (\<lambda>ptr. ptr \<noteq> None) (section_before reg @ fdt_nodes reg) @ Some node # filter (\<lambda>ptr. ptr \<noteq> None) (section_after reg)
       else rc = -1 \<and> reg' = reg)"
proof (cases "num_fdt_nodes reg < MAX_FDT_NODES")
  case True
  obtain ns where ns: "length ns = num_fdt_nodes reg"
    "fdt_nodes reg = map Some ns @ replicate (MAX_FDT_NODES - num_fdt_nodes reg) None"
    using assms(1) by (auto simp: registry_ok_def)
  from True obtain k where k: "MAX_FDT_NODES - num_fdt_nodes reg = Suc k" by (metis Suc_diff_Suc)
  then have "(fdt_nodes reg)[num_fdt_nodes reg := Some node] = map Some (ns @ [node]) @ replicate k None"
    using ns by (simp add: list_update_append)
  moreover have "MAX_FDT_NODES - Suc (num_fdt_nodes reg) = k" using k by simp
  ultimately show ?thesis
    using assms(2) True ns k
    by (auto simp: fdt_node_add_def registry_ok_def fdt_section_def intro!: exI [of _ "ns @ [node]"])
qed (use assms in \<open>auto simp: fdt_node_add_def\<close>)

lemma filter_null_loop: "generate_filter_loop F ram None ptrs 0 reg fdt = Inr (0, reg, fdt)"
  by (induction ptrs) (auto split: option.split)

text \<open>
  \<open>fdt_node_generate_all\<close> never generates a node: without a filter the loop's result
  variable stays zero, and zero skips the node.\<close>
lemma generate_all_noop: "fdt_node_generate_all F ram reg fdt = Inr (0, reg, fdt)"
  by (simp add: fdt_node_generate_all_def fdt_node_generate_filter_def filter_null_loop)

lemma filter_loop_skip:
  assumes "\<forall>m. Some m \<in> set before \<longrightarrow> fn (node_mem reg m) = 0"
  shows "generate_filter_loop F ram (Some fn) (before @ ptrs) 0 reg fdt = generate_filter_loop F ram (Some fn) ptrs 0 reg fdt"
  using assms by (induction before) (auto split: option.split)

lemma filter_loop_stop: "rc \<noteq> 0 \<Longrightarrow> generate_filter_loop F ram fn ptrs rc reg fdt = Inr (0, reg, fdt)"
  by (cases ptrs) auto

lemma compatibles_first:
  assumes "fdt_section reg = before @ Some n # rest"
    "\<forall>m. Some m \<in> set before \<longrightarrow> node_compatible (node_mem reg m) \<noteq> Some c" "node_compatible (node_mem reg n) = Some c"
  shows "fdt_node_generate_compatibles F ram reg fdt (Some c) =
    res_bind (fdt_node_generate F ram n reg fdt) (\<lambda>(rc, reg, fdt).
      if rc < 0 then Inr (-1, reg, fdt)
      else generate_filter_loop F ram (Some (\<lambda>n. fdt_node_filter_compatible n (Some c))) rest rc reg fdt)"
proof -
  have "\<forall>m. Some m \<in> set before \<longrightarrow> fdt_node_filter_compatible (node_mem reg m) (Some c) = 0"
    "fdt_node_filter_compatible (node_mem reg n) (Some c) = 1"
    using assms(2,3) by (simp_all add: fdt_node_filter_compatible_def)
  with filter_loop_skip [where ptrs = "Some n # rest", OF this(1)] assms(1) show ?thesis
    by (simp add: fdt_node_generate_compatibles_def fdt_node_generate_filter_def)
qed

text \<open>
  C34. \<open>fdt_node_generate_compatibles\<close> stops after the first node it generates: that node is
  marked, the call succeeds, and no later node with the same compatible string is generated.\<close>
theorem compatibles_stop_at_first:
  assumes "fdt_section reg = before @ Some n # rest"
    "\<forall>m. Some m \<in> set before \<longrightarrow> node_compatible (node_mem reg m) \<noteq> Some c"
    "node_compatible (node_mem reg n) = Some c" "generate (node_mem reg n) = Some g" "\<not> generated (node_mem reg n)"
    "run_generate F ram g (node_mem reg n) f = Inr (rc, f')" "0 < rc"
  shows "fdt_node_generate_compatibles F ram reg (Some f) (Some c) =
    Inr (0, reg\<lparr>node_mem := (node_mem reg)(n := (node_mem reg n)\<lparr>generated := True\<rparr>)\<rparr>, Some f')"
proof -
  have "fdt_node_generate F ram n reg (Some f) =
      Inr (rc, reg\<lparr>node_mem := (node_mem reg)(n := (node_mem reg n)\<lparr>generated := True\<rparr>)\<rparr>, Some f')"
    using assms(4-) by (simp add: fdt_node_generate_def Let_def)
  with assms(7) show ?thesis by (simp add: compatibles_first [OF assms(1-3)] filter_loop_stop)
qed

theorem fdt_node_add_registry_witness:
  "let reg = \<lparr>section_before = [Some 5], fdt_nodes = Some 1 # replicate 31 None, section_after = [Some 6], num_fdt_nodes = 1, node_mem = (\<lambda>_. \<lparr>node_name = [], node_compatible = None, generated = False, generate = None, gpa = 0, dp_size = 0\<rparr>)\<rparr> in
   \<exists>reg'. fdt_node_add 2 reg = (0, reg') \<and> registry_ok reg' \<and> filter (\<lambda>ptr. ptr \<noteq> None) (fdt_section reg') = [Some 5, Some 1, Some 2, Some 6]"
proof -
  let ?reg = "\<lparr>section_before = [Some 5], fdt_nodes = Some 1 # replicate 31 None, section_after = [Some 6], num_fdt_nodes = 1, node_mem = (\<lambda>_. \<lparr>node_name = [], node_compatible = None, generated = False, generate = None, gpa = 0, dp_size = 0\<rparr>)\<rparr>"
  have "registry_ok ?reg" by (auto simp: registry_ok_def MAX_FDT_NODES_def intro: exI [of _ "[1]"])
  from fdt_node_add_registry [OF this, of 2] show ?thesis
    by (auto simp: Let_def MAX_FDT_NODES_def fdt_node_add_def)
qed

end
