(* ===== verification/Fdt_Tree.thy ===== *)
theory Fdt_Tree
  imports Fdt
begin

text \<open>
  A device tree that behaves the way \<open>fdt_spec\<close> says: a list of nodes, each a path with its
  properties, in which an offset is a position. It shows that the documented behaviour the
  properties of \<open>Fdt\<close> rely on can be had.
\<close>

section \<open>Definitions\<close>

type_synonym tree = "(path \<times> (string \<Rightarrow> fdt_val list)) list"

fun split_slash :: "string \<Rightarrow> path" where
  "split_slash [] = [[]]"
| "split_slash (c # cs) =
     (if c = CHR ''/'' then [] # split_slash cs
      else case split_slash cs of [] \<Rightarrow> [[c]] | w # ws \<Rightarrow> (c # w) # ws)"

definition tree_nodes :: "tree \<Rightarrow> path set" where
  "tree_nodes t = fst ` set t"

definition tree_at :: "tree \<Rightarrow> int \<Rightarrow> path option" where
  "tree_at t off = (if 0 \<le> off \<and> nat off < length t then Some (fst (t ! nat off)) else None)"

definition tree_prop :: "tree \<Rightarrow> path \<Rightarrow> string \<Rightarrow> fdt_val list" where
  "tree_prop t p = (case map_of t p of None \<Rightarrow> \<lambda>_. [] | Some props \<Rightarrow> props)"

definition tree_path :: "tree \<Rightarrow> string \<Rightarrow> path option" where
  "tree_path t s =
     (case s of
        [] \<Rightarrow> None
      | c # r \<Rightarrow> if c = CHR ''/'' \<and> split_slash r \<in> tree_nodes t then Some (split_slash r) else None)"

fun tree_index :: "tree \<Rightarrow> path \<Rightarrow> int" where
  "tree_index [] p = -1"
| "tree_index ((q, _) # t) p = (if q = p then 0 else let i = tree_index t p in if i < 0 then -1 else i + 1)"

definition tree_offset :: "tree \<Rightarrow> string \<Rightarrow> int" where
  "tree_offset t s = (case tree_path t s of None \<Rightarrow> -1 | Some p \<Rightarrow> tree_index t p)"

definition tree_append :: "tree \<Rightarrow> int \<Rightarrow> string \<Rightarrow> fdt_val \<Rightarrow> int \<times> tree" where
  "tree_append t off name v =
     (case tree_at t off of
        None \<Rightarrow> (-1, t)
      | Some p \<Rightarrow> (0, map (\<lambda>(q, props). (q, if q = p then props(name := props name @ [v]) else props)) t))"

definition tree_add :: "tree \<Rightarrow> int \<Rightarrow> string \<Rightarrow> int \<times> tree" where
  "tree_add t off name =
     (case tree_at t off of
        None \<Rightarrow> (-1, t)
      | Some p \<Rightarrow> if p @ [name] \<in> tree_nodes t then (-2, t) else (int (length t), t @ [(p @ [name], \<lambda>_. [])]))"

definition phandle_of :: "fdt_val list \<Rightarrow> u32" where
  "phandle_of vs = (case vs of [Cell h] \<Rightarrow> h | _ \<Rightarrow> 0)"

fun tree_max_phandle :: "tree \<Rightarrow> u32" where
  "tree_max_phandle [] = 0"
| "tree_max_phandle ((_, props) # t) = max (phandle_of (props ''phandle'')) (tree_max_phandle t)"

definition tree_memory :: "tree \<Rightarrow> u64 \<Rightarrow> u64 \<Rightarrow> int \<times> tree" where
  "tree_memory t base sz =
     (let p = [''memory@'' @ fmt_x base] in
      if p \<in> tree_nodes t then (-1, t)
      else (0, t @ [(p, (\<lambda>_. [])(''reg'' := [Uint base 2, Uint sz 2]))]))"

definition tree_ops :: "tree fdt_ops" where
  "tree_ops = \<lparr>
     fdt_get_max_phandle = tree_max_phandle,
     fdt_get_phandle = (\<lambda>t off. case tree_at t off of None \<Rightarrow> 0 | Some p \<Rightarrow> phandle_of (tree_prop t p ''phandle'')),
     fdt_path_offset = tree_offset,
     fdt_address_cells = (\<lambda>_ _. 2),
     fdt_size_cells = (\<lambda>_ _. 2),
     fdt_add_subnode = tree_add,
     fdt_appendprop_u32 = (\<lambda>t off name v. tree_append t off name (Cell v)),
     fdt_appendprop_uint = (\<lambda>t off name v n. tree_append t off name (Uint v n)),
     fdt_appendprop_string = (\<lambda>t off name v. tree_append t off name (Str v)),
     fdt_generate_memory_node = tree_memory,
     FDT_ERR_NOTFOUND = 1,
     FDT_ERR_INTERNAL = 13,
     FDT_ERR_NOPHANDLES = 17\<rparr>"

definition tree_view :: "tree fdt_view" where
  "tree_view = \<lparr>v_nodes = tree_nodes, v_at = tree_at, v_prop = tree_prop, v_path = tree_path\<rparr>"

section \<open>It behaves as documented\<close>

lemma split_slash_nonempty [simp]: "split_slash s \<noteq> []"
  by (cases s) (auto split: list.split)

lemma split_slash_name: "CHR ''/'' \<notin> set s \<Longrightarrow> split_slash s = [s]"
  by (induction s) auto

lemma split_slash_snoc: "CHR ''/'' \<notin> set name \<Longrightarrow> split_slash (r @ CHR ''/'' # name) = split_slash r @ [name]"
proof (induction r)
  case (Cons c r)
  then show ?case by (cases "split_slash r") auto
qed (simp add: split_slash_name)

lemma tree_index_found: "p \<in> tree_nodes t \<Longrightarrow> 0 \<le> tree_index t p \<and> tree_at t (tree_index t p) = Some p"
proof (induction t)
  case (Cons x t)
  show ?case
  proof (cases "fst x = p")
    case False
    with Cons.prems have "p \<in> tree_nodes t" by (auto simp: tree_nodes_def)
    from Cons.IH [OF this] False show ?thesis
      by (cases x) (auto simp: tree_at_def Let_def nat_add_distrib split: if_splits)
  qed (cases x, simp add: tree_at_def)
qed (simp add: tree_nodes_def)

lemma tree_appended: "appended tree_view t off name v (tree_append t off name v)"
proof (cases "tree_at t off")
  case (Some p)
  let ?t = "map (\<lambda>(q, props). (q, if q = p then props(name := props name @ [v]) else props)) t"
  have nodes: "tree_nodes ?t = tree_nodes t" by (force simp: tree_nodes_def)
  have p: "p \<in> fst ` set t" using Some by (auto simp: tree_at_def split: if_splits)
  have at: "tree_at ?t off = Some p" using Some by (auto simp: tree_at_def case_prod_beta split: if_splits)
  have "map_of ?t q = map_option (\<lambda>props. if q = p then props(name := props name @ [v]) else props) (map_of t q)" for q
    by (induction t) auto
  moreover have "map_of t p \<noteq> None" using p by (simp add: map_of_eq_None_iff)
  ultimately have "tree_prop ?t = (tree_prop t)(p := (tree_prop t p)(name := tree_prop t p name @ [v]))"
    by (auto simp: tree_prop_def fun_eq_iff split: option.split)
  moreover have "tree_path ?t = tree_path t" by (simp add: tree_path_def nodes fun_eq_iff split: list.split)
  ultimately show ?thesis using Some nodes at by (simp add: appended_def tree_append_def tree_view_def)
qed (simp add: appended_def tree_append_def)

lemma tree_path_keep: "tree_path t s = Some q \<Longrightarrow> tree_nodes t \<subseteq> tree_nodes t' \<Longrightarrow> tree_path t' s = Some q"
  by (auto simp: tree_path_def split: list.splits if_splits)

lemma tree_snoc: "tree_nodes (t @ [(p, props)]) = insert p (tree_nodes t)"
  "p \<notin> tree_nodes t \<Longrightarrow> tree_prop (t @ [(p, props)]) = (tree_prop t)(p := props)"
  "tree_at (t @ [(p, props)]) (int (length t)) = Some p"
proof -
  show "tree_nodes (t @ [(p, props)]) = insert p (tree_nodes t)" by (simp add: tree_nodes_def)
  show "tree_at (t @ [(p, props)]) (int (length t)) = Some p" by (simp add: tree_at_def)
  assume "p \<notin> tree_nodes t"
  then have "map_of t p = None" by (auto simp: tree_nodes_def map_of_eq_None_iff)
  then show "tree_prop (t @ [(p, props)]) = (tree_prop t)(p := props)"
    by (auto simp: tree_prop_def fun_eq_iff map_add_def split: option.split)
qed

lemma tree_added: "added tree_view t off name (tree_add t off name)"
proof (cases "tree_at t off")
  case (Some p)
  then have "t \<noteq> []" by (auto simp: tree_at_def split: if_splits)
  have "tree_path (t @ [(p @ [name], \<lambda>_. [])]) s = Some q" if "tree_path t s = Some q" for s q
    using that by (rule tree_path_keep) (simp add: tree_snoc subset_insertI)
  with \<open>t \<noteq> []\<close> Some show ?thesis
    by (cases "p @ [name] \<in> tree_nodes t") (simp_all add: added_def tree_add_def tree_view_def tree_snoc)
qed (simp add: added_def tree_add_def)

lemma tree_phandle_le: "map_of t p = Some props \<Longrightarrow> phandle_of (props ''phandle'') \<le> tree_max_phandle t"
proof (induction t)
  case (Cons x t)
  then show ?case by (cases x) (auto split: if_splits simp: le_max_iff_disj)
qed simp

lemma tree_max_bound: "tree_prop t p ''phandle'' = [Cell h] \<Longrightarrow> h \<le> tree_max_phandle t"
  using tree_phandle_le [of t p] by (auto simp: tree_prop_def phandle_of_def split: option.splits)

lemma tree_memory_keeps:
  assumes "fst (tree_memory t base sz) = 0"
  defines "t' \<equiv> snd (tree_memory t base sz)"
  shows "tree_nodes t \<subseteq> tree_nodes t'" "p \<in> tree_nodes t' \<Longrightarrow> p \<notin> tree_nodes t \<Longrightarrow> base_name (last p) = ''memory''"
    "p \<in> tree_nodes t \<Longrightarrow> tree_prop t' p = tree_prop t p"
    "tree_path t s = Some q \<Longrightarrow> tree_path t' s = Some q"
proof -
  let ?p = "[''memory@'' @ fmt_x base]"
  have new: "?p \<notin> tree_nodes t" and t': "t' = t @ [(?p, (\<lambda>_. [])(''reg'' := [Uint base 2, Uint sz 2]))]"
    using assms by (auto simp: tree_memory_def Let_def split: if_splits)
  then show sub: "tree_nodes t \<subseteq> tree_nodes t'" by (simp only: tree_snoc(1)) blast
  show "base_name (last p) = ''memory''" if "p \<in> tree_nodes t'" "p \<notin> tree_nodes t"
    using that t' base_name_at [of "''memory''" "fmt_x base"] by (auto simp: tree_snoc(1))
  show "p \<in> tree_nodes t \<Longrightarrow> tree_prop t' p = tree_prop t p" using new t' by (auto simp: tree_snoc(2))
  show "tree_path t s = Some q \<Longrightarrow> tree_path t' s = Some q" by (rule tree_path_keep [OF _ sub])
qed

lemma tree_split_path:
  assumes "tree_path t s = Some p" "CHR ''/'' \<notin> set name"
  shows "tree_path t (s @ ''/'' @ name) = (if p @ [name] \<in> tree_nodes t then Some (p @ [name]) else None)"
  using assms by (auto simp: tree_path_def split_slash_snoc split: list.splits if_splits)

lemma tree_spec: "fdt_spec tree_ops tree_view"
proof -
  have off: "if tree_offset t s < 0 then tree_path t s = None
      else tree_path t s = tree_at t (tree_offset t s) \<and> tree_path t s \<noteq> None" for t s
  proof (cases "tree_path t s")
    case (Some p)
    then have "p \<in> tree_nodes t" by (auto simp: tree_path_def split: list.splits if_splits)
    from tree_index_found [OF this] Some show ?thesis by (simp add: tree_offset_def)
  qed (simp add: tree_offset_def)
  have top: "\<exists>x. q = [x] \<and> (x = s \<or> base_name x = s)"
    if "tree_path t (''/'' @ s) = Some q" "CHR ''/'' \<notin> set s" for t s q
    using that by (auto simp: tree_path_def split_slash_name split: if_splits)
  show ?thesis
    unfolding fdt_spec_def
  proof (intro conjI allI impI, goal_cases)
    case (8 f s) show ?case using off [of f s] by (simp only: tree_ops_def tree_view_def fdt_ops.simps fdt_view.simps)
  next
    case (9 f s q) with top show ?case by (simp add: tree_view_def)
  next
    case (10 f s p name) with tree_split_path show ?case by (simp add: tree_view_def)
  next
    case (12 f p h) with tree_max_bound show ?case by (simp add: tree_ops_def tree_view_def)
  next
    case (13 f base sz) with tree_memory_keeps show ?case by (simp add: tree_ops_def tree_view_def Let_def)
  qed (simp_all add: tree_ops_def tree_view_def tree_appended [unfolded tree_view_def] tree_added [unfolded tree_view_def] phandle_of_def)
qed

section \<open>A small guest tree\<close>

definition small_tree :: tree where
  "small_tree = [([[]], \<lambda>_. []), ([''reserved-memory''], \<lambda>_. []), ([''pci''], (\<lambda>_. [])(''phandle'' := [Cell 7]))]"

lemmas tree_eval = small_tree_def tree_ops_def tree_offset_def tree_path_def tree_nodes_def tree_at_def tree_append_def
  tree_add_def phandle_of_def tree_memory_def Let_def

definition swiotlb_tree :: tree where
  "swiotlb_tree = small_tree @ [([''reserved-memory'', ''swiotlb@60000000''],
     (\<lambda>_. [])(''compatible'' := [Str ''restricted-dma-pool''], ''reg'' := [Uint 0x60000000 2, Uint 0x1000 2], ''phandle'' := [Cell 8])),
     ([''memory@60000000''], (\<lambda>_. [])(''reg'' := [Uint 0x60000000 2, Uint 0x1000 2]))]"

lemma fmt_60000000: "fmt_x (0x60000000 :: u64) = ''60000000''"
  by (simp add: fmt_x_def radix_str.simps digits_def)

lemma small_reserved:
  "fdt_generate_reserved_node tree_ops ''swiotlb'' (Some ''restricted-dma-pool'') 0x60000000 0x1000 small_tree = Inr (3, swiotlb_tree)"
  by (simp add: fdt_generate_reserved_node_def fdt_assign_phandle_def fdt_format_memory_name_def fdt_format_def fmt_60000000
    snprintf_def fdt_try_def swiotlb_tree_def tree_eval)


end
