(* ===== verification/Guest_Config.thy ===== *)
theory Guest_Config
  imports Vmm_Glue Fdt_Tree
begin

text \<open>
  The configuration of the guest: \<open>src/guest_linux.c\<close>, which writes the PCI devices and the
  memory regions their backends may access into the guest's device tree, and the CAmkES
  modules \<open>guest_config.c\<close>, \<open>fdt_plat_customize.c\<close> and \<open>io_proxy.c\<close> with the part of the
  template \<open>seL4VirtIODriverVM\<close> that declares the swiotlb node of a device.

  The initialisation of other modules by name belongs to the CAmkES VM: a field of \<open>guest_lib\<close>,
  which may change the machine and the tree.
\<close>

section \<open>Definitions\<close>

text \<open>The loop of \<open>fdt_generate_pci_config\<close>; libfdt dereferences the tree it is given.\<close>
fun pci_config_loop :: "'f fdt_ops \<Rightarrow> (nat \<Rightarrow> io_proxy) \<Rightarrow> pcidev list \<Rightarrow> 'f option \<Rightarrow> (int \<times> 'f option) res" where
  "pci_config_loop F proxies [] fdt = Inr (0, fdt)"
| "pci_config_loop F proxies (d # ds) fdt =
     (case fdt of
        None \<Rightarrow> Inl Null_Deref
      | Some f \<Rightarrow>
          case fdt_generate_pci_node F ''virtio'' (devfn d) f of (this, f) \<Rightarrow>
            if this \<le> 0 then Inr (-1, Some f)
            else
              case fdt_assign_reserved_memory F this (Some ''swiotlb'') (data_base (proxies (pci_io_proxy d))) (Some f) of
                (err, fdt) \<Rightarrow> if err \<noteq> 0 then Inr (-1, fdt) else pci_config_loop F proxies ds fdt)"

definition fdt_generate_pci_config :: "'f fdt_ops \<Rightarrow> (nat \<Rightarrow> io_proxy) \<Rightarrow> pci_state \<Rightarrow> 'f option \<Rightarrow> (int \<times> 'f option) res" where
  "fdt_generate_pci_config F proxies st fdt = pci_config_loop F proxies (pci_devs st) fdt"

record ('vm, 'f) guest_lib =
  lib_fdt :: "'f fdt_ops"
  vmm_module_init_by_name :: "string \<Rightarrow> 'vm \<Rightarrow> 'f option \<Rightarrow> int \<times> 'vm \<times> 'f option"

record 'f guest_config =
  dtb :: "'f option"
  generate_dtb :: bool

definition guest_configure ::
  "('vm, 'f) guest_lib \<Rightarrow> guest_ram \<Rightarrow> (nat \<Rightarrow> io_proxy) \<Rightarrow> pci_state \<Rightarrow> 'f guest_config \<Rightarrow> fdt_registry \<Rightarrow> 'vm
     \<Rightarrow> (int \<times> fdt_registry \<times> 'f option \<times> 'vm) res" where
  "guest_configure L ram proxies st config reg vm =
     (case vmm_module_init_by_name L ''vpci_install'' vm (dtb config) of (err, vm, fdt) \<Rightarrow>
        if err \<noteq> 0 then Inr (-1, reg, fdt, vm)
        else if \<not> generate_dtb config then Inr (0, reg, fdt, vm)
        else
          res_bind (fdt_node_generate_compatibles (lib_fdt L) ram reg fdt (Some ''restricted-dma-pool'')) (\<lambda>(err, reg, fdt).
            if err \<noteq> 0 then Inr (-1, reg, fdt, vm)
            else
              res_bind (fdt_generate_pci_config (lib_fdt L) proxies st fdt) (\<lambda>(err, fdt).
                if err \<noteq> 0 then Inr (-1, reg, fdt, vm)
                else
                  res_bind (fdt_node_generate_all (lib_fdt L) ram reg fdt) (\<lambda>(err, reg, fdt).
                    Inr (if err \<noteq> 0 then -1 else 0, reg, fdt, vm)))))"

subsection \<open>CAmkES modules\<close>

text \<open>The part of \<open>vm_config\<close> the modules read.\<close>
record vm_config =
  ram_base :: u64
  ram_size :: u64
  map_one_to_one :: bool
  conf_generate_dtb :: bool

text \<open>A failure is only logged: \<open>ZF_LOGE\<close> returns.\<close>
definition camkes_guest_configure ::
  "('vm, 'f) guest_lib \<Rightarrow> vm_config \<Rightarrow> guest_ram \<Rightarrow> (nat \<Rightarrow> io_proxy) \<Rightarrow> pci_state \<Rightarrow> 'f option \<Rightarrow> fdt_registry \<Rightarrow> 'vm
     \<Rightarrow> (fdt_registry \<times> 'f option \<times> 'vm) res" where
  "camkes_guest_configure L conf ram proxies st cookie reg vm =
     res_bind (guest_configure L ram proxies st \<lparr>dtb = cookie, generate_dtb = conf_generate_dtb conf\<rparr> reg vm)
       (\<lambda>(err, reg, fdt, vm). Inr (reg, fdt, vm))"

definition fdt_plat_customize_weak :: "'f \<Rightarrow> int \<times> 'f" where
  "fdt_plat_customize_weak f = (0, f)"

text \<open>\<open>customize\<close> is the platform's function or the weak one.\<close>
definition fdt_plat_customize_init :: "('f \<Rightarrow> int \<times> 'f) \<Rightarrow> vm_config \<Rightarrow> 'f \<Rightarrow> 'f res" where
  "fdt_plat_customize_init customize conf f =
     (if \<not> conf_generate_dtb conf then Inr f
      else case customize f of (err, f) \<Rightarrow> if err \<noteq> 0 then Inl Fatal else Inr f)"

definition camkes_io_proxy_module_init ::
  "'vm glue_env \<Rightarrow> vm_config \<Rightarrow> int \<Rightarrow> ('vm vmm \<Rightarrow> (int \<times> 'vm vmm) res) \<Rightarrow> nat \<Rightarrow> (io_proxy \<Rightarrow> io_proxy) \<Rightarrow> bool \<Rightarrow> 'vm vmm
     \<Rightarrow> (guest_ram \<times> bool \<times> 'vm vmm) res" where
  "camkes_io_proxy_module_init G conf sem_err run v2m meanwhile ini s =
     (let ram = \<lparr>guest_ram_base = ram_base conf, guest_ram_size = ram_size conf\<rparr> in
      res_bind (libsel4vm_io_proxy_init G sem_err run v2m meanwhile ini s) (\<lambda>(err, ini, s).
        if err \<noteq> 0 then Inl Fatal else Inr (ram, ini, s)))"

text \<open>The static node of a device with the given data region.\<close>
definition fdt_swiotlb_vm :: "u64 \<Rightarrow> u64 \<Rightarrow> fdt_dataport" where
  "fdt_swiotlb_vm base sz = \<lparr>node_name = ''swiotlb'', node_compatible = Some ''restricted-dma-pool'', generated = False,
     generate = Some Fdt_Node_Generate_Swiotlb, gpa = base, dp_size = sz\<rparr>"

section \<open>PCI nodes\<close>

text \<open>The device tree node of the data region at \<open>base\<close>, under the given root.\<close>
definition swiotlb_node :: "path \<Rightarrow> u64 \<Rightarrow> path" where
  "swiotlb_node root base = root @ [''swiotlb'' @ ''@'' @ fmt_x base]"

definition virtio_node :: "path \<Rightarrow> pcidev \<Rightarrow> path" where
  "virtio_node root d = root @ [pci_node_name ''virtio'' (devfn d)]"

lemma base_name_virtio: "base_name (last (virtio_node root d)) = ''virtio''"
  using base_name_at [of "''virtio''"] by (simp add: virtio_node_def pci_node_name_def)

lemma swiotlb_distinct:
  "swiotlb_node root b = swiotlb_node root b' \<longleftrightarrow> b = b'" "base_name (last (swiotlb_node root b)) \<noteq> ''memory''"
  using base_name_at [of "''swiotlb''" "fmt_x b"] by (simp_all add: swiotlb_node_def)

lemma swiotlb_lookup:
  assumes "fdt_spec F V" "v_path V f ''/reserved-memory'' = Some root"
  shows "swiotlb_node root base \<in> v_nodes V f \<Longrightarrow> v_prop V f (swiotlb_node root base) ''phandle'' = [Cell h] \<Longrightarrow> h \<noteq> 0 \<Longrightarrow>
      fdt_reserved_memory_phandle F f (''swiotlb'' @ ''@'' @ fmt_x base) = (0, h)"
    and "swiotlb_node root base \<notin> v_nodes V f \<Longrightarrow> fst (fdt_reserved_memory_phandle F f (''swiotlb'' @ ''@'' @ fmt_x base)) < 0"
proof -
  let ?name = "''swiotlb'' @ ''@'' @ fmt_x base"
  have len: "length ?name < 64" using length_fmt_x [of base] by simp
  have path: "v_path V f (''/reserved-memory/'' @ ?name) =
      (if swiotlb_node root base \<in> v_nodes V f then Some (swiotlb_node root base) else None)"
    using path_memory_node [OF assms, of "''swiotlb''" base] by (simp add: swiotlb_node_def)
  show "fdt_reserved_memory_phandle F f ?name = (0, h)"
    if "swiotlb_node root base \<in> v_nodes V f" "v_prop V f (swiotlb_node root base) ''phandle'' = [Cell h]" "h \<noteq> 0"
    using that path by (intro reserved_phandle_found [OF assms(1) _ _ _ len]) auto
  show "fst (fdt_reserved_memory_phandle F f ?name) < 0" if "swiotlb_node root base \<notin> v_nodes V f"
  proof -
    have "fdt_path_offset F f (''/reserved-memory/'' @ ?name) < 0"
      using that path fdt_specD(9) [OF assms(1), of f "''/reserved-memory/'' @ ?name"] by (cases "0 \<le> fdt_path_offset F f (''/reserved-memory/'' @ ?name)") auto
    with len show ?thesis by (simp add: fdt_reserved_memory_phandle_def Let_def)
  qed
qed

text \<open>One device: its node is added with its address, and with the region when there is one.\<close>
lemma pci_device_step:
  assumes spec: "fdt_spec F V" and root: "v_path V f ''/reserved-memory'' = Some root"
    and gen: "fdt_generate_pci_node F ''virtio'' (devfn d) f = (this, f1)" "0 < this"
    and assign: "fdt_assign_reserved_memory F this (Some ''swiotlb'') base (Some f1) = (0, fdt2)"
  obtains f2 proot mr where "fdt2 = Some f2" "v_path V f ''/pci'' = Some proot"
    "building V f this (virtio_node proot d) ((\<lambda>_. [])(''reg'' := pci_reg (devfn d), ''memory-region'' := mr)) f2"
    "\<forall>h. swiotlb_node root base \<in> v_nodes V f \<longrightarrow> v_prop V f (swiotlb_node root base) ''phandle'' = [Cell h] \<longrightarrow> h \<noteq> 0 \<longrightarrow> mr = [Cell h]"
    "swiotlb_node root base \<notin> v_nodes V f \<longrightarrow> mr = []"
proof -
  let ?name = "''swiotlb'' @ ''@'' @ fmt_x base"
  obtain proot where proot: "v_path V f ''/pci'' = Some proot"
    and b: "building V f this (virtio_node proot d) ((\<lambda>_. [])(''reg'' := pci_reg (devfn d))) f1"
    by (rule pci_node_built [OF spec gen(1)]) (use gen(2) in \<open>auto simp: virtio_node_def\<close>)
  obtain x y where xy: "root = [x]" "base_name x = ''reserved-memory''" "proot = [y]" "base_name y = ''pci''"
    using reserved_root [OF spec root] pci_root [OF spec proot] by blast
  then have "x \<noteq> y" by auto
  then have ne: "swiotlb_node root base \<noteq> virtio_node proot d" using xy by (simp add: swiotlb_node_def virtio_node_def)
  have root1: "v_path V f1 ''/reserved-memory'' = Some root"
    using b root xy base_name_virtio [of proot d] by (simp add: building_def)
  note look = swiotlb_lookup [OF spec root1, of base]
  have same: "swiotlb_node root base \<in> v_nodes V f1 \<longleftrightarrow> swiotlb_node root base \<in> v_nodes V f"
    "v_prop V f1 (swiotlb_node root base) = v_prop V f (swiotlb_node root base)" using b ne by (auto simp: building_def)
  obtain err ph where lk: "fdt_reserved_memory_phandle F f1 ?name = (err, ph)" by fastforce
  have fmt: "fdt_format_memory_name F 64 ''swiotlb'' base = (0, ?name)" by (rule memory_name_fits) simp
  show thesis
  proof (cases "err = - FDT_ERR_NOTFOUND F")
    case True
    with assign fmt lk have "fdt2 = Some f1" by (simp add: fdt_assign_reserved_memory_def)
    moreover have "err \<noteq> 0" using True fdt_specD(1) [OF spec] by simp
    moreover have "(\<lambda>_. [])(''reg'' := pci_reg (devfn d), ''memory-region'' := []) = (\<lambda>_. [])(''reg'' := pci_reg (devfn d))" by auto
    ultimately show thesis
      using that [of f1 proot "[]"] proot b look same lk by auto
  next
    case False
    with assign fmt lk have "0 \<le> err" and
      t: "map_prod id Some (fdt_try (fdt_appendprop_u32 F f1 this ''memory-region'' ph) (\<lambda>f. (0, f))) = (0, fdt2)"
      by (auto simp: fdt_assign_reserved_memory_def split: if_splits)
    from t obtain f2 where "fdt2 = Some f2" and t2: "fdt_try (fdt_appendprop_u32 F f1 this ''memory-region'' ph) (\<lambda>f. (0, f)) = (0, f2)"
      by (cases "fdt_try (fdt_appendprop_u32 F f1 this ''memory-region'' ph) (\<lambda>f. (0, f))") auto
    have "building V f this (virtio_node proot d) ((\<lambda>_. [])(''reg'' := pci_reg (devfn d), ''memory-region'' := [Cell ph])) f2"
      by (rule building_try [OF b fdt_specD(4) [OF spec] t2]) simp_all
    with \<open>fdt2 = Some f2\<close> \<open>0 \<le> err\<close> proot look same lk show thesis by (intro that [of f2 proot "[Cell ph]"]) auto
  qed
qed

text \<open>What the guest's tree says of a PCI device, given the regions of the tree before.\<close>
definition device_described :: "'f fdt_view \<Rightarrow> path \<Rightarrow> path \<Rightarrow> u64 \<Rightarrow> 'f \<Rightarrow> 'f \<Rightarrow> pcidev \<Rightarrow> bool" where
  "device_described V root proot base f f' d \<longleftrightarrow>
     virtio_node proot d \<in> v_nodes V f' - v_nodes V f \<and> v_prop V f' (virtio_node proot d) ''reg'' = pci_reg (devfn d)
     \<and> (swiotlb_node root base \<notin> v_nodes V f \<longrightarrow> v_prop V f' (virtio_node proot d) ''memory-region'' = [])
     \<and> (\<forall>h. swiotlb_node root base \<in> v_nodes V f \<longrightarrow> v_prop V f (swiotlb_node root base) ''phandle'' = [Cell h] \<longrightarrow> h \<noteq> 0 \<longrightarrow>
          v_prop V f' (virtio_node proot d) ''memory-region'' = [Cell h])"

definition nodes_kept :: "'f fdt_view \<Rightarrow> 'f \<Rightarrow> 'f \<Rightarrow> bool" where
  "nodes_kept V f f' \<longleftrightarrow> (\<forall>q \<in> v_nodes V f. q \<in> v_nodes V f' \<and> v_prop V f' q = v_prop V f q)"

lemma described_later:
  assumes "device_described V root proot base f f1 d" "nodes_kept V f1 f2"
  shows "device_described V root proot base f f2 d"
  using assms by (auto simp: device_described_def nodes_kept_def)

lemma described_earlier:
  assumes "device_described V root proot base f1 f2 d" "nodes_kept V f f1"
    "swiotlb_node root base \<in> v_nodes V f1 \<longrightarrow> swiotlb_node root base \<in> v_nodes V f"
  shows "device_described V root proot base f f2 d"
  using assms by (auto simp: device_described_def nodes_kept_def)

lemma pci_config_loop_ok:
  assumes spec: "fdt_spec F V"
  shows "v_path V f ''/reserved-memory'' = Some root \<Longrightarrow> pci_config_loop F proxies devs (Some f) = Inr (0, fdt') \<Longrightarrow>
    \<exists>f' proot. fdt' = Some f' \<and> nodes_kept V f f' \<and> distinct (map (virtio_node proot) devs)
      \<and> (devs \<noteq> [] \<longrightarrow> v_path V f ''/pci'' = Some proot)
      \<and> (\<forall>d \<in> set devs. device_described V root proot (data_base (proxies (pci_io_proxy d))) f f' d)"
proof (induction devs arbitrary: f)
  case (Cons d ds)
  let ?base = "data_base (proxies (pci_io_proxy d))"
  obtain this f1 where gen: "fdt_generate_pci_node F ''virtio'' (devfn d) f = (this, f1)" by fastforce
  obtain err fdt2 where as: "fdt_assign_reserved_memory F this (Some ''swiotlb'') ?base (Some f1) = (err, fdt2)" by fastforce
  have *: "0 < this" "err = 0" "pci_config_loop F proxies ds fdt2 = Inr (0, fdt')"
    using Cons.prems(2) gen as by (auto split: if_splits)
  obtain f2 proot mr where f2: "fdt2 = Some f2" "v_path V f ''/pci'' = Some proot"
    "building V f this (virtio_node proot d) ((\<lambda>_. [])(''reg'' := pci_reg (devfn d), ''memory-region'' := mr)) f2"
    "\<forall>h. swiotlb_node root ?base \<in> v_nodes V f \<longrightarrow> v_prop V f (swiotlb_node root ?base) ''phandle'' = [Cell h] \<longrightarrow> h \<noteq> 0 \<longrightarrow> mr = [Cell h]"
    "swiotlb_node root ?base \<notin> v_nodes V f \<longrightarrow> mr = []"
    by (rule pci_device_step [OF spec Cons.prems(1) gen *(1)]) (use as *(2) in auto)
  obtain x y where xy: "root = [x]" "base_name x = ''reserved-memory''" "proot = [y]" "base_name y = ''pci''"
    using reserved_root [OF spec Cons.prems(1)] pci_root [OF spec f2(2)] by blast
  have paths: "v_path V f2 ''/reserved-memory'' = Some root" "v_path V f2 ''/pci'' = Some proot"
    using f2(2,3) Cons.prems(1) xy base_name_virtio [of proot d] by (auto simp: building_def)
  have kept: "nodes_kept V f f2" and new: "virtio_node proot d \<in> v_nodes V f2" using f2(3) by (auto simp: building_def nodes_kept_def)
  have here: "device_described V root proot ?base f f2 d" using f2(3-) by (auto simp: device_described_def building_def)
  have swi: "swiotlb_node root base \<in> v_nodes V f2 \<longrightarrow> swiotlb_node root base \<in> v_nodes V f" for base
    using f2(3) xy by (auto simp: building_def swiotlb_node_def virtio_node_def)
  from Cons.IH [OF paths(1)] *(3) f2(1) obtain f' proot' where IH: "fdt' = Some f'" "nodes_kept V f2 f'" "distinct (map (virtio_node proot') ds)"
    "ds \<noteq> [] \<longrightarrow> v_path V f2 ''/pci'' = Some proot'"
    "\<forall>d \<in> set ds. device_described V root proot' (data_base (proxies (pci_io_proxy d))) f2 f' d" by blast
  then have ds: "\<forall>d \<in> set ds. device_described V root proot (data_base (proxies (pci_io_proxy d))) f2 f' d" "distinct (map (virtio_node proot) ds)"
    using paths(2) by (auto simp: virtio_node_def)
  then have "virtio_node proot d \<notin> set (map (virtio_node proot) ds)" using new by (auto simp: device_described_def)
  moreover have "nodes_kept V f f'" using kept IH(2) by (auto simp: nodes_kept_def)
  ultimately show ?case
    using IH(1) f2(2) ds described_later [OF here IH(2)] described_earlier [OF _ kept swi] by auto
qed (auto simp: nodes_kept_def)

section \<open>Properties\<close>

text \<open>
  When the PCI part of the guest's tree is generated, every registered device has a node
  of its own, new in the tree, whose reg property holds the device's address; the node
  refers to the phandle of its backend's swiotlb region when the tree has that region, and
  has no memory-region otherwise; nothing that was in the tree changes.\<close>
lemma pci_config_describes:
  assumes "fdt_spec F V" "v_path V f ''/reserved-memory'' = Some root" "fdt_generate_pci_config F proxies st (Some f) = Inr (0, fdt')"
  shows "\<exists>f' proot. fdt' = Some f' \<and> nodes_kept V f f' \<and> distinct (map (virtio_node proot) (pci_devs st))
      \<and> (\<forall>d \<in> set (pci_devs st). device_described V root proot (data_base (proxies (pci_io_proxy d))) f f' d)"
  using pci_config_loop_ok [OF assms(1,2) assms(3) [unfolded fdt_generate_pci_config_def]] by blast

lemma reserved_returns: "\<exists>off f'. fdt_generate_reserved_node F prefix (Some c) base sz f = Inr (off, f')"
  by (cases "fdt_format_memory_name F 64 prefix base",
      cases "fdt_add_subnode F f (fdt_path_offset F f ''/reserved-memory'') (snd (fdt_format_memory_name F 64 prefix base))")
    (auto simp: fdt_generate_reserved_node_def Let_def)

lemma swiotlb_generates:
  assumes "fdt_section reg = before @ Some n # rest"
    "\<forall>m. Some m \<in> set before \<longrightarrow> node_compatible (node_mem reg m) \<noteq> Some ''restricted-dma-pool''"
    "node_mem reg n = fdt_swiotlb_vm base sz" "(base, sz) \<noteq> (guest_ram_base ram, guest_ram_size ram)"
    "fdt_node_generate_compatibles F ram reg (Some f) (Some ''restricted-dma-pool'') = Inr (0, reg', fdt')"
  obtains off f' where "fdt_generate_reserved_node F ''swiotlb'' (Some ''restricted-dma-pool'') base sz f = Inr (off, f')" "0 < off"
    "fdt' = Some f'"
proof -
  obtain off f' where g: "fdt_generate_reserved_node F ''swiotlb'' (Some ''restricted-dma-pool'') base sz f = Inr (off, f')"
    using reserved_returns [of F "''swiotlb''" "''restricted-dma-pool''" base sz f] by blast
  have "node_compatible (node_mem reg n) = Some ''restricted-dma-pool''" using assms(3) by (simp add: fdt_swiotlb_vm_def)
  from assms(5) [unfolded compatibles_first [OF assms(1,2) this]] assms(3,4) g have "0 < off \<and> fdt' = Some f'"
    by (auto simp: fdt_node_generate_def fdt_swiotlb_vm_def run_generate_def fdt_node_generate_swiotlb_def
        fdt_node_generate_dataport_def filter_loop_stop Let_def split: if_splits)
  with g that show thesis by blast
qed

lemma configure_steps:
  assumes "vmm_module_init_by_name L ''vpci_install'' vm (dtb config) = (0, vm1, Some f0)" "generate_dtb config"
    "guest_configure L ram proxies st config reg vm = Inr (0, reg', fdt', vm')"
  obtains reg1 fdt1 where "fdt_node_generate_compatibles (lib_fdt L) ram reg (Some f0) (Some ''restricted-dma-pool'') = Inr (0, reg1, fdt1)"
    "fdt_generate_pci_config (lib_fdt L) proxies st fdt1 = Inr (0, fdt')"
  using assms
  by (auto simp: guest_configure_def fdt_node_generate_all_def fdt_node_generate_filter_def filter_null_loop res_simps
      split: if_splits)


section \<open>A guest with two backends\<close>

definition two_regions :: fdt_registry where
  "two_regions = \<lparr>section_before = [], fdt_nodes = replicate 32 None, section_after = [Some 0, Some 1], num_fdt_nodes = 0,
     node_mem = (\<lambda>i. fdt_swiotlb_vm (if i = 0 then 0x60000000 else 0x70000000) 0x1000)\<rparr>"

definition demo_ram :: guest_ram where
  "demo_ram = \<lparr>guest_ram_base = 0x40000000, guest_ram_size = 0x10000000\<rparr>"

definition two_devices :: pci_state where
  "two_devices = \<lparr>pci_devs = [\<lparr>devfn = 8, backend_devfn = 8, pci_io_proxy = 0\<rparr>, \<lparr>devfn = 16, backend_devfn = 8, pci_io_proxy = 1\<rparr>], pci_intx = []\<rparr>"

definition two_proxies :: "nat \<Rightarrow> io_proxy" where
  "two_proxies i = demo_proxy\<lparr>px_id := i, data_base := if i = 0 then 0x60000000 else 0x70000000\<rparr>"

definition tree_lib :: "(unit, tree) guest_lib" where
  "tree_lib = \<lparr>lib_fdt = tree_ops, vmm_module_init_by_name = (\<lambda>name vm fdt. (0, vm, fdt))\<rparr>"

lemma two_section: "fdt_section two_regions = replicate 32 None @ Some 0 # [Some 1]"
  by (simp add: fdt_section_def two_regions_def)

lemma two_generate: "run_generate tree_ops demo_ram Fdt_Node_Generate_Swiotlb (node_mem two_regions 0) small_tree = Inr (1, swiotlb_tree)"
  by (simp add: run_generate_def fdt_node_generate_swiotlb_def fdt_node_generate_dataport_def two_regions_def fdt_swiotlb_vm_def
      demo_ram_def small_reserved)

theorem compatibles_stop_at_first_witness:
  "\<exists>reg'. fdt_node_generate_compatibles tree_ops demo_ram two_regions (Some small_tree) (Some ''restricted-dma-pool'')
       = Inr (0, reg', Some swiotlb_tree) \<and> generated (node_mem reg' 0) \<and> \<not> generated (node_mem reg' 1)"
  using compatibles_stop_at_first [OF two_section _ _ _ _ two_generate]
  by (simp add: two_regions_def fdt_swiotlb_vm_def)

lemma fmt_devices: "fmt_u (PCI_SLOT 8) = ''1''" "fmt_u (PCI_FUNC 8) = ''0''" "fmt_u (PCI_SLOT 16) = ''2''" "fmt_u (PCI_FUNC 16) = ''0''"
  "fmt_x (0x70000000 :: u64) = ''70000000''"
  by (simp_all add: fmt_u_def fmt_x_def radix_str.simps digits_def PCI_SLOT_def PCI_FUNC_def)

lemma two_pci: "\<exists>fdt'. fdt_generate_pci_config tree_ops two_proxies two_devices (Some swiotlb_tree) = Inr (0, fdt')"
  by (simp add: fdt_generate_pci_config_def two_devices_def two_proxies_def fdt_generate_pci_node_def fdt_format_pci_devfn_name_def
      fdt_assign_reserved_memory_def fdt_reserved_memory_phandle_def fdt_format_memory_name_def fdt_format_def snprintf_def
      fmt_devices fmt_60000000 fdt_try_def swiotlb_tree_def tree_eval tree_prop_def numeral_eq_Suc)

lemma swiotlb_tree_root: "v_path tree_view swiotlb_tree ''/reserved-memory'' = Some [''reserved-memory'']"
  by (simp add: tree_view_def swiotlb_tree_def tree_eval)

lemma two_configure:
  "\<exists>reg' fdt' vm'. guest_configure tree_lib demo_ram two_proxies two_devices \<lparr>dtb = Some small_tree, generate_dtb = True\<rparr> two_regions ()
     = Inr (0, reg', fdt', vm')"
proof -
  have node: "node_mem two_regions 0 = fdt_swiotlb_vm 0x60000000 0x1000" by (simp add: two_regions_def)
  then have "fdt_node_generate tree_ops demo_ram 0 two_regions (Some small_tree) =
      Inr (1, two_regions\<lparr>node_mem := (node_mem two_regions)(0 := (fdt_swiotlb_vm 0x60000000 0x1000)\<lparr>generated := True\<rparr>)\<rparr>, Some swiotlb_tree)"
    using two_generate by (simp add: fdt_node_generate_def fdt_swiotlb_vm_def Let_def)
  then have "\<exists>reg'. fdt_node_generate_compatibles tree_ops demo_ram two_regions (Some small_tree) (Some ''restricted-dma-pool'')
      = Inr (0, reg', Some swiotlb_tree)"
    using node by (subst compatibles_first [OF two_section]) (simp_all add: fdt_swiotlb_vm_def filter_loop_stop)
  with two_pci show ?thesis
    by (auto simp: guest_configure_def tree_lib_def fdt_node_generate_all_def fdt_node_generate_filter_def filter_null_loop)
qed


end
