(* ===== verification/Ram_Dataport.thy ===== *)
theory Ram_Dataport
  imports Guest_Config
begin

text \<open>
  Guest memory that comes from dataports: \<open>src/ram_dataport.c\<close>, the set-up function of the
  template \<open>seL4VirtIODriverVM\<close> and the module \<open>init_dataport_ram.c\<close>.

  The functions of libsel4vm on guest RAM are fields of \<open>ram_ops\<close>; \<open>ram_spec\<close> is what their
  documentation promises, with the frame mapped at a guest address as the view of the
  machine.
\<close>

section \<open>Definitions\<close>

type_synonym cptr = u64

record 'vm ram_ops =
  vm_ram_reserve_at :: "u64 \<Rightarrow> u64 \<Rightarrow> 'vm \<Rightarrow> nat option \<times> 'vm"
  vm_map_reservation_frames :: "nat \<Rightarrow> cptr list \<Rightarrow> u64 \<Rightarrow> u64 \<Rightarrow> 'vm \<Rightarrow> int \<times> 'vm"
  is_ram_region :: "u64 \<Rightarrow> u64 \<Rightarrow> 'vm \<Rightarrow> bool"
  vm_ram_register_at :: "u64 \<Rightarrow> u64 \<Rightarrow> bool \<Rightarrow> 'vm \<Rightarrow> int \<times> 'vm"

record ram_dataport =
  frames :: "cptr list"
  num_frames :: u64
  frame_size_bits :: u64
  addr :: u64

text \<open>A dataport's handle: the capabilities of its frames.\<close>
record dataport_caps_handle =
  get_frame_caps :: "cptr list"
  get_num_frame_caps :: u64
  get_frame_size_bits :: u64

definition ram_dataport_setup_weak :: "ram_dataport list \<Rightarrow> int \<times> ram_dataport list" where
  "ram_dataport_setup_weak dps = (0, dps)"

text \<open>The set-up function of the template; device \<open>i\<close> of the list owns dataport \<open>i\<close>.\<close>
fun setup_from :: "nat \<Rightarrow> (u64 \<times> dataport_caps_handle) list \<Rightarrow> ram_dataport list \<Rightarrow> ram_dataport list" where
  "setup_from i [] dps = dps"
| "setup_from i ((dev_base, dp) # devs) dps =
     setup_from (Suc i) devs (dps[i := \<lparr>frames = get_frame_caps dp, num_frames = get_num_frame_caps dp,
       frame_size_bits = get_frame_size_bits dp, addr = dev_base\<rparr>])"

definition ram_dataport_setup :: "(u64 \<times> dataport_caps_handle) list \<Rightarrow> ram_dataport list \<Rightarrow> int \<times> ram_dataport list" where
  "ram_dataport_setup devs dps = (0, setup_from 0 devs dps)"

definition ram_dataport_map :: "'vm ram_ops \<Rightarrow> ram_dataport \<Rightarrow> 'vm \<Rightarrow> (int \<times> 'vm) res" where
  "ram_dataport_map R dp vm =
     (if 64 \<le> frame_size_bits dp then Inl Undefined_Shift
      else
        case vm_ram_reserve_at R (addr dp) (num_frames dp * push_bit (unat (frame_size_bits dp)) 1) vm of
          (None, vm) \<Rightarrow> Inr (-1, vm)
        | (Some reservation, vm) \<Rightarrow>
            case vm_map_reservation_frames R reservation (frames dp) (num_frames dp) (frame_size_bits dp) vm of
              (err, vm) \<Rightarrow> Inr (if err \<noteq> 0 then -1 else 0, vm))"

fun map_all_loop :: "'vm ram_ops \<Rightarrow> ram_dataport list \<Rightarrow> 'vm \<Rightarrow> (int \<times> 'vm) res" where
  "map_all_loop R [] vm = Inr (0, vm)"
| "map_all_loop R (dp # dps) vm =
     res_bind (ram_dataport_map R dp vm) (\<lambda>(err, vm). if err \<noteq> 0 then Inr (-1, vm) else map_all_loop R dps vm)"

text \<open>\<open>prepare\<close> is the template's function or the weak one; \<open>dps\<close> the linker section.\<close>
definition ram_dataport_map_all ::
  "'vm ram_ops \<Rightarrow> (ram_dataport list \<Rightarrow> int \<times> ram_dataport list) \<Rightarrow> ram_dataport list \<Rightarrow> 'vm \<Rightarrow> (int \<times> ram_dataport list \<times> 'vm) res" where
  "ram_dataport_map_all R prepare dps vm =
     (case prepare dps of (err, dps) \<Rightarrow>
        if err \<noteq> 0 then Inr (-1, dps, vm)
        else res_bind (map_all_loop R dps vm) (\<lambda>(err, vm). Inr (err, dps, vm)))"

text \<open>Which of its three messages the module logs.\<close>
datatype ram_source = Ram_From_Dataport | Ram_From_Untyped | Ram_From_Allocator

definition init_ram_module ::
  "'vm ram_ops \<Rightarrow> vm_config \<Rightarrow> (ram_dataport list \<Rightarrow> int \<times> ram_dataport list) \<Rightarrow> ram_dataport list \<Rightarrow> 'vm
     \<Rightarrow> (ram_source \<times> ram_dataport list \<times> 'vm) res" where
  "init_ram_module R conf prepare dps vm =
     res_bind (ram_dataport_map_all R prepare dps vm) (\<lambda>(err, dps, vm).
       if err \<noteq> 0 then Inl Fatal
       else if is_ram_region R (ram_base conf) (ram_size conf) vm then Inr (Ram_From_Dataport, dps, vm)
       else
         case vm_ram_register_at R (ram_base conf) (ram_size conf) (map_one_to_one conf) vm of (err, vm) \<Rightarrow>
           if err \<noteq> 0 then Inl Fatal
           else Inr (if map_one_to_one conf then Ram_From_Untyped else Ram_From_Allocator, dps, vm))"

section \<open>Documented behaviour\<close>

text \<open>
  Mappings and RAM regions are only added; a reservation stands for the region it was made
  for, and mapping frames puts frame \<open>k\<close> at the region's start plus \<open>k\<close> frame sizes.
\<close>
definition ram_spec :: "'vm ram_ops \<Rightarrow> ('vm \<Rightarrow> u64 \<Rightarrow> cptr option) \<Rightarrow> ('vm \<Rightarrow> nat \<Rightarrow> u64) \<Rightarrow> bool" where
  "ram_spec R frame start \<longleftrightarrow>
     (\<forall>a n s r s'. vm_ram_reserve_at R a n s = (r, s') \<longrightarrow> frame s \<subseteq>\<^sub>m frame s'
        \<and> (\<forall>b m. is_ram_region R b m s \<longrightarrow> is_ram_region R b m s')
        \<and> (\<forall>i. r = Some i \<longrightarrow> start s' i = a \<and> is_ram_region R a n s'))
     \<and> (\<forall>i cs n bits s rc s'. vm_map_reservation_frames R i cs n bits s = (rc, s') \<longrightarrow> frame s \<subseteq>\<^sub>m frame s'
        \<and> (\<forall>b m. is_ram_region R b m s \<longrightarrow> is_ram_region R b m s')
        \<and> (rc = 0 \<longrightarrow> (\<forall>k < unat n. k < length cs \<longrightarrow> frame s' (start s i + of_nat k * push_bit (unat bits) 1) = Some (cs ! k))))
     \<and> (\<forall>a n b s rc s'. vm_ram_register_at R a n b s = (rc, s') \<longrightarrow> frame s \<subseteq>\<^sub>m frame s' \<and> (rc = 0 \<longrightarrow> is_ram_region R a n s'))"

lemma ram_specD:
  assumes "ram_spec R frame start"
  shows "vm_ram_reserve_at R a n s = (r, s') \<Longrightarrow> frame s \<subseteq>\<^sub>m frame s'
        \<and> (\<forall>b m. is_ram_region R b m s \<longrightarrow> is_ram_region R b m s')
        \<and> (\<forall>i. r = Some i \<longrightarrow> start s' i = a \<and> is_ram_region R a n s')"
    "vm_map_reservation_frames R i cs n bits s = (rc, s') \<Longrightarrow> frame s \<subseteq>\<^sub>m frame s'
        \<and> (\<forall>b m. is_ram_region R b m s \<longrightarrow> is_ram_region R b m s')
        \<and> (rc = 0 \<longrightarrow> (\<forall>k < unat n. k < length cs \<longrightarrow> frame s' (start s i + of_nat k * push_bit (unat bits) 1) = Some (cs ! k)))"
    "vm_ram_register_at R a n one s = (rc, s') \<Longrightarrow> frame s \<subseteq>\<^sub>m frame s' \<and> (rc = 0 \<longrightarrow> is_ram_region R a n s')"
proof -
  note spec = assms [unfolded ram_spec_def]
  note spec [THEN conjunct1, rule_format] spec [THEN conjunct2, THEN conjunct1, rule_format] spec [THEN conjunct2, THEN conjunct2, rule_format]
  then show "vm_ram_reserve_at R a n s = (r, s') \<Longrightarrow> frame s \<subseteq>\<^sub>m frame s'
        \<and> (\<forall>b m. is_ram_region R b m s \<longrightarrow> is_ram_region R b m s')
        \<and> (\<forall>i. r = Some i \<longrightarrow> start s' i = a \<and> is_ram_region R a n s')"
    "vm_map_reservation_frames R i cs n bits s = (rc, s') \<Longrightarrow> frame s \<subseteq>\<^sub>m frame s'
        \<and> (\<forall>b m. is_ram_region R b m s \<longrightarrow> is_ram_region R b m s')
        \<and> (rc = 0 \<longrightarrow> (\<forall>k < unat n. k < length cs \<longrightarrow> frame s' (start s i + of_nat k * push_bit (unat bits) 1) = Some (cs ! k)))"
    "vm_ram_register_at R a n one s = (rc, s') \<Longrightarrow> frame s \<subseteq>\<^sub>m frame s' \<and> (rc = 0 \<longrightarrow> is_ram_region R a n s')"
    by presburger+
qed

text \<open>The frames of a dataport are in the guest's memory, in order from its address on.\<close>
definition dataport_mapped :: "('vm \<Rightarrow> u64 \<Rightarrow> cptr option) \<Rightarrow> 'vm \<Rightarrow> ram_dataport \<Rightarrow> bool" where
  "dataport_mapped frame vm dp \<longleftrightarrow>
     (\<forall>k < unat (num_frames dp). k < length (frames dp) \<longrightarrow>
        frame vm (addr dp + of_nat k * push_bit (unat (frame_size_bits dp)) 1) = Some (frames dp ! k))"

definition dataport_size :: "ram_dataport \<Rightarrow> u64" where
  "dataport_size dp = num_frames dp * push_bit (unat (frame_size_bits dp)) 1"

lemma mapped_mono: "frame s \<subseteq>\<^sub>m frame s' \<Longrightarrow> dataport_mapped frame s dp \<Longrightarrow> dataport_mapped frame s' dp"
  by (auto simp: dataport_mapped_def map_le_def dom_def)

lemma ram_dataport_map_spec:
  assumes spec: "ram_spec R frame start" and map: "ram_dataport_map R dp vm = Inr (rc, vm')"
  shows "frame vm \<subseteq>\<^sub>m frame vm'" "is_ram_region R b m vm \<Longrightarrow> is_ram_region R b m vm'"
    "rc = 0 \<Longrightarrow> dataport_mapped frame vm' dp \<and> is_ram_region R (addr dp) (dataport_size dp) vm'"
proof -
  obtain r vm1 where r: "vm_ram_reserve_at R (addr dp) (dataport_size dp) vm = (r, vm1)" by fastforce
  have s1: "frame vm \<subseteq>\<^sub>m frame vm1" "\<forall>b m. is_ram_region R b m vm \<longrightarrow> is_ram_region R b m vm1"
    "\<forall>i. r = Some i \<longrightarrow> start vm1 i = addr dp \<and> is_ram_region R (addr dp) (dataport_size dp) vm1"
    using ram_specD(1) [OF spec r] by blast+
  have "frame vm \<subseteq>\<^sub>m frame vm' \<and> (is_ram_region R b m vm \<longrightarrow> is_ram_region R b m vm')
    \<and> (rc = 0 \<longrightarrow> dataport_mapped frame vm' dp \<and> is_ram_region R (addr dp) (dataport_size dp) vm')"
  proof (cases r)
    case None
    with map r s1 show ?thesis by (auto simp: ram_dataport_map_def dataport_size_def split: if_splits)
  next
    case (Some i)
    obtain err where e: "vm_map_reservation_frames R i (frames dp) (num_frames dp) (frame_size_bits dp) vm1 = (err, vm')" "rc = 0 \<longrightarrow> err = 0"
      using map r Some by (auto simp: ram_dataport_map_def dataport_size_def split: if_splits prod.splits)
    then have s2: "frame vm1 \<subseteq>\<^sub>m frame vm'" "\<forall>b m. is_ram_region R b m vm1 \<longrightarrow> is_ram_region R b m vm'"
      "err = 0 \<longrightarrow> (\<forall>k < unat (num_frames dp). k < length (frames dp) \<longrightarrow>
          frame vm' (start vm1 i + of_nat k * push_bit (unat (frame_size_bits dp)) 1) = Some (frames dp ! k))"
      using ram_specD(2) [OF spec e(1)] by blast+
    have "start vm1 i = addr dp" using s1(3) Some by blast
    then have "rc = 0 \<longrightarrow> dataport_mapped frame vm' dp" using s2(3) e(2) by (simp add: dataport_mapped_def)
    with s1 s2 Some show ?thesis using map_le_trans by blast
  qed
  then show "frame vm \<subseteq>\<^sub>m frame vm'" "is_ram_region R b m vm \<Longrightarrow> is_ram_region R b m vm'"
    "rc = 0 \<Longrightarrow> dataport_mapped frame vm' dp \<and> is_ram_region R (addr dp) (dataport_size dp) vm'" by blast+
qed

lemma map_all_loop_spec:
  assumes spec: "ram_spec R frame start"
  shows "map_all_loop R dps vm = Inr (0, vm') \<Longrightarrow> frame vm \<subseteq>\<^sub>m frame vm' \<and> (\<forall>b m. is_ram_region R b m vm \<longrightarrow> is_ram_region R b m vm')
    \<and> (\<forall>dp \<in> set dps. dataport_mapped frame vm' dp \<and> is_ram_region R (addr dp) (dataport_size dp) vm')"
proof (induction dps arbitrary: vm)
  case (Cons dp dps)
  then obtain vm1 where one: "ram_dataport_map R dp vm = Inr (0, vm1)" and rest: "map_all_loop R dps vm1 = Inr (0, vm')"
    by (auto simp: res_simps split: if_splits)
  have first: "frame vm \<subseteq>\<^sub>m frame vm1" "\<forall>b m. is_ram_region R b m vm \<longrightarrow> is_ram_region R b m vm1"
    "dataport_mapped frame vm1 dp" "is_ram_region R (addr dp) (dataport_size dp) vm1"
    using ram_dataport_map_spec [OF spec one] by blast+
  note IH = Cons.IH [OF rest]
  then have "dataport_mapped frame vm' dp" using mapped_mono [of frame vm1 vm' dp] first(3) by simp
  with first IH show ?case using map_le_trans [of "frame vm" "frame vm1" "frame vm'"] by simp
qed simp

lemma setup_from_dataports:
  "length dps = i + length devs \<Longrightarrow> setup_from i devs dps =
     take i dps @ map (\<lambda>(base, dp). \<lparr>frames = get_frame_caps dp, num_frames = get_num_frame_caps dp,
       frame_size_bits = get_frame_size_bits dp, addr = base\<rparr>) devs"
proof (induction devs arbitrary: i dps)
  case (Cons d devs)
  obtain base dp where d: "d = (base, dp)" by (cases d)
  from Cons.prems have "take (Suc i) (dps[i := x]) = take i dps @ [x]" for x
    by (simp add: take_Suc_conv_app_nth)
  with Cons d show ?case by simp
qed simp

section \<open>Properties\<close>

text \<open>
  C23. When the RAM module returns, the guest's RAM is there, and the frames of every device's
  dataport are mapped in order from the device's data base on; if one of the dataports is
  the guest's RAM region, no other memory is registered for it.\<close>
theorem guest_memory_ready:
  assumes spec: "ram_spec R frame start" and len: "length dps = length devs"
    and run: "init_ram_module R conf (ram_dataport_setup devs) dps vm = Inr (src, dps', vm')"
  shows "is_ram_region R (ram_base conf) (ram_size conf) vm'
    \<and> (\<forall>(base, h) \<in> set devs. \<forall>k < unat (get_num_frame_caps h). k < length (get_frame_caps h) \<longrightarrow>
         frame vm' (base + of_nat k * push_bit (unat (get_frame_size_bits h)) 1) = Some (get_frame_caps h ! k))
    \<and> ((\<exists>(base, h) \<in> set devs. base = ram_base conf \<and> get_num_frame_caps h * push_bit (unat (get_frame_size_bits h)) 1 = ram_size conf) \<longrightarrow>
         src = Ram_From_Dataport \<and> map_all_loop R dps' vm = Inr (0, vm'))"
proof -
  let ?dp = "\<lambda>(base, h). \<lparr>frames = get_frame_caps h, num_frames = get_num_frame_caps h,
       frame_size_bits = get_frame_size_bits h, addr = base\<rparr>"
  have filled: "ram_dataport_setup devs dps = (0, map ?dp devs)"
    using setup_from_dataports [of dps 0 devs] len by (simp add: ram_dataport_setup_def)
  obtain vm1 where all: "map_all_loop R (map ?dp devs) vm = Inr (0, vm1)" and dps': "dps' = map ?dp devs"
    and final: "(if is_ram_region R (ram_base conf) (ram_size conf) vm1 then src = Ram_From_Dataport \<and> vm' = vm1
      else vm_ram_register_at R (ram_base conf) (ram_size conf) (map_one_to_one conf) vm1 = (0, vm'))"
    using run by (auto simp: init_ram_module_def ram_dataport_map_all_def filled res_simps split: if_splits prod.splits)
  note loop = map_all_loop_spec [OF spec all]
  have keep: "frame vm1 \<subseteq>\<^sub>m frame vm'" "is_ram_region R (ram_base conf) (ram_size conf) vm'"
    using final ram_specD(3) [OF spec, of "ram_base conf" "ram_size conf" "map_one_to_one conf" vm1 0 vm'] by (auto split: if_splits)
  have mapped: "dataport_mapped frame vm' (?dp (base, h))" "is_ram_region R base (get_num_frame_caps h * push_bit (unat (get_frame_size_bits h)) 1) vm1"
    if "(base, h) \<in> set devs" for base h
  proof -
    have "?dp (base, h) \<in> set (map ?dp devs)" using that by force
    with loop have "dataport_mapped frame vm1 (?dp (base, h))" "is_ram_region R base (dataport_size (?dp (base, h))) vm1" by fastforce+
    then show "dataport_mapped frame vm' (?dp (base, h))" "is_ram_region R base (get_num_frame_caps h * push_bit (unat (get_frame_size_bits h)) 1) vm1"
      using mapped_mono [OF keep(1)] by (simp_all add: dataport_size_def)
  qed
  have "frame vm' (base + of_nat k * push_bit (unat (get_frame_size_bits h)) 1) = Some (get_frame_caps h ! k)"
    if "(base, h) \<in> set devs" "k < unat (get_num_frame_caps h)" "k < length (get_frame_caps h)" for base h k
    using mapped(1) [OF that(1)] that(2,3) by (simp add: dataport_mapped_def)
  moreover have "src = Ram_From_Dataport \<and> map_all_loop R dps' vm = Inr (0, vm')"
    if "(base, h) \<in> set devs" "base = ram_base conf" "get_num_frame_caps h * push_bit (unat (get_frame_size_bits h)) 1 = ram_size conf" for base h
    using mapped(2) [OF that(1)] that(2,3) final all dps' by simp
  ultimately show ?thesis using keep(2) by blast
qed

lemma map_all_first_failure:
  assumes "map_all_loop R before vm = Inr (0, vm1)" "ram_dataport_map R dp vm1 = Inr (err, vm2)" "err \<noteq> 0"
  shows "map_all_loop R (before @ dp # rest) vm = Inr (-1, vm2)"
  using assms by (induction before arbitrary: vm) (auto simp: res_simps split: if_splits)

text \<open>
  A dataport that cannot be mapped stops the monitor: if the dataports before it are
  mapped and it is not, the module does not return, and no later dataport is touched.\<close>
lemma unmapped_dataport_fatal:
  assumes "prepare dps = (0, before @ dp # rest)" "map_all_loop R before vm = Inr (0, vm1)"
    "ram_dataport_map R dp vm1 = Inr (err, vm2)" "err \<noteq> 0"
  shows "ram_dataport_map_all R prepare dps vm = Inr (-1, before @ dp # rest, vm2) \<and> init_ram_module R conf prepare dps vm = Inl Fatal"
  using map_all_first_failure [OF assms(2-4)] assms(1) by (simp add: init_ram_module_def ram_dataport_map_all_def)

section \<open>A machine that behaves as documented\<close>

record ram_vm =
  rv_regions :: "(u64 \<times> u64) list"
  rv_frame :: "u64 \<Rightarrow> cptr option"

definition frame_addrs :: "u64 \<Rightarrow> nat \<Rightarrow> u64 \<Rightarrow> u64 list" where
  "frame_addrs a n bits = map (\<lambda>k. a + of_nat k * push_bit (unat bits) 1) [0..<n]"

definition rv_start :: "ram_vm \<Rightarrow> nat \<Rightarrow> u64" where
  "rv_start s i = fst (rv_regions s ! i)"

definition rv_ops :: "ram_vm ram_ops" where
  "rv_ops = \<lparr>
     vm_ram_reserve_at = (\<lambda>a n s. (Some (length (rv_regions s)), s\<lparr>rv_regions := rv_regions s @ [(a, n)]\<rparr>)),
     vm_map_reservation_frames = (\<lambda>i cs n bits s.
       let as = frame_addrs (rv_start s i) (min (unat n) (length cs)) bits in
       if distinct as \<and> list_all (\<lambda>a. rv_frame s a = None) as then (0, s\<lparr>rv_frame := map_of (zip as (take (length as) cs)) ++ rv_frame s\<rparr>) else (-1, s)),
     is_ram_region = (\<lambda>a n s. (a, n) \<in> set (rv_regions s)),
     vm_ram_register_at = (\<lambda>a n b s. (0, s\<lparr>rv_regions := rv_regions s @ [(a, n)]\<rparr>))\<rparr>"

lemma rv_map_frames:
  assumes "as = frame_addrs a (min n (length cs)) bits" "distinct as" "list_all (\<lambda>a. fr a = None) as" "k < n" "k < length cs"
  shows "(map_of (zip as (take (length as) cs)) ++ fr) (a + of_nat k * push_bit (unat bits) 1) = Some (cs ! k)"
proof -
  have k: "k < length as" "as ! k = a + of_nat k * push_bit (unat bits) 1" using assms(1,4,5) by (simp_all add: frame_addrs_def)
  have "fr (as ! k) = None" using assms(3) k(1) unfolding list_all_length by blast
  moreover have "map_of (zip as (take (length as) cs)) (as ! k) = Some (take (length as) cs ! k)"
    using k(1) assms(1,2,5) by (intro map_of_zip_nth) (simp_all add: frame_addrs_def)
  ultimately have "(map_of (zip as (take (length as) cs)) ++ fr) (as ! k) = Some (cs ! k)" using k(1) by (simp add: map_add_def)
  then show ?thesis by (simp only: k(2))
qed

lemma rv_map_step:
  assumes "vm_map_reservation_frames rv_ops i cs n bits s = (rc, s')"
  shows "rv_frame s \<subseteq>\<^sub>m rv_frame s' \<and> rv_regions s' = rv_regions s
      \<and> (rc = 0 \<longrightarrow> (\<forall>k < unat n. k < length cs \<longrightarrow> rv_frame s' (rv_start s i + of_nat k * push_bit (unat bits) 1) = Some (cs ! k)))"
proof -
  let ?as = "frame_addrs (rv_start s i) (min (unat n) (length cs)) bits"
  show ?thesis
  proof (cases "distinct ?as \<and> list_all (\<lambda>a. rv_frame s a = None) ?as")
    case True
    then have s': "s' = s\<lparr>rv_frame := map_of (zip ?as (take (length ?as) cs)) ++ rv_frame s\<rparr>" using assms by (simp add: rv_ops_def Let_def)
    then have "rv_frame s' (rv_start s i + of_nat k * push_bit (unat bits) 1) = Some (cs ! k)" if "k < unat n" "k < length cs" for k
      using rv_map_frames [OF refl _ _ that, of "rv_start s i" bits "rv_frame s"] True by (simp del: push_bit_of_1)
    moreover have "rv_frame s \<subseteq>\<^sub>m rv_frame s'" "rv_regions s' = rv_regions s" unfolding s' by simp_all
    ultimately show ?thesis by blast
  next
    case False
    with assms show ?thesis by (auto simp: rv_ops_def Let_def)
  qed
qed

lemma rv_spec: "ram_spec rv_ops rv_frame rv_start"
  unfolding ram_spec_def
proof (intro conjI)
  show "\<forall>a n s r s'. vm_ram_reserve_at rv_ops a n s = (r, s') \<longrightarrow> rv_frame s \<subseteq>\<^sub>m rv_frame s'
        \<and> (\<forall>b m. is_ram_region rv_ops b m s \<longrightarrow> is_ram_region rv_ops b m s')
        \<and> (\<forall>i. r = Some i \<longrightarrow> rv_start s' i = a \<and> is_ram_region rv_ops a n s')"
    by (auto simp: rv_ops_def rv_start_def)
  show "\<forall>i cs n bits s rc s'. vm_map_reservation_frames rv_ops i cs n bits s = (rc, s') \<longrightarrow> rv_frame s \<subseteq>\<^sub>m rv_frame s'
        \<and> (\<forall>b m. is_ram_region rv_ops b m s \<longrightarrow> is_ram_region rv_ops b m s')
        \<and> (rc = 0 \<longrightarrow> (\<forall>k < unat n. k < length cs \<longrightarrow> rv_frame s' (rv_start s i + of_nat k * push_bit (unat bits) 1) = Some (cs ! k)))"
  proof (intro allI impI)
    fix i cs n bits s rc s'
    assume "vm_map_reservation_frames rv_ops i cs n bits s = (rc, s')"
    from rv_map_step [OF this] show "rv_frame s \<subseteq>\<^sub>m rv_frame s'
        \<and> (\<forall>b m. is_ram_region rv_ops b m s \<longrightarrow> is_ram_region rv_ops b m s')
        \<and> (rc = 0 \<longrightarrow> (\<forall>k < unat n. k < length cs \<longrightarrow> rv_frame s' (rv_start s i + of_nat k * push_bit (unat bits) 1) = Some (cs ! k)))"
      by (simp add: rv_ops_def del: push_bit_of_1)
  qed
  show "\<forall>a n b s rc s'. vm_ram_register_at rv_ops a n b s = (rc, s') \<longrightarrow> rv_frame s \<subseteq>\<^sub>m rv_frame s' \<and> (rc = 0 \<longrightarrow> is_ram_region rv_ops a n s')"
    by (auto simp: rv_ops_def)
qed

definition rv_devs :: "(u64 \<times> dataport_caps_handle) list" where
  "rv_devs = [(0x60000000, \<lparr>get_frame_caps = [5, 6], get_num_frame_caps = 2, get_frame_size_bits = 12\<rparr>)]"

definition rv_conf :: vm_config where
  "rv_conf = \<lparr>ram_base = 0x40000000, ram_size = 0x10000000, map_one_to_one = True, conf_generate_dtb = True\<rparr>"

definition rv_dps :: "ram_dataport list" where
  "rv_dps = [\<lparr>frames = [], num_frames = 0, frame_size_bits = 0, addr = 0\<rparr>]"

lemma two_frames:
  "frame_addrs a (Suc (Suc 0)) bits = [a, a + push_bit (unat bits) 1]" "frame_addrs a 2 bits = [a, a + push_bit (unat bits) 1]"
  by (simp_all add: frame_addrs_def numeral_2_eq_2)

lemmas rv_eval = init_ram_module_def ram_dataport_map_all_def ram_dataport_setup_def ram_dataport_map_def rv_ops_def rv_devs_def
  rv_conf_def rv_dps_def rv_start_def two_frames

theorem guest_memory_ready_witness:
  "\<exists>src dps' vm'. init_ram_module rv_ops rv_conf (ram_dataport_setup rv_devs) rv_dps \<lparr>rv_regions = [], rv_frame = Map.empty\<rparr> = Inr (src, dps', vm')
     \<and> rv_frame vm' 0x60001000 = Some 6 \<and> is_ram_region rv_ops 0x40000000 0x10000000 vm'"
proof -
  obtain src dps' vm' where run:
    "init_ram_module rv_ops rv_conf (ram_dataport_setup rv_devs) rv_dps \<lparr>rv_regions = [], rv_frame = Map.empty\<rparr> = Inr (src, dps', vm')"
    by (auto simp: rv_eval)
  have len: "length rv_dps = length rv_devs" by (simp add: rv_dps_def rv_devs_def)
  show ?thesis
    using guest_memory_ready [OF rv_spec len run] run by (auto simp: rv_devs_def rv_conf_def dest: spec [where x = "1 :: nat"])
qed

end
