(* ===== verification/Backend.thy ===== *)
theory Backend
  imports Vmm_Glue
begin

unbundle bit_operations_syntax

text \<open>
  The monitor against an untrusted backend: which messages stop the monitor instead of being
  answered with an error, what every other message keeps, and what a batch of messages of
  a backend that answers only waiting requests does.
\<close>

section \<open>The state a message meets\<close>

text \<open>The shape of the monitor's state after initialisation, whatever the levels of its lines.\<close>
definition monitor_shape :: "'vm vmm \<Rightarrow> bool" where
  "monitor_shape s \<longleftrightarrow> v2m_ok (g_v2m s) \<and> emudev_ok (g_emu s)
     \<and> length (pci_intx (g_pci s)) = 4 \<and> length (ioacks (g_px s)) = 32"

text \<open>The request slot an MMIO response names, and whether a request waits in a slot.\<close>
definition msg_slot :: "rpcmsg \<Rightarrow> nat" where
  "msg_slot msg = unat (ucast (BIT_FIELD_GET (mr0 msg) RPC_MR0_MMIO_SLOT) :: u32)"

definition is_mmio :: "rpcmsg \<Rightarrow> bool" where
  "is_mmio msg \<longleftrightarrow> ucast (QEMU_OP (mr0 msg)) = QEMU_OP_MMIO"

definition waiting :: "io_proxy \<Rightarrow> nat set" where
  "waiting px = {k. k < length (ioacks px) \<and> ack_callback (ioacks px ! k) \<noteq> None}"

text \<open>The message asks for an INTx change, for a device in the bus's last slot.\<close>
definition intx_last_slot :: "rpcmsg \<Rightarrow> 'vm vmm \<Rightarrow> bool" where
  "intx_last_slot msg s \<longleftrightarrow>
     ucast (QEMU_OP (mr0 msg)) = QEMU_OP_SET_IRQ
     \<and> \<not> v2m_irq_valid (g_v2m s) (ucast (mr1 msg)) \<and> irq_is_pci (ucast (mr1 msg))
     \<and> (ucast (mr2 msg) :: u32) \<le> ucast RPC_IRQ_PULSE
     \<and> (case pcidev_find (g_pci s) (px_id (g_px s)) (PCI_DEVFN (ucast (mr1 msg)) 0) of
          None \<Rightarrow> False | Some d \<Rightarrow> PCI_SLOT (devfn d) = 31)"

text \<open>How a message stops the monitor, if it does.\<close>
definition stops_monitor :: "rpcmsg \<Rightarrow> 'vm vmm \<Rightarrow> fault option" where
  "stops_monitor msg s =
     (if is_mmio msg then
        if msg_slot msg \<in> waiting (g_px s) then None
        else if msg_slot msg = num_ioacks then Some Out_Of_Bounds else Some Assert_Failed
      else if intx_last_slot msg s then Some Undefined_Shift
      else None)"

section \<open>One message\<close>

lemma intx_set_total:
  assumes "length (pci_intx st) = 4"
  shows "pcidev_find st p bdf = None \<Longrightarrow> pcidev_intx_set E p bdf b st vm = Inr (-1, st, vm)"
    and "pcidev_find st p bdf = Some d \<Longrightarrow> PCI_SLOT (devfn d) = 31 \<Longrightarrow>
           pcidev_intx_set E p bdf b st vm = Inl Undefined_Shift"
    and "pcidev_find st p bdf = Some d \<Longrightarrow> PCI_SLOT (devfn d) \<noteq> 31 \<Longrightarrow>
           \<exists>rc line vm'. pcidev_intx_set E p bdf b st vm = Inr (rc, st\<lparr>pci_intx := (pci_intx st)[pci_map_irq d := line]\<rparr>, vm')"
proof -
  show "pcidev_find st p bdf = None \<Longrightarrow> pcidev_intx_set E p bdf b st vm = Inr (-1, st, vm)"
    by (simp add: pcidev_intx_set_def)
  assume d: "pcidev_find st p bdf = Some d"
  have pin: "\<not> length (pci_intx st) \<le> pci_map_irq d" using assms by (simp add: not_le)
  note run = pcidev_intx_set_def [of E p bdf b st vm, unfolded Let_def d option.case]
  show "PCI_SLOT (devfn d) = 31 \<Longrightarrow> pcidev_intx_set E p bdf b st vm = Inl Undefined_Shift"
    using pin by (simp add: run high_source_undefined)
  assume "PCI_SLOT (devfn d) \<noteq> 31"
  moreover have "PCI_SLOT (devfn d) \<le> 31" using PCI_SLOT_less [of "devfn d"] by (simp add: word_le_nat_alt)
  ultimately have "PCI_SLOT (devfn d) < 31" by simp
  then have "\<exists>rc line vm'. shared_irq_line_change E (pci_intx st ! pci_map_irq d) (PCI_SLOT (devfn d)) b vm = Inr (rc, line, vm')"
    by (simp add: change_with_source split: prod.split)
  then show "\<exists>rc line vm'. pcidev_intx_set E p bdf b st vm = Inr (rc, st\<lparr>pci_intx := (pci_intx st)[pci_map_irq d := line]\<rparr>, vm')"
    using pin by (auto simp: run)
qed

lemma irq_ops_cases:
  "(op :: u32) \<le> ucast RPC_IRQ_PULSE \<longleftrightarrow> op = ucast RPC_IRQ_SET \<or> op = ucast RPC_IRQ_CLR \<or> op = ucast RPC_IRQ_PULSE"
proof -
  have "op \<le> 2 \<longleftrightarrow> unat op = 0 \<or> unat op = 1 \<or> unat op = 2" by (auto simp: word_le_nat_alt)
  also have "\<dots> \<longleftrightarrow> op = 0 \<or> op = 1 \<or> op = 2" by (simp add: word_unat_eq_iff)
  finally show ?thesis by (auto simp: RPC_IRQ_SET_def RPC_IRQ_CLR_def RPC_IRQ_PULSE_def)
qed

lemma pci_intx_total:
  assumes len: "length (pci_intx st) = 4"
  shows "if irq_op \<le> ucast RPC_IRQ_PULSE \<and> (case pcidev_find st p bdf of None \<Rightarrow> False | Some d \<Rightarrow> PCI_SLOT (devfn d) = 31)
    then handle_pci_intx E p bdf irq_op st vm = Inl Undefined_Shift
    else \<exists>rc st' vm'. handle_pci_intx E p bdf irq_op st vm = Inr (rc, st', vm') \<and> pci_devs st' = pci_devs st \<and> length (pci_intx st') = 4"
proof (cases "pcidev_find st p bdf")
  case None
  then show ?thesis using len by (simp add: handle_pci_intx_def intx_set_total(1) [OF len None])
next
  case (Some d)
  show ?thesis
  proof (cases "PCI_SLOT (devfn d) = 31")
    case True
    then show ?thesis
      using len by (auto simp: handle_pci_intx_def Some irq_ops_cases intx_set_total(2) [OF len Some True])
  next
    case False
    have one: "\<exists>rc st2 vm2. pcidev_intx_set E p bdf b st1 vm1 = Inr (rc, st2, vm2) \<and> pci_devs st2 = pci_devs st \<and> length (pci_intx st2) = 4"
      if "pci_devs st1 = pci_devs st" "length (pci_intx st1) = 4" for b st1 vm1
    proof -
      have "pcidev_find st1 p bdf = Some d" using Some that(1) by (simp add: pcidev_find_def)
      from intx_set_total(3) [OF that(2) this False, of E b vm1] that show ?thesis by auto
    qed
    obtain rc1 st1 vm1 where s1: "pcidev_intx_set E p bdf True st vm = Inr (rc1, st1, vm1)" "pci_devs st1 = pci_devs st" "length (pci_intx st1) = 4"
      using one [OF refl len] by blast
    obtain rc2 st2 vm2 where s2: "pcidev_intx_set E p bdf False st vm = Inr (rc2, st2, vm2)" "pci_devs st2 = pci_devs st" "length (pci_intx st2) = 4"
      using one [OF refl len] by blast
    obtain rc3 st3 vm3 where s3: "pcidev_intx_set E p bdf False st1 vm1 = Inr (rc3, st3, vm3)" "pci_devs st3 = pci_devs st" "length (pci_intx st3) = 4"
      using one [OF s1(2,3)] by blast
    show ?thesis using False len Some s1 s2 s3 by (simp add: handle_pci_intx_def)
  qed
qed

lemma mmio_config_keeps:
  assumes "emudev_ok st"
  shows "\<exists>rc st' vm'. emudev_mmio_config E L st p addr sz flags vm = Inr (rc, st', vm') \<and> emudev_ok st'"
proof -
  obtain h where "emu_handler st = Some h" using assms by (auto simp: emudev_ok_def)
  with assms show ?thesis
    by (auto simp: emudev_mmio_config_def emudev_ok_def split: prod.splits)
qed


text \<open>What a message that is processed keeps, and the slot an MMIO response frees.\<close>
definition msg_keeps :: "rpcmsg \<Rightarrow> 'vm vmm \<Rightarrow> 'vm vmm \<Rightarrow> bool" where
  "msg_keeps msg s s' \<longleftrightarrow> monitor_shape s' \<and> px_id (g_px s') = px_id (g_px s)
     \<and> waiting (g_px s') = waiting (g_px s) - (if is_mmio msg then {msg_slot msg} else {})
     \<and> (natives_ok (g_nt s) \<longrightarrow> natives_ok (g_nt s'))
     \<and> px_rpc (g_px s') = px_rpc (g_px s) \<and> px_mem (g_px s') = px_mem (g_px s)"

lemma natives_ok_cong:
  "natives_ok nt \<Longrightarrow> (\<And>u. nat_slot (nat_data nt' u) = nat_slot (nat_data nt u)) \<Longrightarrow> free_native_slot nt' = free_native_slot nt \<Longrightarrow> natives_ok nt'"
  by (simp add: natives_ok_def)

lemma natives_ok_value:
  "natives_ok nt \<Longrightarrow> nat_slot d = nat_slot (nat_data nt t) \<Longrightarrow> natives_ok (nt\<lparr>nat_data := (nat_data nt)(t := d)\<rparr>)"
  by (erule natives_ok_cong) auto

lemma run_ioack_keeps:
  assumes "run_ioack E f data cookie nt vm = (rc, nt', vm')"
  shows "rc = 0" "natives_ok nt \<Longrightarrow> natives_ok nt'"
  using assms
  by (auto simp: run_ioack_def with_native_def ioack_native_read_def ioack_native_write_def ioack_vcpu_read_def
      ioack_vcpu_write_def Let_def intro!: natives_ok_value split: ioack_fn.splits)

lemma waiting_freed:
  assumes "length (ioacks px) = 32" "k \<in> waiting px"
  shows "waiting (px\<lparr>ioacks := (ioacks px)[k := (ioacks px ! k)\<lparr>ack_callback := None\<rparr>]\<rparr>) = waiting px - {k}"
  using assms by (auto simp: waiting_def nth_list_update)

lemma mmio_total:
  assumes len: "length (ioacks px) = 32"
  shows "if msg_slot msg \<in> waiting px
    then \<exists>nt' vm'. handle_mmio E QEMU_OP_MMIO msg px nt vm =
        Inr (RPCMSG_RC_HANDLED, px\<lparr>ioacks := (ioacks px)[msg_slot msg := (ioacks px ! msg_slot msg)\<lparr>ack_callback := None\<rparr>]\<rparr>, nt', vm')
      \<and> (natives_ok nt \<longrightarrow> natives_ok nt')
    else handle_mmio E QEMU_OP_MMIO msg px nt vm = Inl (if msg_slot msg = num_ioacks then Out_Of_Bounds else Assert_Failed)"
proof (cases "msg_slot msg \<in> waiting px")
  case True
  then have k: "msg_slot msg < 32" "ack_callback (ioacks px ! msg_slot msg) \<noteq> None" using len by (simp_all add: waiting_def)
  then obtain f where f: "ack_callback (ioacks px ! msg_slot msg) = Some f" by auto
  obtain rc nt' vm' where run: "run_ioack E f (mr2 msg) (ack_cookie (ioacks px ! msg_slot msg)) nt vm = (rc, nt', vm')"
    by (metis prod_cases3)
  show ?thesis
    using True k(1) f run run_ioack_keeps [OF run] len
    by (simp add: handle_mmio_def ioreq_finish_def Let_def flip: msg_slot_def)
next
  case False
  then have "32 \<le> msg_slot msg \<or> ack_callback (ioacks px ! msg_slot msg) = None" using len by (auto simp: waiting_def not_less)
  with False len show ?thesis
    by (auto simp: handle_mmio_def ioreq_finish_def Let_def simp flip: msg_slot_def)
qed

lemma verdict_Inr: "verdict (Inr (rc, s)) = Inr (if rc = RPCMSG_RC_ERROR \<or> rc = RPCMSG_RC_NONE then -1 else 0, s)"
  by (simp add: verdict_def)

lemma verdict_Inl: "verdict (Inl e) = Inl e"
  by (simp add: verdict_def)

lemma msg_keeps_other:
  assumes "monitor_shape s" "\<not> is_mmio msg" "v2m_ok (g_v2m s')" "emudev_ok (g_emu s')" "length (pci_intx (g_pci s')) = 4"
    and "g_px s' = (g_px s)\<lparr>ok_to_run := a, backend_started := n\<rparr>" "g_nt s' = g_nt s"
  shows "msg_keeps msg s s'"
  using assms by (simp add: msg_keeps_def monitor_shape_def waiting_def)

lemma msg_keeps_same_px:
  assumes "monitor_shape s" "\<not> is_mmio msg" "v2m_ok (g_v2m s')" "emudev_ok (g_emu s')" "length (pci_intx (g_pci s')) = 4"
    and "g_px s' = g_px s" "g_nt s' = g_nt s"
  shows "msg_keeps msg s s'"
  using assms by (simp add: msg_keeps_def monitor_shape_def waiting_def)

text \<open>The handlers one by one.\<close>
definition answered :: "'vm glue_env \<Rightarrow> rpcmsg \<Rightarrow> 'vm vmm \<Rightarrow> bool" where
  "answered G msg s \<longleftrightarrow> (case stops_monitor msg s of
      Some e \<Rightarrow> rpc_process G msg s = Inl e
    | None \<Rightarrow> \<exists>rc s'. rpc_process G msg s = Inr (rc, s') \<and> (rc = 0 \<or> rc = -1) \<and> msg_keeps msg s s')"

lemma answeredI:
  assumes "monitor_shape s" "stops_monitor msg s = None" "\<not> is_mmio msg" "rpc_process G msg s = verdict (Inr (rc, s'))"
    and "v2m_ok (g_v2m s')" "emudev_ok (g_emu s')" "length (pci_intx (g_pci s')) = 4" "g_px s' = g_px s" "g_nt s' = g_nt s"
  shows "answered G msg s"
  using assms msg_keeps_same_px [OF assms(1,3,5-9)] by (auto simp: answered_def verdict_Inr)

lemma mmio_answered:
  assumes s: "monitor_shape s" and op: "ucast (QEMU_OP (mr0 msg)) = QEMU_OP_MMIO"
  shows "answered G msg s"
proof -
  have len: "length (ioacks (g_px s)) = 32" using s by (simp add: monitor_shape_def)
  have p: "rpc_process G msg s = verdict (cb_mmio G QEMU_OP_MMIO msg s)" "is_mmio msg"
    using rpc_process_cases [OF refl, of G msg s] op by (simp_all add: is_mmio_def)
  note total = mmio_total [OF len, of msg "g_ops G" "g_nt s" "g_vm s"]
  show ?thesis
  proof (cases "msg_slot msg \<in> waiting (g_px s)")
    case True
    with total obtain nt' vm' where "handle_mmio (g_ops G) QEMU_OP_MMIO msg (g_px s) (g_nt s) (g_vm s) =
        Inr (RPCMSG_RC_HANDLED, (g_px s)\<lparr>ioacks := (ioacks (g_px s))[msg_slot msg := (ioacks (g_px s) ! msg_slot msg)\<lparr>ack_callback := None\<rparr>]\<rparr>, nt', vm')"
      "natives_ok (g_nt s) \<longrightarrow> natives_ok nt'" by auto
    with True p s show ?thesis
      by (simp add: answered_def stops_monitor_def cb_mmio_def verdict_Inr msg_keeps_def monitor_shape_def waiting_freed rc_defs)
  next
    case False
    with total p show ?thesis by (simp add: answered_def stops_monitor_def cb_mmio_def verdict_Inl)
  qed
qed

lemma mmio_rc_zero:
  assumes "monitor_shape s" "is_mmio msg" "rpc_process G msg s = Inr (rc, s')"
  shows "rc = 0"
proof -
  have len: "length (ioacks (g_px s)) = 32" using assms(1) by (simp add: monitor_shape_def)
  have "rpc_process G msg s = verdict (cb_mmio G QEMU_OP_MMIO msg s)"
    using rpc_process_cases [OF refl, of G msg s] assms(2) by (simp add: is_mmio_def)
  then show ?thesis
    using mmio_total [OF len, of msg "g_ops G" "g_nt s" "g_vm s"] assms(3)
    by (auto simp: cb_mmio_def verdict_Inr verdict_Inl rc_defs split: if_splits)
qed

lemma msi_answered:
  assumes E: "irq_spec (g_ops G) level" and s: "monitor_shape s"
    and op: "ucast (QEMU_OP (mr0 msg)) = QEMU_OP_SET_IRQ" and valid: "v2m_irq_valid (g_v2m s) (ucast (mr1 msg))"
  shows "answered G msg s"
proof -
  have ok: "v2m_ok (g_v2m s)" using s by (simp add: monitor_shape_def)
  obtain rc vm1 where "v2m_inject_irq (g_ops G) (g_v2m s) (ucast (mr1 msg)) (g_vm s) = Inr (rc, vm1)"
    using v2m_inject_level [OF E ok, of "ucast (mr1 msg)" "g_vm s"] by blast
  then have "\<exists>rc vm. handle_msi (g_ops G) (g_v2m s) QEMU_OP_SET_IRQ msg (g_vm s) = Inr (rc, vm)"
    using valid by (simp add: handle_msi_def msi_irq_set_def)
  then obtain rc vm where "cb_msi G QEMU_OP_SET_IRQ msg s = Inr (rc, s\<lparr>g_vm := vm\<rparr>)" by (auto simp: cb_msi_def)
  then have "rpc_process G msg s = verdict (Inr (rc, s\<lparr>g_vm := vm\<rparr>))"
    using rpc_process_cases [OF refl, of G msg s] op valid by (simp add: op_defs)
  from answeredI [OF s _ _ this] show ?thesis
    using s op valid by (simp add: stops_monitor_def is_mmio_def intx_last_slot_def op_defs monitor_shape_def)
qed

lemma intx_answered:
  assumes s: "monitor_shape s" and op: "ucast (QEMU_OP (mr0 msg)) = QEMU_OP_SET_IRQ"
    and irq: "\<not> v2m_irq_valid (g_v2m s) (ucast (mr1 msg))" "irq_is_pci (ucast (mr1 msg))"
  shows "answered G msg s"
proof -
  have len: "length (pci_intx (g_pci s)) = 4" using s by (simp add: monitor_shape_def)
  let ?run = "handle_pci_intx (g_ops G) (px_id (g_px s)) (PCI_DEVFN (ucast (mr1 msg)) 0) (ucast (mr2 msg)) (g_pci s) (g_vm s)"
  have cb: "cb_pci G QEMU_OP_SET_IRQ msg s = res_bind ?run
      (\<lambda>(err, st, vm). Inr (if err \<noteq> 0 then RPCMSG_RC_ERROR else RPCMSG_RC_HANDLED, s\<lparr>g_pci := st, g_vm := vm\<rparr>))"
    using irq by (cases ?run) (auto simp: cb_pci_def handle_pci_def)
  have p: "rpc_process G msg s = verdict (cb_pci G QEMU_OP_SET_IRQ msg s)"
    using rpc_process_cases [OF refl, of G msg s] op irq by (simp add: op_defs)
  have mm: "\<not> is_mmio msg" using op by (simp add: is_mmio_def op_defs)
  note total = pci_intx_total [OF len, of "ucast (mr2 msg)" "px_id (g_px s)" "PCI_DEVFN (ucast (mr1 msg)) 0" "g_ops G" "g_vm s"]
  show ?thesis
  proof (cases "intx_last_slot msg s")
    case True
    with total op irq p mm show ?thesis by (simp add: intx_last_slot_def answered_def stops_monitor_def cb verdict_Inl)
  next
    case False
    with total op irq obtain rc st vm where run: "?run = Inr (rc, st, vm)" "length (pci_intx st) = 4"
      unfolding intx_last_slot_def by (auto split: if_splits)
    from False mm have "stops_monitor msg s = None" by (simp add: stops_monitor_def)
    then show ?thesis
      by (rule answeredI [OF s _ mm p [unfolded cb run(1) res_bind_Inr prod.case]])
        (use run(2) s in \<open>simp_all add: monitor_shape_def\<close>)
  qed
qed

lemma emu_answered:
  assumes E: "irq_spec (g_ops G) level" and L: "lists_ok (g_lists G)" and s: "monitor_shape s"
    and op: "ucast (QEMU_OP (mr0 msg)) = QEMU_OP_SET_IRQ \<and> \<not> v2m_irq_valid (g_v2m s) (ucast (mr1 msg)) \<and> \<not> irq_is_pci (ucast (mr1 msg))
      \<or> ucast (QEMU_OP (mr0 msg)) = QEMU_OP_MMIO_REGION_CONFIG"
  shows "answered G msg s"
proof -
  let ?op = "ucast (QEMU_OP (mr0 msg)) :: u32"
  have ok: "emudev_ok (g_emu s)" using s by (simp add: monitor_shape_def)
  have irq: "\<exists>rc st vm. emudev_irq_set (g_ops G) (g_lists G) (g_emu s) (px_id (g_px s)) (ucast (mr1 msg)) (ucast (mr2 msg)) (g_vm s) = Inr (rc, st, vm) \<and> emudev_ok st"
    if "\<not> irq_is_pci (ucast (mr1 msg))"
  proof -
    from that have "32 \<le> (ucast (mr1 msg) :: u32)" by (simp add: irq_is_pci_def PCI_NUM_SLOTS_def)
    from emudev_irq_set_level [OF E L ok this] show ?thesis by blast
  qed
  have "\<exists>rc st vm. handle_emudev (g_ops G) (g_lists G) (px_id (g_px s)) ?op msg (g_emu s) (g_vm s) = Inr (rc, st, vm) \<and> emudev_ok st"
    using op
  proof
    assume "?op = QEMU_OP_MMIO_REGION_CONFIG"
    then show ?thesis
      using mmio_config_keeps [OF ok, of "g_ops G" "g_lists G" "px_id (g_px s)" "mr1 msg" "mr2 msg" "mr3 msg" "g_vm s"]
      by (auto simp: handle_emudev_def)
  qed (use irq in \<open>auto simp: handle_emudev_def op_defs\<close>)
  then obtain rc st vm where st: "cb_emudev G ?op msg s = Inr (rc, s\<lparr>g_emu := st, g_vm := vm\<rparr>)" "emudev_ok st"
    by (auto simp: cb_emudev_def)
  have "rpc_process G msg s = verdict (Inr (rc, s\<lparr>g_emu := st, g_vm := vm\<rparr>))"
    using rpc_process_cases [OF refl, of G msg s] op st(1) by (auto simp: op_defs)
  from answeredI [OF s _ _ this] show ?thesis
    using s op st(2) by (auto simp: stops_monitor_def is_mmio_def intx_last_slot_def op_defs monitor_shape_def)
qed

lemma register_answered:
  assumes s: "monitor_shape s" and op: "ucast (QEMU_OP (mr0 msg)) = QEMU_OP_REGISTER_PCI_DEV"
  shows "answered G msg s"
proof -
  obtain rc st vm where reg: "pcidev_register (g_ops G) (g_pci_env G) (px_id (g_px s)) (PCI_DEVFN (ucast (mr1 msg)) 0) (g_pci s) (g_vm s) = (rc, st, vm)"
    by (metis prod_cases3)
  then have intx: "pci_intx st = pci_intx (g_pci s)" by (auto simp: pcidev_register_def split: if_splits prod.splits)
  have "\<exists>rc. rpc_process G msg s = verdict (Inr (rc, s\<lparr>g_pci := st, g_vm := vm\<rparr>))"
    using rpc_process_cases [OF refl, of G msg s] op reg by (auto simp: op_defs cb_pci_def handle_pci_def)
  then obtain rc where "rpc_process G msg s = verdict (Inr (rc, s\<lparr>g_pci := st, g_vm := vm\<rparr>))" ..
  from answeredI [OF s _ _ this] show ?thesis
    using s op intx by (simp add: stops_monitor_def is_mmio_def intx_last_slot_def op_defs monitor_shape_def)
qed

lemma rpc_process_total:
  assumes E: "irq_spec (g_ops G) level" and L: "lists_ok (g_lists G)" and s: "monitor_shape s"
  shows "answered G msg s"
proof -
  let ?op = "ucast (QEMU_OP (mr0 msg)) :: u32"
  consider "?op = QEMU_OP_MMIO" | "?op = QEMU_OP_SET_IRQ" | "?op = QEMU_OP_REGISTER_PCI_DEV" | "?op = QEMU_OP_MMIO_REGION_CONFIG"
    | (start) "?op = QEMU_OP_START_VM"
    | (other) "?op \<notin> {QEMU_OP_MMIO, QEMU_OP_SET_IRQ, QEMU_OP_REGISTER_PCI_DEV, QEMU_OP_MMIO_REGION_CONFIG, QEMU_OP_START_VM}"
    by blast
  then show ?thesis
  proof cases
    case start
    then have "stops_monitor msg s = None" "\<not> is_mmio msg"
      by (simp_all add: stops_monitor_def is_mmio_def intx_last_slot_def op_defs)
    with start show ?thesis
      using rpc_process_cases [OF refl, of G msg s] s
      by (auto simp: op_defs verdict_Inr cb_control_def handle_control_def answered_def monitor_shape_def intro!: msg_keeps_other [OF s])
  next
    case other
    then have "stops_monitor msg s = None" "\<not> is_mmio msg" by (simp_all add: stops_monitor_def is_mmio_def intx_last_slot_def)
    with other show ?thesis
      using rpc_process_cases [OF refl, of G msg s] s
      by (auto simp: answered_def monitor_shape_def intro!: msg_keeps_same_px [OF s])
  qed (use mmio_answered [OF s] msi_answered [OF E s] intx_answered [OF s] emu_answered [OF E L s] register_answered [OF s] in blast)+
qed


section \<open>A run over the queues\<close>

text \<open>
  The PCI devices of the monitor are outside the last slot, and the bus never places one
  there.
\<close>
definition no_last_slot :: "'vm vmm \<Rightarrow> bool" where
  "no_last_slot s \<longleftrightarrow> (\<forall>d \<in> set (pci_devs (g_pci s)). PCI_SLOT (devfn d) \<noteq> 31)"

definition bus_below_last :: "'vm pci_env \<Rightarrow> bool" where
  "bus_below_last X \<longleftrightarrow> (\<forall>vm dev fun vm'. vmm_pci_add_entry X vm = (0, dev, fun, vm') \<longrightarrow> PCI_SLOT (PCI_DEVFN dev fun) \<noteq> 31)"

lemma found_in_devs: "pcidev_find_from ds p bdf = Some d \<Longrightarrow> d \<in> set ds"
  by (induction ds) (auto split: if_splits)

lemma no_last_slot_intx: "no_last_slot s \<Longrightarrow> \<not> intx_last_slot msg s"
  by (auto simp: no_last_slot_def intx_last_slot_def pcidev_find_def dest: found_in_devs split: option.splits)

lemma bus_below_lastD:
  "bus_below_last X \<Longrightarrow> vmm_pci_add_entry X vm = (0, dev, fun, vm') \<Longrightarrow> PCI_SLOT (PCI_DEVFN dev fun) \<noteq> 31"
  unfolding bus_below_last_def by blast

lemma register_devs:
  assumes "bus_below_last X" "pcidev_register E X p bdf st vm = (rc, st', vm')" "d \<in> set (pci_devs st')"
  shows "d \<in> set (pci_devs st) \<or> PCI_SLOT (devfn d) \<noteq> 31"
  using assms(2,3) by (auto simp: pcidev_register_def dest: bus_below_lastD [OF assms(1)] split: if_splits prod.splits)

lemma intx_devs:
  assumes "length (pci_intx st) = 4" "handle_pci_intx E p bdf irq_op st vm = Inr (rc, st', vm')"
  shows "pci_devs st' = pci_devs st"
  using pci_intx_total [OF assms(1), of irq_op p bdf E vm] assms(2) by (auto split: if_splits)

lemma handlers_bus:
  "cb_mmio G op msg s = Inr (rc, s') \<Longrightarrow> g_pci s' = g_pci s"
  "cb_msi G op msg s = Inr (rc, s') \<Longrightarrow> g_pci s' = g_pci s"
  "cb_emudev G op msg s = Inr (rc, s') \<Longrightarrow> g_pci s' = g_pci s"
  "cb_control G op msg s = Inr (rc, s') \<Longrightarrow> g_pci s' = g_pci s"
  by (auto simp: cb_mmio_def cb_msi_def cb_emudev_def cb_control_def res_simps split: prod.splits)

lemma cb_pci_no_last_slot:
  assumes "bus_below_last (g_pci_env G)" "monitor_shape s" "no_last_slot s" "cb_pci G op msg s = Inr (rc, s')"
  shows "no_last_slot s'"
proof -
  have len: "length (pci_intx (g_pci s)) = 4" using assms(2) by (simp add: monitor_shape_def)
  obtain rc1 st vm where run: "handle_pci (g_ops G) (g_pci_env G) (px_id (g_px s)) op msg (g_pci s) (g_vm s) = Inr (rc1, st, vm)" "g_pci s' = st"
    using assms(4) by (auto simp: cb_pci_def res_simps)
  have "d \<in> set (pci_devs (g_pci s)) \<or> PCI_SLOT (devfn d) \<noteq> 31" if "d \<in> set (pci_devs st)" for d
    using run(1) that
    by (auto simp: handle_pci_def Let_def res_simps dest: intx_devs [OF len] register_devs [OF assms(1)] split: if_splits prod.splits)
  with assms(3) run(2) show ?thesis by (auto simp: no_last_slot_def)
qed

lemma process_no_last_slot:
  assumes "bus_below_last (g_pci_env G)" "monitor_shape s" "no_last_slot s" "rpc_process G msg s = Inr (rc, s')"
  shows "no_last_slot s'"
proof -
  have v: "verdict m = Inr (rc, s') \<Longrightarrow> \<exists>rc. m = Inr (rc, s')" for m :: "(int \<times> 'a vmm) res"
    by (auto simp: verdict_def res_simps)
  have same: "g_pci s' = g_pci s \<Longrightarrow> no_last_slot s'" using assms(3) by (simp add: no_last_slot_def)
  show ?thesis
    using assms(4) unfolding rpc_process_cases [OF refl, of G msg s]
    by (auto dest!: v dest: cb_pci_no_last_slot [OF assms(1-3)] handlers_bus intro: same split: if_splits)
qed

text \<open>Messages the monitor can answer: the MMIO responses name different slots with a waiting request.\<close>
definition answerable :: "nat set \<Rightarrow> rpcmsg list \<Rightarrow> bool" where
  "answerable W ms \<longleftrightarrow> (\<forall>m \<in> set ms. is_mmio m \<longrightarrow> msg_slot m \<in> W) \<and> distinct (map msg_slot (filter is_mmio ms))"

lemma answerable_Cons:
  "answerable W (m # ms) \<longleftrightarrow> (is_mmio m \<longrightarrow> msg_slot m \<in> W) \<and> answerable (W - (if is_mmio m then {msg_slot m} else {})) ms"
  by (auto simp: answerable_def intro: rev_image_eqI)

text \<open>The state after the first \<open>k\<close> of the messages \<open>ms\<close>, with \<open>rest\<close> still to come.\<close>
definition batch_state :: "rpcmsg list \<Rightarrow> rpcmsg list \<Rightarrow> nat \<Rightarrow> 'vm vmm \<Rightarrow> 'vm vmm \<Rightarrow> bool" where
  "batch_state rest ms k s s' \<longleftrightarrow> monitor_shape s' \<and> no_last_slot s' \<and> natives_ok (g_nt s')
     \<and> waiting (g_px s') = waiting (g_px s) - msg_slot ` (set (take k ms) \<inter> {m. is_mmio m})
     \<and> answerable (waiting (g_px s')) (drop k ms @ rest)
     \<and> px_rpc (g_px s') = px_rpc (g_px s) \<and> px_mem (g_px s') = px_mem (g_px s) \<and> px_id (g_px s') = px_id (g_px s)"

lemma process_msgs_total:
  assumes E: "irq_spec (g_ops G) level" "lists_ok (g_lists G)" "bus_below_last (g_pci_env G)"
    and s: "monitor_shape s" "no_last_slot s" "natives_ok (g_nt s)" and ms: "answerable (waiting (g_px s)) (ms @ rest)"
  shows "\<exists>k rc' s'. process_msgs G rc ms s = Inr (rc', drop k ms, s') \<and> batch_state rest ms k s s'
    \<and> ((\<forall>m \<in> set ms. is_mmio m) \<longrightarrow> length ms \<le> k \<and> (rc = 0 \<longrightarrow> rc' = 0))"
  using s ms
proof (induction ms arbitrary: rc s)
  case Nil
  then show ?case by (intro exI [of _ 0] exI [of _ rc] exI [of _ s]) (simp add: batch_state_def)
next
  case (Cons m ms)
  have "stops_monitor m s = None"
    using Cons.prems(2,4) by (auto simp: stops_monitor_def answerable_Cons dest: no_last_slot_intx)
  then obtain rc1 s1 where s1: "rpc_process G m s = Inr (rc1, s1)" "msg_keeps m s s1"
    using rpc_process_total [OF E(1,2) Cons.prems(1), of m] by (auto simp: answered_def)
  have one: "monitor_shape s1" "natives_ok (g_nt s1)" "waiting (g_px s1) = waiting (g_px s) - (if is_mmio m then {msg_slot m} else {})"
    "px_rpc (g_px s1) = px_rpc (g_px s)" "px_mem (g_px s1) = px_mem (g_px s)" "px_id (g_px s1) = px_id (g_px s)"
    using s1(2) Cons.prems(3) by (simp_all add: msg_keeps_def)
  have bus: "no_last_slot s1" by (rule process_no_last_slot [OF E(3) Cons.prems(1,2) s1(1)])
  have rest: "answerable (waiting (g_px s1)) (ms @ rest)" using Cons.prems(4) by (simp add: one(3) answerable_Cons)
  have step: "batch_state rest (m # ms) (Suc k) s s'" if "batch_state rest ms k s1 s'" for k s'
    using that one by (auto simp: batch_state_def)
  show ?case
  proof (cases "rc1 = 0")
    case False
    have "\<not> is_mmio m" using mmio_rc_zero [OF Cons.prems(1) _ s1(1)] False by blast
    moreover have "batch_state rest ms 0 s1 s1" using one bus rest by (simp add: batch_state_def)
    ultimately show ?thesis
      using False s1(1) step by (intro exI [of _ 1] exI [of _ rc1] exI [of _ s1]) auto
  next
    case True
    obtain k rc' s' where "process_msgs G 0 ms s1 = Inr (rc', drop k ms, s')" "batch_state rest ms k s1 s'"
      "(\<forall>m \<in> set ms. is_mmio m) \<longrightarrow> length ms \<le> k \<and> rc' = 0"
      using Cons.IH [OF one(1) bus one(2) rest, of 0] by blast
    with True s1(1) step show ?thesis by (intro exI [of _ "Suc k"] exI [of _ rc'] exI [of _ s']) simp
  qed
qed


section \<open>Properties\<close>


lemma demo_shape: "length (ioacks px) = 32 \<Longrightarrow> monitor_shape (demo_vmm px)"
  using v2m_demo_ok by (simp add: monitor_shape_def demo_vmm_def demo_bus_def emudev_ok_def demo_emudev_def irqs.uniq_def)


end
