(* ===== verification/System.thy ===== *)
theory System
  imports Backend
begin

unbundle bit_operations_syntax

text \<open>
  The whole system around one I/O proxy: the monitor (\<open>src/libsel4vm_glue.c\<close>, \<open>src/io_proxy.c\<close>)
  on one side of the shared memory and, on the other, a backend that uses the interface of
  \<open>include/sel4/rpc.h\<close>: the kernel module and the device of the request-reply session, which
  receive, forward and answer requests and send events. The steps of the two sides
  interleave in any order.

  In every reachable state each waiting request slot has exactly one message on its way,
  and from this it follows that the monitor's loops return, that no assertion of
  \<open>ioreq_finish\<close> or \<open>ioreq_start\<close> fails, and that the buffers and the request queue have room for
  every slot.
\<close>

section \<open>The step relation\<close>

record 'vm system =
  sys_mon :: "'vm vmm"
  sys_km :: vso_rpc
  sys_dev :: vso_rpc
  sys_km_held :: "msgptr list"
  sys_dev_held :: "msgptr list"

text \<open>The request-reply session of the proxy; the monitor keeps no response between its runs.\<close>
definition session_of :: "'vm system \<Rightarrow> session" where
  "session_of S = \<lparr>s_mem = px_mem (g_px (sys_mon S)), s_drv = px_rpc (g_px (sys_mon S)), s_km = sys_km S, s_dev = sys_dev S,
     km_held = sys_km_held S, dev_held = sys_dev_held S, drv_held = []\<rparr>"

text \<open>A step of the session that is not the monitor's.\<close>
definition backend_step :: "session \<Rightarrow> session \<Rightarrow> bool" where
  "backend_step s s' \<longleftrightarrow> session_step s s' \<and> s_drv s' = s_drv s \<and> drv_held s' = drv_held s"

definition put_proxy :: "io_proxy \<Rightarrow> 'vm system \<Rightarrow> 'vm system" where
  "put_proxy px S = S\<lparr>sys_mon := (sys_mon S)\<lparr>g_px := px\<rparr>\<rparr>"

text \<open>The operations of the events a backend can send with \<open>device_event_tx\<close>'s callers.\<close>
definition event_ops :: "u32 set" where
  "event_ops = {QEMU_OP_START_VM, QEMU_OP_REGISTER_PCI_DEV, QEMU_OP_MMIO_REGION_CONFIG, QEMU_OP_SET_IRQ}"

inductive sys_step :: "'vm glue_env \<Rightarrow> 'vm system \<Rightarrow> 'vm system \<Rightarrow> bool" for G where
  guest_runs:
    "sys_step G S (S\<lparr>sys_mon := (sys_mon S)\<lparr>g_vm := vm\<rparr>\<rparr>)"
| guest_faults:
    "vcpu < SEL4_MMIO_MAX_VCPU \<Longrightarrow>
     mmio_fault_handler (g_ops G) vcpu paddr len (g_px (sys_mon S)) (g_vm (sys_mon S)) = Inr (r, px) \<Longrightarrow>
     sys_step G S (put_proxy px S)"
| native_requests:
    "ioreq_native_begin sem_err thread addr_space dir addr sz val (g_px (sys_mon S)) (g_nt (sys_mon S)) = Inr (rc, px, nt) \<Longrightarrow>
     sys_step G S (S\<lparr>sys_mon := (sys_mon S)\<lparr>g_px := px, g_nt := nt\<rparr>\<rparr>)"
| native_resumes:
    "ioreq_native_wait thread (g_nt (sys_mon S)) = Some (v, nt) \<Longrightarrow>
     sys_step G S (S\<lparr>sys_mon := (sys_mon S)\<lparr>g_nt := nt\<rparr>\<rparr>)"
| backend_moves:
    "backend_step (session_of S) s' \<Longrightarrow>
     sys_step G S (put_proxy ((g_px (sys_mon S))\<lparr>px_mem := s_mem s'\<rparr>) S\<lparr>sys_km_held := km_held s', sys_dev_held := dev_held s'\<rparr>)"
| backend_signals:
    "r = sys_km S \<or> r = sys_dev S \<Longrightarrow> op \<in> event_ops \<Longrightarrow>
     device_event_tx (Some r) op 0 r1 r2 r3 (px_mem (g_px (sys_mon S))) = Inr (rc, w) \<Longrightarrow>
     sys_step G S (put_proxy ((g_px (sys_mon S))\<lparr>px_mem := w\<rparr>) S)"
| monitor_runs:
    "rpc_run G (sys_mon S) = Inr (rc, s') \<Longrightarrow> sys_step G S (S\<lparr>sys_mon := s'\<rparr>)"

section \<open>The invariant\<close>

definition req_msg :: "io_proxy \<Rightarrow> msgptr \<Rightarrow> rpcmsg" where
  "req_msg px i = b_at (px_mem px) driver_drvrpc_req ! i"

text \<open>Waiting slots and lent messages correspond one to one.\<close>
definition slots_match :: "io_proxy \<Rightarrow> bool" where
  "slots_match px \<longleftrightarrow> (\<forall>i \<in> lent_ids px. is_mmio (req_msg px i))
     \<and> bij_betw (\<lambda>i. msg_slot (req_msg px i)) (lent_ids px) (waiting px)"

definition events_ok :: "io_proxy \<Rightarrow> bool" where
  "events_ok px \<longleftrightarrow> device_event (px_rpc px) = devevt_queue
     \<and> event_ok (q_at (px_mem px) devevt_queue, b_at (px_mem px) devevt_queue) \<and> (\<forall>m \<in> set (events px). \<not> is_mmio m)"

definition sys_inv :: "'vm system \<Rightarrow> bool" where
  "sys_inv S \<longleftrightarrow> session_inv (session_of S) \<and> events_ok (g_px (sys_mon S))
     \<and> device_event (sys_km S) = devevt_queue \<and> device_event (sys_dev S) = devevt_queue
     \<and> monitor_shape (sys_mon S) \<and> no_last_slot (sys_mon S) \<and> natives_ok (g_nt (sys_mon S))
     \<and> slots_match (g_px (sys_mon S))"

lemma session_of_simps [simp]:
  "s_mem (session_of S) = px_mem (g_px (sys_mon S))" "s_drv (session_of S) = px_rpc (g_px (sys_mon S))"
  "s_km (session_of S) = sys_km S" "s_dev (session_of S) = sys_dev S" "km_held (session_of S) = sys_km_held S"
  "dev_held (session_of S) = sys_dev_held S" "drv_held (session_of S) = []"
  "s_lent (session_of S) = lent_ids (g_px (sys_mon S))"
  by (simp_all add: session_of_def s_lent_def lent_ids_def)

lemma put_proxy_simps [simp]:
  "sys_mon (put_proxy px S) = (sys_mon S)\<lparr>g_px := px\<rparr>" "sys_km (put_proxy px S) = sys_km S" "sys_dev (put_proxy px S) = sys_dev S"
  "sys_km_held (put_proxy px S) = sys_km_held S" "sys_dev_held (put_proxy px S) = sys_dev_held S"
  by (simp_all add: put_proxy_def)

lemma sys_invD:
  assumes "sys_inv S"
  defines "px \<equiv> g_px (sys_mon S)"
  shows "session_inv (session_of S)" "events_ok px" "device_event (sys_km S) = devevt_queue" "device_event (sys_dev S) = devevt_queue"
    "monitor_shape (sys_mon S)" "no_last_slot (sys_mon S)" "natives_ok (g_nt (sys_mon S))" "slots_match px"
  using assms by (simp_all add: sys_inv_def)

lemma sys_inv_proxy:
  assumes "sys_inv S"
  defines "px \<equiv> g_px (sys_mon S)"
  shows "proxy_ok px" "inbox_ok px" "length (ioacks px) = 32"
proof -
  note inv = sys_invD [OF assms(1), folded px_def]
  note ses = session_invD [OF inv(1), simplified, folded px_def]
  show len: "length (ioacks px) = 32" using inv(5) by (simp add: monitor_shape_def px_def)
  show "proxy_ok px" using ses len by (simp add: proxy_ok_def)
  show "inbox_ok px" using ses inv(2) by (simp add: inbox_ok_def endpoint_ok_def events_ok_def vso_refs mem_ok_def)
qed

text \<open>A free slot leaves a buffer and an entry of the request queue.\<close>
lemma free_slot_room:
  assumes "sys_inv S" "k < 32" "k \<notin> waiting (g_px (sys_mon S))"
  shows "lent_ids (g_px (sys_mon S)) \<noteq> {..<32}" "queue_len (q_at (px_mem (g_px (sys_mon S))) driver_drvrpc_req) < 32"
proof -
  let ?px = "g_px (sys_mon S)"
  note inv = sys_invD [OF assms(1)]
  have "waiting ?px \<subseteq> {..<32}" using sys_inv_proxy(3) [OF assms(1)] by (auto simp: waiting_def)
  then have "waiting ?px \<subset> {..<32}" using assms(2,3) by auto
  then have "card (waiting ?px) < 32" using psubset_card_mono [of "{..<32::nat}" "waiting ?px"] by simp
  moreover have "card (lent_ids ?px) = card (waiting ?px)"
    using inv(8) unfolding slots_match_def by (metis bij_betw_same_card)
  ultimately show free: "lent_ids ?px \<noteq> {..<32}" by (metis card_lessThan less_irrefl)
  show "queue_len (q_at (px_mem ?px) driver_drvrpc_req) < 32"
    using request_room [OF inv(1)] free by (simp add: vso_refs)
qed


section \<open>The monitor's requests\<close>

lemma request_is_mmio: "is_mmio \<lparr>mr0 = mmio_request_mr0 dir addr_space slot sz, mr1 = a, mr2 = b, mr3 = c\<rparr>"
  by (simp add: is_mmio_def mmio_request_mr0_def QEMU_OP_set QEMU_OP_MMIO_def)

lemma request_msg_slot:
  "unat slot < 32 \<Longrightarrow> msg_slot \<lparr>mr0 = mmio_request_mr0 dir addr_space slot sz, mr1 = a, mr2 = b, mr3 = c\<rparr> = unat slot"
  using request_slot [of slot dir addr_space sz] by (simp add: msg_slot_def word_less_nat_alt)

text \<open>One more slot and one more message.\<close>
lemma slots_match_insert:
  assumes "slots_match px" "i \<notin> lent_ids px" "lent_ids px' = insert i (lent_ids px)"
    and "\<And>j. j \<in> lent_ids px \<Longrightarrow> req_msg px' j = req_msg px j" "is_mmio (req_msg px' i)" "msg_slot (req_msg px' i) = k"
    and "k \<notin> waiting px" "waiting px' = insert k (waiting px)"
  shows "slots_match px'"
proof -
  have "bij_betw (\<lambda>i. msg_slot (req_msg px' i)) (lent_ids px) (waiting px)"
    using assms(1,4) by (simp add: slots_match_def cong: bij_betw_cong)
  from notIn_Un_bij_betw [OF assms(2) _ this] assms(6,7)
  have "bij_betw (\<lambda>i. msg_slot (req_msg px' i)) (insert i (lent_ids px)) (insert k (waiting px))" by simp
  with assms show ?thesis by (simp add: slots_match_def)
qed

lemma start_effect:
  assumes inv: "sys_inv S" and px: "px = g_px (sys_mon S)" and slot: "unat slot < 32"
    and free: "ack_callback (ioacks px ! unat slot) = None" and sz: "sz \<le> 8"
  obtains px' i where
    "ioreq_start px slot ar aw cookie addr_space dir offset sz val = Inr (0, px')"
    "driver_rpc_request (Some (px_rpc px)) QEMU_OP_MMIO (mmio_start_mr0 dir addr_space slot sz) offset val 0 (px_mem px)
       = Inr (0, px_rpc px', px_mem px')"
    "ioacks px' = (ioacks px)[unat slot := \<lparr>ack_callback = Some (if dir = SEL4_IO_DIR_READ then ar else aw), ack_cookie = cookie\<rparr>]"
    "i < 32" "i \<notin> lent_ids px" "lent_ids px' = insert i (lent_ids px)"
    "b_at (px_mem px') driver_drvrpc_req = (b_at (px_mem px) driver_drvrpc_req)
       [i := \<lparr>mr0 = mmio_request_mr0 dir addr_space slot sz, mr1 = offset, mr2 = val, mr3 = 0\<rparr>]"
    "q_at (px_mem px') devevt_queue = q_at (px_mem px) devevt_queue" "b_at (px_mem px') devevt_queue = b_at (px_mem px) devevt_queue"
    "device_event (px_rpc px') = device_event (px_rpc px)" "q_at (px_mem px') driver_drvrpc_resp = q_at (px_mem px) driver_drvrpc_resp"
proof -
  note ses = session_invD [OF sys_invD(1) [OF inv], simplified, folded px]
  have rq: "request (driver_rpc (px_rpc px)) = iobuf_queue 0 0" using ses(5) by (simp add: endpoint_ok_def)
  obtain c where c: "doorbell (px_rpc px) = Some c" using ses(5) by (auto simp: endpoint_ok_def)
  have "unat slot \<notin> waiting px" using free by (simp add: waiting_def)
  note room = free_slot_room [OF inv slot, folded px, OF this]
  have room': "queue_len (q_at (px_mem px) (iobuf_queue 0 0)) < 32" "lent (buffer_state (driver_rpc (px_rpc px))) \<noteq> {..<32}"
    using room by (simp_all add: vso_refs lent_ids_def)
  show thesis
  proof (rule drv_request_ok [OF ses(1) rq ses(2) room'(1) ses(8) room'(2) c, of QEMU_OP_MMIO
        "mmio_start_mr0 dir addr_space slot sz" offset val 0])
    fix i q st
    let ?r = "(px_rpc px)\<lparr>driver_rpc := (driver_rpc (px_rpc px))\<lparr>buffer_state := st\<rparr>\<rparr>"
    let ?w = "(put_q (iobuf_queue 0 0) q (put_b (iobuf_queue 0 0)
           ((b_at (px_mem px) (iobuf_queue 0 0))[i := \<lparr>mr0 = BIT_FIELD_SET (mmio_start_mr0 dir addr_space slot sz) RPC_MR0_OP (ucast QEMU_OP_MMIO),
              mr1 = offset, mr2 = val, mr3 = 0\<rparr>]) (px_mem px)))\<lparr>rung := c # rung (px_mem px)\<rparr>"
    assume *: "driver_rpc_request (Some (px_rpc px)) QEMU_OP_MMIO (mmio_start_mr0 dir addr_space slot sz) offset val 0 (px_mem px) = Inr (0, ?r, ?w)"
      "i < 32" "i \<notin> lent (buffer_state (driver_rpc (px_rpc px)))" "lent st = insert i (lent (buffer_state (driver_rpc (px_rpc px))))"
    show thesis
      by (rule that [of "px\<lparr>ioacks := (ioacks px)[unat slot := \<lparr>ack_callback = Some (if dir = SEL4_IO_DIR_READ then ar else aw), ack_cookie = cookie\<rparr>],
           px_rpc := ?r, px_mem := ?w\<rparr>" i])
        (use * slot free sz ses(1) in \<open>simp_all add: ioreq_start_def Let_def driver_rpc_req_mmio_start_def mmio_request_mr0_def
          lent_ids_def vso_refs not_less\<close>)
  qed
qed

lemma start_inv:
  assumes inv: "sys_inv S" and slot: "unat slot < 32"
    and run: "ioreq_start (g_px (sys_mon S)) slot ar aw cookie addr_space dir offset sz val = Inr (rc, px')"
  shows "rc = 0" "sys_inv (put_proxy px' S)" "waiting px' = insert (unat slot) (waiting (g_px (sys_mon S)))"
proof -
  define px where "px = g_px (sys_mon S)"
  note i = sys_invD [OF inv, folded px_def]
  note len = sys_inv_proxy(3) [OF inv, folded px_def]
  have mem: "mem_ok (px_mem px)" using session_invD(1) [OF i(1)] by (simp add: px_def)
  have free: "ack_callback (ioacks px ! unat slot) = None" "sz \<le> 8"
    using run slot by (auto simp: ioreq_start_def px_def not_less Let_def split: if_splits)
  let ?msg = "\<lparr>mr0 = mmio_request_mr0 dir addr_space slot sz, mr1 = offset, mr2 = val, mr3 = 0\<rparr>"
  obtain px1 j where "ioreq_start px slot ar aw cookie addr_space dir offset sz val = Inr (0, px1)"
    and req: "driver_rpc_request (Some (px_rpc px)) QEMU_OP_MMIO (mmio_start_mr0 dir addr_space slot sz) offset val 0 (px_mem px)
       = Inr (0, px_rpc px1, px_mem px1)"
    and acks: "ioacks px1 = (ioacks px)[unat slot := \<lparr>ack_callback = Some (if dir = SEL4_IO_DIR_READ then ar else aw), ack_cookie = cookie\<rparr>]"
    and j: "j < 32" "j \<notin> lent_ids px" "lent_ids px1 = insert j (lent_ids px)"
    and buf: "b_at (px_mem px1) driver_drvrpc_req = (b_at (px_mem px) driver_drvrpc_req)[j := ?msg]"
    and ev: "q_at (px_mem px1) devevt_queue = q_at (px_mem px) devevt_queue" "b_at (px_mem px1) devevt_queue = b_at (px_mem px) devevt_queue"
      "device_event (px_rpc px1) = device_event (px_rpc px)"
    by (rule start_effect [OF inv px_def slot free, of ar aw cookie addr_space dir offset val])
  with run have eq: "px1 = px'" and "rc = 0" by (simp_all add: px_def)
  then show "rc = 0" by simp
  have wait: "waiting px' = insert (unat slot) (waiting px)" using acks slot len by (auto simp: eq waiting_def nth_list_update)
  then show "waiting px' = insert (unat slot) (waiting (g_px (sys_mon S)))" by (simp add: px_def)
  have "session_step (session_of S) (session_of (put_proxy px' S))"
    using session_step.drv_request [of "session_of S"] req by (simp add: eq session_of_def px_def)
  then have "session_inv (session_of (put_proxy px' S))" using i(1) by (rule session_step_inv)
  moreover have "events_ok px'" using i(2) ev by (simp add: eq events_ok_def events_def)
  moreover have "slots_match px'"
  proof (rule slots_match_insert [OF i(8) j(2) j(3) [unfolded eq] _ _ _ _ wait])
    have "length (b_at (px_mem px) driver_drvrpc_req) = 32" using mem by (simp add: vso_refs)
    with j(1) slot show "is_mmio (req_msg px' j)" "msg_slot (req_msg px' j) = unat slot"
      by (simp_all add: req_msg_def buf [unfolded eq] request_is_mmio request_msg_slot)
    show "req_msg px' a = req_msg px a" if "a \<in> lent_ids px" for a
    proof -
      have "j \<noteq> a" using that j(2) by blast
      then show ?thesis by (simp add: req_msg_def buf [unfolded eq])
    qed
    show "unat slot \<notin> waiting px" using free by (simp add: waiting_def)
  qed
  ultimately show "sys_inv (put_proxy px' S)"
    using i acks by (simp add: eq sys_inv_def monitor_shape_def no_last_slot_def px_def)
qed


lemma fault_starts:
  assumes "mmio_fault_handler E vcpu paddr len px vm = Inr (r, px')"
  shows "\<exists>dir val rc. ioreq_start px (of_nat vcpu) Ioack_Vcpu_Read Ioack_Vcpu_Write vcpu (ucast AS_GLOBAL) dir paddr len val = Inr (rc, px')"
  using assms by (auto simp: mmio_fault_handler_def Let_def res_simps split: if_splits)

lemma native_begin_cases:
  assumes "ioreq_native_begin e th addr_space dir addr sz val px nt = Inr (rc, px', nt')" "natives_ok nt"
  shows "natives_ok nt'"
    "px' = px \<or> (\<exists>slot rc'. unat slot < 32 \<and> ioreq_start px slot Ioack_Native_Read Ioack_Native_Write th addr_space dir addr sz val = Inr (rc', px'))"
proof -
  obtain slot nt1 where slot: "ioreq_native_slot e th nt = (slot, nt1)" by fastforce
  note ok = native_slot_ok [OF assms(2) slot]
  have nt': "nt' = nt1" using assms(1) slot by (auto simp: ioreq_native_begin_def res_simps split: if_splits)
  with ok show "natives_ok nt'" by simp
  have s: "unat (of_int slot :: u32) < 32" if "0 \<le> slot"
    using ok that by (simp add: unsigned_of_int take_bit_int_eq_self nat_less_iff)
  show "px' = px \<or> (\<exists>slot rc'. unat slot < 32 \<and> ioreq_start px slot Ioack_Native_Read Ioack_Native_Write th addr_space dir addr sz val = Inr (rc', px'))"
    using assms(1) slot s by (auto simp: ioreq_native_begin_def res_simps not_less split: if_splits)
qed

section \<open>The backend's steps\<close>

lemma buffer_state_fixed: "r\<lparr>driver_rpc := (driver_rpc r)\<lparr>buffer_state := st\<rparr>\<rparr> = r \<Longrightarrow> st = buffer_state (driver_rpc r)"
  by (drule arg_cong [where f = "\<lambda>r. buffer_state (driver_rpc r)"]) simp

text \<open>
  The parties of the backend leave the first word of a lent message alone, and the event
  queue and its buffer.
\<close>
lemma backend_step_keeps:
  assumes I: "session_inv s" and step: "backend_step s s'"
  shows "s_km s' = s_km s" "s_dev s' = s_dev s"
    "i \<in> s_lent s \<Longrightarrow> mr0 (b_at (s_mem s') (iobuf_queue 0 0) ! i) = mr0 (b_at (s_mem s) (iobuf_queue 0 0) ! i)"
    "q_at (s_mem s') (iobuf_queue 1 3) = q_at (s_mem s) (iobuf_queue 1 3)" "b_at (s_mem s') (iobuf_queue 1 3) = b_at (s_mem s) (iobuf_queue 1 3)"
proof -
  note inv = session_invD [OF I]
  note ends = inv(5-7) [unfolded endpoint_ok_def]
  let ?same = "\<lambda>s'. s_km s' = s_km s \<and> s_dev s' = s_dev s
    \<and> (\<forall>i \<in> s_lent s. mr0 (b_at (s_mem s') (iobuf_queue 0 0) ! i) = mr0 (b_at (s_mem s) (iobuf_queue 0 0) ! i))
    \<and> q_at (s_mem s') (iobuf_queue 1 3) = q_at (s_mem s) (iobuf_queue 1 3) \<and> b_at (s_mem s') (iobuf_queue 1 3) = b_at (s_mem s) (iobuf_queue 1 3)"
  have ack: "?same (s\<lparr>s_mem := w, km_held := h, dev_held := h'\<rparr>)"
    if "driver_rpc_ack_mmio_finish (Some r) (Some m) data (s_mem s) = Inr (rc, w)" "r = s_km s \<or> r = s_dev s" "m \<in> set (km_held s) \<union> set (dev_held s)"
    for r m data rc w h h'
  proof -
    note r = that(2)
    obtain c where c: "response (driver_rpc r) = iobuf_queue 0 2" "doorbell r = Some c"
      using r ends by auto
    have m: "m < 32" "queue_len (q_at (s_mem s) (iobuf_queue 0 2)) < 32" using held_facts [OF I, of m] that(3) by auto
    have len: "length (b_at (s_mem s) (iobuf_queue 0 0)) = 32" "b_at (s_mem s) (iobuf_queue 0 2) = b_at (s_mem s) (iobuf_queue 0 0)"
      using inv(1) by simp (simp add: b_at_def)
    show ?thesis
      by (rule ack_ok [OF inv(1) c(1) inv(4) m(2,1) c(2), of data])
        (use that(1) inv(1) m(1) len in \<open>auto simp: nth_list_update\<close>)
  qed
  from step have st: "session_step s s'" "s_drv s' = s_drv s" "drv_held s' = drv_held s" by (simp_all add: backend_step_def)
  from st(1) have "?same s'"
  proof cases
    case (drv_request op r0 r1 r2 r3 rc drv' w)
    obtain c where c: "doorbell (s_drv s) = Some c" using ends(1) by auto
    have rq: "request (driver_rpc (s_drv s)) = iobuf_queue 0 0" using ends(1) by simp
    have free: "lent (buffer_state (driver_rpc (s_drv s))) \<noteq> {..<32}"
      using drv_request(2) request_exhausted [OF inv(8)] rq by (auto simp: driver_rpc_request_def Let_def)
    note room = request_room [OF I free [folded s_lent_def]]
    have False
      by (rule drv_request_ok [OF inv(1) rq inv(2) room inv(8) free c, of op r0 r1 r2 r3])
        (use drv_request st(2) in \<open>auto dest!: buffer_state_fixed\<close>)
    then show ?thesis ..
  next
    case (km_reply m data rc w)
    then show ?thesis using ack [of "s_km s" m data rc w _ "dev_held s"] by simp
  next
    case (dev_reply m data rc w)
    then show ?thesis using ack [of "s_dev s" m data rc w "km_held s"] by simp
  next
    case (km_forward m rc w)
    show ?thesis
      by (rule forward_ok [of "s_mem s" "s_dev s" m])
        (use held_facts [OF I, of m] km_forward ends inv in \<open>auto simp flip: One_nat_def\<close>)
  qed (use st ends inv(1) in auto)
  then show "s_km s' = s_km s" "s_dev s' = s_dev s"
    "i \<in> s_lent s \<Longrightarrow> mr0 (b_at (s_mem s') (iobuf_queue 0 0) ! i) = mr0 (b_at (s_mem s) (iobuf_queue 0 0) ! i)"
    "q_at (s_mem s') (iobuf_queue 1 3) = q_at (s_mem s) (iobuf_queue 1 3)" "b_at (s_mem s') (iobuf_queue 1 3) = b_at (s_mem s) (iobuf_queue 1 3)"
    by simp_all
qed


lemma slots_match_cong:
  assumes "slots_match px" "lent_ids px' = lent_ids px" "ioacks px' = ioacks px"
    and "\<And>i. i \<in> lent_ids px \<Longrightarrow> mr0 (req_msg px' i) = mr0 (req_msg px i)"
  shows "slots_match px'"
proof -
  have "is_mmio (req_msg px' i) = is_mmio (req_msg px i)" "msg_slot (req_msg px' i) = msg_slot (req_msg px i)"
    if "i \<in> lent_ids px" for i
    using assms(4) [OF that] by (simp_all add: is_mmio_def msg_slot_def)
  moreover have "waiting px' = waiting px" by (simp add: waiting_def assms(3))
  ultimately show ?thesis
    using assms(1) unfolding slots_match_def assms(2) \<open>waiting px' = waiting px\<close> by (simp cong: bij_betw_cong)
qed

lemma session_of_moves:
  assumes "sys_inv S" "backend_step (session_of S) s'"
  shows "session_of (put_proxy ((g_px (sys_mon S))\<lparr>px_mem := s_mem s'\<rparr>) S\<lparr>sys_km_held := km_held s', sys_dev_held := dev_held s'\<rparr>) = s'"
  using assms(2) backend_step_keeps(1,2) [OF sys_invD(1) [OF assms(1)] assms(2)] by (simp add: session_of_def backend_step_def)

lemma backend_moves_inv:
  assumes inv: "sys_inv S" and step: "backend_step (session_of S) s'"
  defines "S' \<equiv> put_proxy ((g_px (sys_mon S))\<lparr>px_mem := s_mem s'\<rparr>) S\<lparr>sys_km_held := km_held s', sys_dev_held := dev_held s'\<rparr>"
  shows "sys_inv S'"
proof -
  note i = sys_invD [OF inv]
  note k = backend_step_keeps [OF i(1) step]
  have st: "session_step (session_of S) s'" "s_drv s' = px_rpc (g_px (sys_mon S))" "drv_held s' = []"
    using step by (simp_all add: backend_step_def)
  have "session_of S' = s'" using session_of_moves [OF inv step] by (simp add: S'_def)
  then have "session_inv (session_of S')" using session_step_inv [OF st(1) i(1)] by simp
  moreover have "events_ok (g_px (sys_mon S'))"
    using i(2) k(4,5) by (simp add: S'_def events_ok_def events_def vso_refs)
  moreover have "slots_match (g_px (sys_mon S'))"
    by (rule slots_match_cong [OF i(8)]) (use k(3) in \<open>simp_all add: S'_def lent_ids_def req_msg_def vso_refs s_lent_def\<close>)
  ultimately show ?thesis
    using i by (simp add: sys_inv_def S'_def monitor_shape_def no_last_slot_def)
qed

lemma event_not_mmio:
  "op \<in> event_ops \<Longrightarrow> \<not> is_mmio \<lparr>mr0 = BIT_FIELD_SET 0 RPC_MR0_OP (ucast op), mr1 = r1, mr2 = r2, mr3 = r3\<rparr>"
  by (auto simp: event_ops_def is_mmio_def QEMU_OP_set op_defs MASK_def)

text \<open>An event is queued, or the queue is full and nothing changes.\<close>
lemma event_tx_cases:
  assumes "event_ok (q_at w devevt_queue, b_at w devevt_queue)" "mem_ok w" "device_event r = devevt_queue"
    and "device_event_tx (Some r) op 0 r1 r2 r3 w = Inr (rc, w')"
  shows "mem_ok w'" "\<And>b k. k \<noteq> 3 \<Longrightarrow> q_at w' (iobuf_queue b k) = q_at w (iobuf_queue b k)" "\<And>k. b_at w' (iobuf_queue 0 k) = b_at w (iobuf_queue 0 k)"
    "event_ok (q_at w' devevt_queue, b_at w' devevt_queue)"
    "event_msgs (q_at w' devevt_queue, b_at w' devevt_queue) = event_msgs (q_at w devevt_queue, b_at w devevt_queue)
     \<or> event_msgs (q_at w' devevt_queue, b_at w' devevt_queue) = event_msgs (q_at w devevt_queue, b_at w devevt_queue)
         @ [\<lparr>mr0 = BIT_FIELD_SET 0 RPC_MR0_OP (ucast op), mr1 = r1, mr2 = r2, mr3 = r3\<rparr>]"
proof -
  let ?q = "q_at w devevt_queue" let ?b = "b_at w devevt_queue"
  let ?msg = "\<lparr>mr0 = BIT_FIELD_SET 0 RPC_MR0_OP (ucast op), mr1 = r1, mr2 = r2, mr3 = r3\<rparr>"
  have q: "queue_ok ?q" "length ?b = 32" using assms(1) by (simp_all add: event_ok_def)
  then have le: "queue_len ?q \<le> 32" by (simp add: queue_ok_def)
  have "\<exists>rc' q b. rpcmsg_event_tx ?q ?b (BIT_FIELD_SET 0 RPC_MR0_OP (ucast op)) r1 r2 r3 = Inr (rc', q, b)
      \<and> event_ok (q, b) \<and> (event_msgs (q, b) = event_msgs (?q, ?b) \<or> event_msgs (q, b) = event_msgs (?q, ?b) @ [?msg])"
  proof (cases "queue_len ?q = 32")
    case True
    have "rpcmsg_event_tx ?q ?b (BIT_FIELD_SET 0 RPC_MR0_OP (ucast op)) r1 r2 r3 = Inr (-1, ?q, ?b)"
      by (simp add: rpcmsg_event_tx_def enqueue_full [OF q(1) True])
    with assms(1) show ?thesis by blast
  next
    case False
    then have "queue_len ?q < 32" using le by simp
    from event_tx_ok [OF assms(1) this, of ?msg] show ?thesis by (simp add: rpcmsg_event_tx_def)
  qed
  then obtain rc' q b where tx: "rpcmsg_event_tx ?q ?b (BIT_FIELD_SET 0 RPC_MR0_OP (ucast op)) r1 r2 r3 = Inr (rc', q, b)"
    "event_ok (q, b)" "event_msgs (q, b) = event_msgs (?q, ?b) \<or> event_msgs (q, b) = event_msgs (?q, ?b) @ [?msg]" by blast
  have len: "length b = 32" using tx(2) by (simp add: event_ok_def)
  let ?w = "put_q devevt_queue q (put_b devevt_queue b w)"
  have w': "w' = ?w \<or> w' = snd (vso_doorbell (Some r) ?w)"
    using assms(3,4) tx(1) by (auto simp: device_event_tx_def Let_def split: if_splits)
  have at: "mem_ok ?w" "\<And>b k. k \<noteq> 3 \<Longrightarrow> q_at ?w (iobuf_queue b k) = q_at w (iobuf_queue b k)" "\<And>k. b_at ?w (iobuf_queue 0 k) = b_at w (iobuf_queue 0 k)"
    "q_at ?w devevt_queue = q" "b_at ?w devevt_queue = b"
    using assms(2) len by (simp_all add: vso_refs)
  show "mem_ok w'" "\<And>b k. k \<noteq> 3 \<Longrightarrow> q_at w' (iobuf_queue b k) = q_at w (iobuf_queue b k)" "\<And>k. b_at w' (iobuf_queue 0 k) = b_at w (iobuf_queue 0 k)"
    using w' at by auto
  have "q_at w' devevt_queue = q" "b_at w' devevt_queue = b" using w' at by auto
  with tx show "event_ok (q_at w' devevt_queue, b_at w' devevt_queue)"
    "event_msgs (q_at w' devevt_queue, b_at w' devevt_queue) = event_msgs (q_at w devevt_queue, b_at w devevt_queue)
     \<or> event_msgs (q_at w' devevt_queue, b_at w' devevt_queue) = event_msgs (q_at w devevt_queue, b_at w devevt_queue) @ [?msg]"
    by simp_all
qed

lemma session_inv_cong:
  assumes "session_inv s" "mem_ok w" "\<And>k. k < 3 \<Longrightarrow> q_at w (iobuf_queue 0 k) = q_at (s_mem s) (iobuf_queue 0 k)"
  shows "session_inv (s\<lparr>s_mem := w\<rparr>)"
  using assms by (simp add: session_inv_def in_flight_def s_lent_def)

lemma backend_signals_inv:
  assumes inv: "sys_inv S" and r: "r = sys_km S \<or> r = sys_dev S" and op: "op \<in> event_ops"
    and tx: "device_event_tx (Some r) op 0 r1 r2 r3 (px_mem (g_px (sys_mon S))) = Inr (rc, w)"
  shows "sys_inv (put_proxy ((g_px (sys_mon S))\<lparr>px_mem := w\<rparr>) S)"
proof -
  note i = sys_invD [OF inv]
  have dev: "device_event r = devevt_queue" using i(3,4) r by auto
  have mem: "mem_ok (px_mem (g_px (sys_mon S)))" using session_invD(1) [OF i(1)] by simp
  have ev: "event_ok (q_at (px_mem (g_px (sys_mon S))) devevt_queue, b_at (px_mem (g_px (sys_mon S))) devevt_queue)"
    using i(2) by (simp add: events_ok_def)
  note c = event_tx_cases [OF ev mem dev tx]
  have "session_of (put_proxy ((g_px (sys_mon S))\<lparr>px_mem := w\<rparr>) S) = (session_of S)\<lparr>s_mem := w\<rparr>" by (simp add: session_of_def)
  moreover have "session_inv ((session_of S)\<lparr>s_mem := w\<rparr>)" by (rule session_inv_cong [OF i(1) c(1)]) (simp add: c(2))
  ultimately have "session_inv (session_of (put_proxy ((g_px (sys_mon S))\<lparr>px_mem := w\<rparr>) S))" by (simp only:)
  moreover have "events_ok ((g_px (sys_mon S))\<lparr>px_mem := w\<rparr>)"
    using i(2) c(4,5) event_not_mmio [OF op, of r1 r2 r3] by (auto simp: events_ok_def events_def)
  moreover have "slots_match ((g_px (sys_mon S))\<lparr>px_mem := w\<rparr>)"
    by (rule slots_match_cong [OF i(8)]) (use c(3) in \<open>simp_all add: lent_ids_def req_msg_def vso_refs\<close>)
  ultimately show ?thesis using i by (simp add: sys_inv_def monitor_shape_def no_last_slot_def)
qed


section \<open>The monitor's run\<close>

text \<open>The responses that wait are answers to different waiting requests.\<close>
lemma inbox_answerable:
  assumes inv: "sys_inv S"
  defines "px \<equiv> g_px (sys_mon S)"
  shows "answerable (waiting px) (responses px @ events px)" "\<forall>m \<in> set (responses px). is_mmio m"
    "set (resp_ids px) \<subseteq> lent_ids px" "distinct (resp_ids px)"
    "msg_slot ` set (responses px) = (\<lambda>i. msg_slot (req_msg px i)) ` set (resp_ids px)"
proof -
  note i = sys_invD [OF inv, folded px_def]
  note f = in_flight_facts [OF i(1)]
  have ids: "resp_ids px = rpc_ids (q_at (px_mem px) (iobuf_queue 0 2))" by (simp add: resp_ids_def vso_refs)
  show sub: "set (resp_ids px) \<subseteq> lent_ids px" and dist: "distinct (resp_ids px)"
    unfolding ids using f(1,2) by (auto simp: in_flight_def px_def)
  have resp: "responses px = map (req_msg px) (resp_ids px)"
    by (simp add: responses_def req_msg_def [abs_def] vso_refs b_at_def)
  show mm: "\<forall>m \<in> set (responses px). is_mmio m" using i(8) sub by (auto simp: resp slots_match_def)
  have bij: "inj_on (\<lambda>i. msg_slot (req_msg px i)) (set (resp_ids px))" "(\<lambda>i. msg_slot (req_msg px i)) ` set (resp_ids px) \<subseteq> waiting px"
    using i(8) sub unfolding slots_match_def bij_betw_def by (auto intro: inj_on_subset)
  show "msg_slot ` set (responses px) = (\<lambda>i. msg_slot (req_msg px i)) ` set (resp_ids px)" by (simp add: resp image_image)
  have ev: "filter is_mmio (events px) = []" using i(2) by (simp add: events_ok_def filter_empty_conv)
  have "filter is_mmio (responses px) = responses px" using mm by simp
  then have "distinct (map msg_slot (filter is_mmio (responses px @ events px)))"
    using bij(1) dist by (simp add: ev resp distinct_map comp_def)
  moreover have "\<forall>m \<in> set (responses px @ events px). is_mmio m \<longrightarrow> msg_slot m \<in> waiting px"
    using bij(2) ev by (auto simp: resp filter_empty_conv)
  ultimately show "answerable (waiting px) (responses px @ events px)" unfolding answerable_def by blast
qed

text \<open>What the environment of the monitor has to provide.\<close>
definition env_ok :: "'vm glue_env \<Rightarrow> ('vm \<Rightarrow> nat \<Rightarrow> u32 \<Rightarrow> bool) \<Rightarrow> bool" where
  "env_ok G level \<longleftrightarrow> irq_spec (g_ops G) level \<and> lists_ok (g_lists G) \<and> bus_below_last (g_pci_env G)"

lemma rpc_run_total:
  assumes env: "env_ok G level" and inv: "sys_inv S"
  defines "s \<equiv> sys_mon S"
  obtains rc s' k where "rpc_run G s = Inr (rc, s')" "inbox_ok (g_px s')" "resp_ids (g_px s') = []"
    "events (g_px s') = drop k (events (g_px s))" "lent_ids (g_px s') = lent_ids (g_px s) - set (resp_ids (g_px s))"
    "waiting (g_px s') = waiting (g_px s) - msg_slot ` set (responses (g_px s))"
    "io_keeps (g_px s) (g_px s')" "monitor_shape s'" "no_last_slot s'" "natives_ok (g_nt s')"
proof -
  note i = sys_invD [OF inv, folded s_def]
  note box = inbox_answerable [OF inv, folded s_def]
  note inbox = sys_inv_proxy(2) [OF inv, folded s_def]
  have E: "irq_spec (g_ops G) level" "lists_ok (g_lists G)" "bus_below_last (g_pci_env G)" using env by (simp_all add: env_ok_def)
  obtain k1 rc1 s1 where r1: "process_msgs G 0 (responses (g_px s)) s = Inr (rc1, drop k1 (responses (g_px s)), s1)"
    "batch_state (events (g_px s)) (responses (g_px s)) k1 s s1" "length (responses (g_px s)) \<le> k1" "rc1 = 0"
    using process_msgs_total [OF E i(5,6,7) box(1), of 0] box(2) by blast
  note b1 = r1(2) [unfolded batch_state_def]
  have "answerable (waiting (g_px s1)) (drop k1 (responses (g_px s)) @ events (g_px s))" using b1 by blast
  then have rest: "answerable (waiting (g_px s1)) (events (g_px s) @ [])" using r1(3) by simp
  obtain k2 rc2 s2 where r2: "process_msgs G rc1 (events (g_px s)) s1 = Inr (rc2, drop k2 (events (g_px s)), s2)"
    "batch_state [] (events (g_px s)) k2 s1 s2"
    using process_msgs_total [OF E _ _ _ rest, of rc1] b1 by blast
  note b2 = r2(2) [unfolded batch_state_def]
  obtain s' where s': "rpc_run G s = Inr (rc2, s')" "s' = with_io (px_rpc (g_px s')) (px_mem (g_px s')) s2" "inbox_ok (g_px s')"
    "events (g_px s') = drop k2 (events (g_px s))" "resp_ids (g_px s') = []"
    "lent_ids (g_px s') = lent_ids (g_px s) - set (resp_ids (g_px s))" "io_keeps (g_px s) (g_px s')"
    using rpc_run_spec [OF inbox r1(1) r2(1) refl] r1(3,4) by (auto simp: responses_def)
  have none: "set (take k2 (events (g_px s))) \<inter> {m. is_mmio m} = {}"
    using i(2) by (auto simp: events_ok_def dest: in_set_takeD)
  have "set (take k1 (responses (g_px s))) \<inter> {m. is_mmio m} = set (responses (g_px s))"
    using r1(3) box(2) by auto
  then have "waiting (g_px s2) = waiting (g_px s) - msg_slot ` set (responses (g_px s))"
    using b1 b2 none by simp
  moreover have "monitor_shape (with_io r w s2) = monitor_shape s2" "no_last_slot (with_io r w s2) = no_last_slot s2"
    "waiting (g_px (with_io r w s2)) = waiting (g_px s2)" for r w
    by (simp_all add: monitor_shape_def no_last_slot_def waiting_def)
  ultimately have "waiting (g_px s') = waiting (g_px s) - msg_slot ` set (responses (g_px s))" "monitor_shape s'" "no_last_slot s'" "natives_ok (g_nt s')"
    using b2 by (subst s'(2); simp)+
  with s' that show thesis by blast
qed


lemma session_after_run:
  assumes inv: "sys_inv S" and keeps: "io_keeps (g_px (sys_mon S)) (g_px s')" and inbox: "inbox_ok (g_px s')"
    and ids: "resp_ids (g_px s') = []" and lent: "lent_ids (g_px s') = lent_ids (g_px (sys_mon S)) - set (resp_ids (g_px (sys_mon S)))"
  shows "session_inv (session_of (S\<lparr>sys_mon := s'\<rparr>))"
proof -
  let ?S = "S\<lparr>sys_mon := s'\<rparr>" let ?px = "g_px (sys_mon S)" let ?px' = "g_px s'"
  note i = sys_invD [OF inv]
  note ses = session_invD [OF i(1), simplified]
  note k = keeps [unfolded io_keeps_def]
  obtain st where st: "px_rpc ?px' = (px_rpc ?px)\<lparr>driver_rpc := (driver_rpc (px_rpc ?px))\<lparr>buffer_state := st\<rparr>\<rparr>" using k by blast
  have q: "q_at (px_mem ?px') (iobuf_queue 0 0) = q_at (px_mem ?px) (iobuf_queue 0 0)"
    "q_at (px_mem ?px') (iobuf_queue 0 1) = q_at (px_mem ?px) (iobuf_queue 0 1)" using k by simp_all
  have ids': "resp_ids ?px = rpc_ids (q_at (px_mem ?px) (iobuf_queue 0 2))" "rpc_ids (q_at (px_mem ?px') (iobuf_queue 0 2)) = []"
    using ids by (simp_all add: resp_ids_def vso_refs)
  have old: "in_flight (session_of S) = in_flight (session_of ?S) @ resp_ids ?px"
    by (simp add: in_flight_def q(1) q(2) [simplified One_nat_def] ids')
  have "set (in_flight (session_of ?S)) = lent_ids ?px'" "distinct (in_flight (session_of ?S))"
    using in_flight_facts(1,2) [OF i(1)] lent unfolding old by auto
  then have "mset (in_flight (session_of ?S)) = mset_set (s_lent (session_of ?S))"
    by (metis mset_set_set session_of_simps(8) system.select_convs(1) system.update_convs(1) system.surjective)
  moreover have "rpc_ok (q_at (px_mem ?px') (iobuf_queue 0 j))" if "j < 3" for j
  proof -
    have "j = 0 \<or> j = 1 \<or> j = 2" using that by linarith
    then consider "j = 0" | "j = 1" | "j = 2" by blast
    then show ?thesis using ses(2,3) q inbox by cases (simp_all add: inbox_ok_def vso_refs)
  qed
  moreover have "mem_ok (px_mem ?px')" using k ses(1) by blast
  moreover have "pool_ok (buffer_state (driver_rpc (px_rpc ?px')))" using inbox by (simp add: inbox_ok_def)
  ultimately show ?thesis using ses(5-7) by (simp add: session_inv_def st endpoint_ok_def)
qed

lemma monitor_runs_inv:
  assumes env: "env_ok G level" and inv: "sys_inv S" and run: "rpc_run G (sys_mon S) = Inr (rc, s')"
  shows "sys_inv (S\<lparr>sys_mon := s'\<rparr>)"
proof -
  let ?px = "g_px (sys_mon S)" let ?px' = "g_px s'"
  note i = sys_invD [OF inv]
  note box = inbox_answerable [OF inv]
  obtain k where r: "inbox_ok ?px'" "resp_ids ?px' = []" "events ?px' = drop k (events ?px)"
    "lent_ids ?px' = lent_ids ?px - set (resp_ids ?px)" "waiting ?px' = waiting ?px - msg_slot ` set (responses ?px)"
    "io_keeps ?px ?px'" "monitor_shape s'" "no_last_slot s'" "natives_ok (g_nt s')"
    by (rule rpc_run_total [OF env inv]) (use run in auto)
  have req: "req_msg ?px' = req_msg ?px" using r(6) by (simp add: io_keeps_def req_msg_def fun_eq_iff)
  have "events_ok ?px'"
  proof -
    have "device_event (px_rpc ?px') = devevt_queue" using r(6) i(2) by (auto simp: io_keeps_def events_ok_def)
    moreover have "event_ok (q_at (px_mem ?px') devevt_queue, b_at (px_mem ?px') devevt_queue)" using r(1) by (simp add: inbox_ok_def)
    ultimately show ?thesis using i(2) r(3) by (auto simp: events_ok_def dest: in_set_dropD)
  qed
  moreover have "slots_match ?px'"
  proof -
    let ?f = "\<lambda>i. msg_slot (req_msg ?px i)"
    have bij: "bij_betw ?f (lent_ids ?px) (waiting ?px)" using i(8) by (simp add: slots_match_def)
    have "?f ` (lent_ids ?px - set (resp_ids ?px)) = waiting ?px - ?f ` set (resp_ids ?px)"
      using inj_on_image_set_diff [OF bij_betw_imp_inj_on [OF bij], of "lent_ids ?px" "set (resp_ids ?px)"] box(3) bij_betw_imp_surj_on [OF bij]
      by auto
    then have "bij_betw ?f (lent_ids ?px - set (resp_ids ?px)) (waiting ?px - ?f ` set (resp_ids ?px))"
      by (intro bij_betw_subset [OF bij]) auto
    with i(8) show ?thesis by (simp add: slots_match_def req r(4,5) box(5))
  qed
  ultimately show ?thesis
    using session_after_run [OF inv r(6,1,2,4)] i(3,4) r(7-9) by (simp add: sys_inv_def)
qed

section \<open>Reachable states\<close>

lemma sys_step_inv:
  assumes env: "env_ok G level" and step: "sys_step G S S'" and inv: "sys_inv S"
  shows "sys_inv S'"
  using step
proof cases
  case (guest_runs vm)
  with inv show ?thesis by (simp add: sys_inv_def session_of_def monitor_shape_def no_last_slot_def)
next
  case (guest_faults vcpu paddr len r px)
  obtain dir val rc where "ioreq_start (g_px (sys_mon S)) (of_nat vcpu) Ioack_Vcpu_Read Ioack_Vcpu_Write vcpu (ucast AS_GLOBAL) dir paddr len val = Inr (rc, px)"
    using fault_starts [OF guest_faults(3)] by blast
  moreover have "unat (of_nat vcpu :: u32) < 32" using guest_faults(2) by (simp add: SEL4_MMIO_MAX_VCPU_def unat_of_nat)
  ultimately show ?thesis using start_inv(2) [OF inv] guest_faults(1) by blast
next
  case (native_requests sem_err thread addr_space dir addr sz val rc px nt)
  note c = native_begin_cases [OF native_requests(2) sys_invD(7) [OF inv]]
  have "sys_inv (put_proxy px S)"
    using c(2)
  proof
    assume "px = g_px (sys_mon S)"
    then have "put_proxy px S = S" by (simp add: put_proxy_def)
    with inv show ?thesis by simp
  qed (use start_inv(2) [OF inv] in blast)
  with c(1) show ?thesis
    using native_requests(1) by (simp add: sys_inv_def session_of_def monitor_shape_def no_last_slot_def)
next
  case (native_resumes thread v nt)
  have "natives_ok nt"
    using native_resumes(2) sys_invD(7) [OF inv] by (auto simp: ioreq_native_wait_def Let_def intro!: natives_ok_value split: if_splits)
  with inv native_resumes(1) show ?thesis by (simp add: sys_inv_def session_of_def monitor_shape_def no_last_slot_def)
next
  case (backend_moves s')
  with backend_moves_inv [OF inv] show ?thesis by simp
next
  case (backend_signals r op r1 r2 r3 rc w)
  with backend_signals_inv [OF inv] show ?thesis by blast
next
  case (monitor_runs rc s')
  with monitor_runs_inv [OF env inv] show ?thesis by simp
qed


text \<open>
  The monitor as the loader leaves it: no devices, no requests, all memory of the proxy in
  its initial state, the platform's MSI frame and the INTx interrupts low.
\<close>
definition loaded :: "'vm glue_env \<Rightarrow> ('vm \<Rightarrow> nat \<Rightarrow> u32 \<Rightarrow> bool) \<Rightarrow> 'vm vmm \<Rightarrow> bool" where
  "loaded G level s \<longleftrightarrow> (g_v2m s = v2m_rpi4 \<or> g_v2m s = v2m_qemu_arm_virt)
     \<and> length (pci_intx (g_pci s)) = 4 \<and> pci_devs (g_pci s) = []
     \<and> (\<forall>p < 4. \<not> level (g_vm s) BOOT_VCPU (INTERRUPT_PCI_INTX_BASE (g_pci_env G) + of_nat p))
     \<and> natives_ok (g_nt s) \<and> proxy_static (g_px s) \<and> events (g_px s) = [] \<and> lent_ids (g_px s) = {} \<and> waiting (g_px s) = {}
     \<and> rpc_ok (q_at (px_mem (g_px s)) device_drvrpc_req) \<and> rpc_ids (q_at (px_mem (g_px s)) device_drvrpc_req) = []"

text \<open>
  Boot: the monitor initialises its proxy and is told to start; the kernel module and the
  device open their endpoints. Then any steps in any order.
\<close>
inductive sys_reachable :: "'vm glue_env \<Rightarrow> ('vm \<Rightarrow> nat \<Rightarrow> u32 \<Rightarrow> bool) \<Rightarrow> 'vm system \<Rightarrow> bool" for G level where
  sys_boot:
    "loaded G level s \<Longrightarrow>
     libsel4vm_io_proxy_init G 0 (vm_io_proxy_run G 0) v2m (\<lambda>px. snd (handle_control QEMU_OP_START_VM msg px)) False s = Inr (0, ini, s') \<Longrightarrow>
     vso_rpc_init (Some zero_rpc) vso_rpc_device_km (Some c1) (px_mem (g_px s')) = Inr (0, Some km, w1) \<Longrightarrow>
     vso_rpc_init (Some zero_rpc) vso_rpc_device (Some c2) w1 = Inr (0, Some dev, w2) \<Longrightarrow>
     sys_reachable G level \<lparr>sys_mon = s'\<lparr>g_px := (g_px s')\<lparr>px_mem := w2\<rparr>\<rparr>, sys_km = km, sys_dev = dev, sys_km_held = [], sys_dev_held = []\<rparr>"
| sys_next:
    "sys_reachable G level S \<Longrightarrow> sys_step G S S' \<Longrightarrow> sys_reachable G level S'"

lemma irqs_ok_shape: "irqs_ok G level s \<Longrightarrow> proxy_idle (g_px s) \<Longrightarrow> monitor_shape s"
  by (simp add: irqs_ok_def monitor_shape_def intx_ok_def proxy_idle_def proxy_ok_def)

lemma boot_established:
  assumes env: "env_ok G level" and s: "loaded G level s"
    and init: "libsel4vm_io_proxy_init G 0 (vm_io_proxy_run G 0) v2m (\<lambda>px. snd (handle_control QEMU_OP_START_VM msg px)) False s = Inr (0, ini, s')"
  shows "irqs_ok G level s'" "proxy_idle (g_px s')" "events (g_px s') = []" "lent_ids (g_px s') = {}" "ioacks (g_px s') = ioacks (g_px s)"
    "q_at (px_mem (g_px s')) device_drvrpc_req = q_at (px_mem (g_px s)) device_drvrpc_req" "g_nt s' = g_nt s" "pci_devs (g_pci s') = []"
proof -
  note l = s [unfolded loaded_def]
  obtain px where px: "io_proxy_init 0 (g_px s) = Inr px" "ctrl_base px = ctrl_base (g_px s)" "ctrl_size px = ctrl_size (g_px s)" "px_id px = px_id (g_px s)"
    by (rule io_proxy_init_idle [of "g_px s"]) (use l in auto)
  obtain r vm where "vm_reserve_memory_at (g_ops G) (ctrl_base px) (ctrl_size px) Mmio_Fault_Handler (px_id px) (g_vm s) = (r, vm)" by fastforce
  with init px(1) have "vm_reserve_memory_at (g_ops G) (ctrl_base px) (ctrl_size px) Mmio_Fault_Handler (px_id px) (g_vm s) = (Some (the r), vm)"
    by (auto simp: libsel4vm_io_proxy_init_def split: if_splits)
  then show "irqs_ok G level s'" "proxy_idle (g_px s')" "events (g_px s') = []" "lent_ids (g_px s') = {}" "ioacks (g_px s') = ioacks (g_px s)"
    "q_at (px_mem (g_px s')) device_drvrpc_req = q_at (px_mem (g_px s)) device_drvrpc_req" "g_nt s' = g_nt s" "pci_devs (g_pci s') = []"
    using init_establishes [of G level s "the r" vm v2m msg] env l init by (auto simp: env_ok_def px)
qed

lemma boot_inv:
  assumes env: "env_ok G level" and s: "loaded G level s"
    and init: "libsel4vm_io_proxy_init G 0 (vm_io_proxy_run G 0) v2m (\<lambda>px. snd (handle_control QEMU_OP_START_VM msg px)) False s = Inr (0, ini, s')"
    and km: "vso_rpc_init (Some zero_rpc) vso_rpc_device_km (Some c1) (px_mem (g_px s')) = Inr (0, Some km, w1)"
    and dev: "vso_rpc_init (Some zero_rpc) vso_rpc_device (Some c2) w1 = Inr (0, Some dev, w2)"
  shows "sys_inv \<lparr>sys_mon = s'\<lparr>g_px := (g_px s')\<lparr>px_mem := w2\<rparr>\<rparr>, sys_km = km, sys_dev = dev, sys_km_held = [], sys_dev_held = []\<rparr>"
proof -
  note l = s [unfolded loaded_def]
  note i = boot_established [OF env s init]
  have w: "w1 = px_mem (g_px s')" "w2 = px_mem (g_px s')" and ends: "endpoint_ok 0 km" "endpoint_ok 1 dev"
    "device_event km = devevt_queue" "device_event dev = devevt_queue"
    using km dev by (auto simp: vso_rpc_init_def vso_driver_rpc_init_def vso_rpc_driver_def vso_rpc_device_km_def vso_rpc_device_def
        endpoint_ok_def vso_refs)
  let ?S = "\<lparr>sys_mon = s', sys_km = km, sys_dev = dev, sys_km_held = [], sys_dev_held = []\<rparr>"
  note ok = i(2) [unfolded proxy_idle_def proxy_ok_def]
  have q: "rpc_ok (q_at (px_mem (g_px s')) (iobuf_queue 0 j)) \<and> rpc_ids (q_at (px_mem (g_px s')) (iobuf_queue 0 j)) = []" if "j < 3" for j
  proof -
    have "j = 0 \<or> j = 1 \<or> j = 2" using that by linarith
    then show ?thesis using ok i(6) l by (auto simp: inbox_ok_def resp_ids_def vso_refs)
  qed
  have "session_inv (session_of ?S)"
    using ok ends q i(4) by (simp add: session_inv_def in_flight_def)
  moreover have "events_ok (g_px s')" using ok i(3) by (simp add: events_ok_def inbox_ok_def)
  moreover have "slots_match (g_px s')"
    using i(4,5) l by (simp add: slots_match_def waiting_def bij_betw_def)
  ultimately have "sys_inv ?S"
    using ends irqs_ok_shape [OF i(1,2)] i(7,8) l by (simp add: sys_inv_def no_last_slot_def)
  then show ?thesis by (simp add: w)
qed

lemma sys_reachable_inv:
  assumes "env_ok G level" "sys_reachable G level S"
  shows "sys_inv S"
  using assms(2) by (induction rule: sys_reachable.induct) (auto intro: boot_inv [OF assms(1)] sys_step_inv [OF assms(1)])


section \<open>Progress\<close>

text \<open>How far the messages in flight are from the monitor's response queue.\<close>
definition work :: "session \<Rightarrow> nat" where
  "work s = 5 * queue_len (q_at (s_mem s) (iobuf_queue 0 0)) + 4 * length (km_held s)
     + 3 * queue_len (q_at (s_mem s) (iobuf_queue 0 1)) + 2 * length (dev_held s) + queue_len (q_at (s_mem s) (iobuf_queue 0 2))"

lemma receive_next:
  assumes "rpc_ok q" "rpc_ids q = m # ms"
  shows "rpcmsg_receive q b = Inr (Some m, advance_cons q)" "queue_len q = Suc (queue_len (advance_cons q))"
proof -
  show "rpcmsg_receive q b = Inr (Some m, advance_cons q)" using rpc_rx_ok [OF assms] by (simp add: rpcmsg_receive_def)
  show "queue_len q = Suc (queue_len (advance_cons q))"
    using rpc_rx_ok [OF assms] assms(2) length_rpc_ids [of q] length_rpc_ids [of "advance_cons q"] by simp
qed

lemma session_progress:
  assumes I: "session_inv s"
    and busy: "rpc_ids (q_at (s_mem s) (iobuf_queue 0 0)) \<noteq> [] \<or> km_held s \<noteq> [] \<or> rpc_ids (q_at (s_mem s) (iobuf_queue 0 1)) \<noteq> [] \<or> dev_held s \<noteq> []"
  shows "\<exists>s'. backend_step s s' \<and> work s' < work s"
proof -
  note inv = session_invD [OF I]
  note ends = inv(5-7) [unfolded endpoint_ok_def]
  have ack: "\<exists>w. driver_rpc_ack_mmio_finish (Some r) (Some m) data (s_mem s) = Inr (0, w)
      \<and> queue_len (q_at w (iobuf_queue 0 0)) = queue_len (q_at (s_mem s) (iobuf_queue 0 0))
      \<and> queue_len (q_at w (iobuf_queue 0 1)) = queue_len (q_at (s_mem s) (iobuf_queue 0 1))
      \<and> queue_len (q_at w (iobuf_queue 0 2)) = Suc (queue_len (q_at (s_mem s) (iobuf_queue 0 2)))"
    if "m \<in> set (km_held s) \<union> set (dev_held s)" "r = s_km s \<or> r = s_dev s" for r m data
  proof (rule ack_cases [OF I that, of data])
    fix w q
    assume "driver_rpc_ack_mmio_finish (Some r) (Some m) data (s_mem s) = Inr (0, w)"
      "\<And>i. i < 3 \<Longrightarrow> q_at w (iobuf_queue 0 i) = (if i = 2 then q else q_at (s_mem s) (iobuf_queue 0 i))"
      "rpc_ids q = rpc_ids (q_at (s_mem s) (iobuf_queue 0 2)) @ [m]"
    moreover from this(3) have "queue_len q = Suc (queue_len (q_at (s_mem s) (iobuf_queue 0 2)))"
      by (metis length_append_singleton length_rpc_ids)
    ultimately show ?thesis by simp
  qed
  consider (q0) m ms where "rpc_ids (q_at (s_mem s) (iobuf_queue 0 0)) = m # ms" | (km) m ms where "km_held s = m # ms"
    | (q1) m ms where "rpc_ids (q_at (s_mem s) (iobuf_queue 0 1)) = m # ms" | (dev) m ms where "dev_held s = m # ms"
    using busy by (auto simp: neq_Nil_conv)
  then show ?thesis
  proof cases
    case q0
    note rx = receive_next [OF inv(2) q0]
    have "session_step s (s\<lparr>s_mem := put_q (request (driver_rpc (s_km s))) (advance_cons (q_at (s_mem s) (iobuf_queue 0 0))) (s_mem s), km_held := m # km_held s\<rparr>)"
      by (rule session_step.km_receive [where b = "[]"]) (use rx(1) ends in simp)
    with rx(2) ends inv(1) show ?thesis
      by (intro exI conjI) (auto simp: backend_step_def work_def)
  next
    case km
    obtain w where w: "driver_rpc_ack_mmio_finish (Some (s_km s)) (Some m) 0 (s_mem s) = Inr (0, w)"
      "queue_len (q_at w (iobuf_queue 0 0)) = queue_len (q_at (s_mem s) (iobuf_queue 0 0))"
      "queue_len (q_at w (iobuf_queue 0 1)) = queue_len (q_at (s_mem s) (iobuf_queue 0 1))"
      "queue_len (q_at w (iobuf_queue 0 2)) = Suc (queue_len (q_at (s_mem s) (iobuf_queue 0 2)))"
      using ack [of m "s_km s" 0] km by auto
    from session_step.km_reply [OF _ w(1)] km
    have "session_step s (s\<lparr>s_mem := w, km_held := ms\<rparr>)" by simp
    with w(2-) km show ?thesis by (intro exI conjI) (auto simp: backend_step_def work_def)
  next
    case q1
    note rx = receive_next [OF inv(3) q1]
    have "session_step s (s\<lparr>s_mem := put_q (request (driver_rpc (s_dev s))) (advance_cons (q_at (s_mem s) (iobuf_queue 0 1))) (s_mem s), dev_held := m # dev_held s\<rparr>)"
      by (rule session_step.dev_receive [where b = "[]"]) (use rx(1) ends in simp)
    with rx(2) ends inv(1) show ?thesis
      by (intro exI conjI) (auto simp: backend_step_def work_def)
  next
    case dev
    obtain w where w: "driver_rpc_ack_mmio_finish (Some (s_dev s)) (Some m) 0 (s_mem s) = Inr (0, w)"
      "queue_len (q_at w (iobuf_queue 0 0)) = queue_len (q_at (s_mem s) (iobuf_queue 0 0))"
      "queue_len (q_at w (iobuf_queue 0 1)) = queue_len (q_at (s_mem s) (iobuf_queue 0 1))"
      "queue_len (q_at w (iobuf_queue 0 2)) = Suc (queue_len (q_at (s_mem s) (iobuf_queue 0 2)))"
      using ack [of m "s_dev s" 0] dev by auto
    from session_step.dev_reply [OF _ w(1)] dev
    have "session_step s (s\<lparr>s_mem := w, dev_held := ms\<rparr>)" by simp
    with w(2-) dev show ?thesis by (intro exI conjI) (auto simp: backend_step_def work_def)
  qed
qed

lemma sys_progress:
  assumes env: "env_ok G level" and inv: "sys_inv S" and busy: "waiting (g_px (sys_mon S)) \<noteq> {}"
  shows "\<exists>S'. sys_step G S S' \<and> work (session_of S') < work (session_of S)"
proof -
  let ?s = "session_of S" let ?px = "g_px (sys_mon S)"
  note i = sys_invD [OF inv]
  have "lent_ids ?px \<noteq> {}" using i(8) busy by (auto simp: slots_match_def bij_betw_def)
  then have flight: "in_flight ?s \<noteq> []" using in_flight_facts(2) [OF i(1)] by auto
  show ?thesis
  proof (cases "rpc_ids (q_at (s_mem ?s) (iobuf_queue 0 0)) \<noteq> [] \<or> km_held ?s \<noteq> [] \<or> rpc_ids (q_at (s_mem ?s) (iobuf_queue 0 1)) \<noteq> [] \<or> dev_held ?s \<noteq> []")
    case True
    from session_progress [OF i(1) this] obtain s' where s': "backend_step ?s s'" "work s' < work ?s" by blast
    with sys_step.backend_moves [OF s'(1), of G] session_of_moves [OF inv s'(1)] show ?thesis by metis
  next
    case False
    then have "resp_ids ?px \<noteq> []" using flight by (auto simp: in_flight_def resp_ids_def vso_refs)
    then have pos: "0 < queue_len (q_at (px_mem ?px) (iobuf_queue 0 2))"
      by (simp add: resp_ids_def vso_refs flip: length_rpc_ids)
    obtain rc s' where run: "rpc_run G (sys_mon S) = Inr (rc, s')" "resp_ids (g_px s') = []" "io_keeps ?px (g_px s')"
      by (rule rpc_run_total [OF env inv]) blast
    have "queue_len (q_at (px_mem (g_px s')) (iobuf_queue 0 2)) = 0"
      using run(2) by (simp add: resp_ids_def vso_refs flip: length_rpc_ids)
    then have "work (session_of (S\<lparr>sys_mon := s'\<rparr>)) < work ?s"
      using run(3) pos by (simp add: work_def io_keeps_def)
    with sys_step.monitor_runs [OF run(1)] show ?thesis by blast
  qed
qed

lemma sys_drains:
  assumes env: "env_ok G level" and inv: "sys_inv S"
  shows "\<exists>S'. (sys_step G)\<^sup>*\<^sup>* S S' \<and> waiting (g_px (sys_mon S')) = {}"
  using inv
proof (induction "work (session_of S)" arbitrary: S rule: less_induct)
  case less
  show ?case
  proof (cases "waiting (g_px (sys_mon S)) = {}")
    case False
    obtain S1 where S1: "sys_step G S S1" "work (session_of S1) < work (session_of S)"
      using sys_progress [OF env less.prems False] by blast
    from less.hyps [OF S1(2) sys_step_inv [OF env S1(1) less.prems]] S1(1) show ?thesis
      by (meson converse_rtranclp_into_rtranclp)
  qed blast
qed


section \<open>A booted system\<close>

lemma demo_msi_zero: "v2m_init_irqs demo_ops self f i vm = Inr (rc, f', vm') \<Longrightarrow> rc = 0"
proof (induction "demo_ops" self f i vm rule: v2m_init_irqs.induct)
  case (1 self f i vm)
  show ?case
  proof (cases "i < unat (num_irq f)")
    case True
    then obtain line where line: "v2m_line f (of_nat i) = Inr line"
      using "1.prems" by (auto simp: v2m_init_irqs.simps [of demo_ops self f i vm] res_simps)
    obtain l' where run: "irq_line_init demo_ops line BOOT_VCPU (irq_base f + of_nat i) self vm = (0, l', vm)"
      by (simp add: irq_line_init_def demo_ops_def Let_def)
    from "1.prems" have "v2m_init_irqs demo_ops self (f\<lparr>v2m_irq := (v2m_irq f)[i := l']\<rparr>) (Suc i) vm = Inr (rc, f', vm')"
      using True line run by (simp add: v2m_init_irqs.simps [of demo_ops self f i vm])
    from "1.hyps" [OF True line run [symmetric] refl refl _ this] show ?thesis by simp
  qed (use "1.prems" in \<open>simp add: v2m_init_irqs.simps [of demo_ops self f i vm]\<close>)
qed

lemma demo_intx_zero: "irq_init_loop demo_ops X i st vm = Inr (rc, st', vm') \<Longrightarrow> rc = 0"
proof (induction "demo_ops" X i st vm rule: irq_init_loop.induct)
  case (1 X i st vm)
  show ?case
  proof (cases "i < PCI_NUM_PINS \<and> \<not> length (pci_intx st) \<le> i")
    case True
    obtain l' where run: "shared_irq_line_init demo_ops (pci_intx st ! i) BOOT_VCPU (INTERRUPT_PCI_INTX_BASE X + of_nat i) vm = (0, l', vm)"
      by (simp add: shared_irq_line_init_def demo_ops_def Let_def)
    from "1.prems" have "irq_init_loop demo_ops X (Suc i) (st\<lparr>pci_intx := (pci_intx st)[i := l']\<rparr>) vm = Inr (rc, st', vm')"
      using True run by (simp add: irq_init_loop.simps [of demo_ops X i st vm])
    from "1.hyps" [OF True [THEN conjunct1] True [THEN conjunct2] run [symmetric] refl refl _ this] show ?thesis by simp
  qed (use "1.prems" in \<open>auto simp: irq_init_loop.simps [of demo_ops X i st vm] split: if_splits\<close>)
qed

lemma demo_init_zero:
  assumes "libsel4vm_io_proxy_init demo_env 0 (vm_io_proxy_run demo_env 0) v2m m False s = Inr (rc, ini, s')" "g_v2m s = v2m_rpi4"
  shows "rc = 0"
proof -
  have msi: "e = 0" if "msi_init demo_ops v2m v2m_rpi4 vm = Inr (e, f, vm')" for e f vm vm'
    using that by (auto simp: msi_init_def v2m_init_def v2m_rpi4_def demo_ops_def [THEN arg_cong [where f = vm_reserve_memory_at]] GICV2M_IRQ_MAX_def res_simps
        dest: demo_msi_zero split: if_splits prod.splits)
  have emu: "emudev_init demo_lists Mmio_Fault_Handler st = (0, \<lparr>emu_handler = Some Mmio_Fault_Handler, emu_irqs = [], emu_mmios = []\<rparr>)" for st
    by (rule emudev_init_ok [OF demo_lists_ok])
  have run: "e = 0" if "vm_io_proxy_run demo_env 0 t = Inr (e, t')" for e t t'
    using that by (auto simp: vm_io_proxy_run_def res_simps)
  have ops: "g_ops demo_env = demo_ops" "g_lists demo_env = demo_lists" "g_pci_env demo_env = demo_pci" by (simp_all add: demo_env_def)
  have res: "\<exists>r vm1. vm_reserve_memory_at demo_ops a b h p vm = (Some r, vm1)" for a b h p vm by (simp add: demo_ops_def)
  note init = libsel4vm_io_proxy_init_def ops emu
  obtain px where px: "io_proxy_init 0 (g_px s) = Inr px" using assms(1) by (auto simp: init res_simps)
  obtain r vm1 where r: "vm_reserve_memory_at demo_ops (ctrl_base px) (ctrl_size px) Mmio_Fault_Handler (px_id px) (g_vm s) = (Some r, vm1)"
    using res by blast
  obtain e i st vm2 where irq: "irq_init demo_ops demo_pci False (g_pci s) vm1 = Inr (e, i, st, vm2)"
    using assms(1) by (cases "irq_init demo_ops demo_pci False (g_pci s) vm1") (auto simp: init px r)
  have e: "e = 0" using irq demo_intx_zero by (auto simp: irq_init_def res_simps split: if_splits)
  obtain e' f vm3 where m: "msi_init demo_ops v2m v2m_rpi4 vm2 = Inr (e', f, vm3)"
    using assms by (cases "msi_init demo_ops v2m v2m_rpi4 vm2") (auto simp: init px r irq e)
  show ?thesis
    using assms by (auto simp: init px r irq e m msi [OF m] res_simps dest: run split: option.splits if_splits)
qed

definition demo_loaded :: "demo_vm vmm" where
  "demo_loaded = (demo_vmm demo_proxy)\<lparr>g_v2m := v2m_rpi4, g_pci := demo_bus\<lparr>pci_devs := []\<rparr>\<rparr>"

lemma demo_env_ok: "env_ok demo_env demo_level"
  using demo_irq_spec demo_lists_ok by (simp add: env_ok_def demo_env_def bus_below_last_def demo_pci_def PCI_DEVFN_slot)

lemma demo_loaded_ok: "loaded demo_env demo_level demo_loaded"
proof -
  have q: "q_at (px_mem demo_proxy) (iobuf_queue b k) = rpcmsg_queue_init zero_queue" if "k < 4" for b k
    using that by (simp add: demo_proxy_def q_at_def zero_mem_def zero_queue_def rpcmsg_queue_init_def)
  have e: "b_at (px_mem demo_proxy) devevt_queue = replicate 32 zero_msg"
    by (simp add: demo_proxy_def vso_refs b_at_def zero_mem_def)
  have z: "rpc_ok (rpcmsg_queue_init zero_queue)" "rpc_ids (rpcmsg_queue_init zero_queue) = []"
    using queue_init_ok [of zero_queue] by (simp_all add: rpc_ok_def rpc_ids_def)
  have "proxy_static demo_proxy"
    using demo_proxy_ok(1) queue_init_ok [of zero_queue]
    by (simp add: proxy_static_def proxy_ok_def endpoint_ok_def event_ok_def e q vso_refs(7))
  moreover have "events demo_proxy = []" by (simp add: events_def event_msgs_def vso_refs(7) q)
  moreover have "lent_ids demo_proxy = {}" by (auto simp: lent_ids_def demo_proxy_def lent_Collect bitmap_test_def)
  moreover have "waiting demo_proxy = {}" by (auto simp: waiting_def demo_proxy_def)
  moreover have "natives_ok demo_natives"
    by (simp add: natives_ok_def SEL4_MMIO_NATIVE_BASE_def SEL4_MMIO_MAX_VCPU_def demo_natives_def)
  ultimately show ?thesis
    using z by (simp add: loaded_def demo_loaded_def demo_vmm_def demo_bus_def demo_vm0_def vso_refs q)
qed

lemma demo_reachable: "\<exists>S. sys_reachable demo_env demo_level S \<and> waiting (g_px (sys_mon S)) = {}"
proof -
  note l = demo_loaded_ok [unfolded loaded_def]
  have env: "irq_spec (g_ops demo_env) demo_level" "lists_ok (g_lists demo_env)" using demo_env_ok by (simp_all add: env_ok_def)
  have "\<exists>r vm1. vm_reserve_memory_at (g_ops demo_env) (ctrl_base (g_px demo_loaded)) (ctrl_size (g_px demo_loaded)) Mmio_Fault_Handler
      (px_id (g_px demo_loaded)) (g_vm demo_loaded) = (Some r, vm1)"
    by (simp add: demo_env_def demo_ops_def)
  then obtain r vm1 where res: "vm_reserve_memory_at (g_ops demo_env) (ctrl_base (g_px demo_loaded)) (ctrl_size (g_px demo_loaded)) Mmio_Fault_Handler
      (px_id (g_px demo_loaded)) (g_vm demo_loaded) = (Some r, vm1)" by blast
  obtain rc ini s' where init: "libsel4vm_io_proxy_init demo_env 0 (vm_io_proxy_run demo_env 0) 5
      (\<lambda>px. snd (handle_control QEMU_OP_START_VM zero_msg px)) False demo_loaded = Inr (rc, ini, s')"
      and acks: "rc = 0 \<longrightarrow> ioacks (g_px s') = ioacks (g_px demo_loaded)"
    using init_establishes [OF env _ _ _ _ _ res, of 5 zero_msg] l by blast
  have "rc = 0" by (rule demo_init_zero [OF init]) (simp add: demo_loaded_def)
  obtain km where km: "vso_rpc_init (Some zero_rpc) vso_rpc_device_km (Some 1) (px_mem (g_px s')) = Inr (0, Some km, px_mem (g_px s'))"
    by (simp add: vso_rpc_init_def vso_driver_rpc_init_def vso_rpc_driver_def vso_rpc_device_km_def Let_def)
  obtain dev where dev: "vso_rpc_init (Some zero_rpc) vso_rpc_device (Some 2) (px_mem (g_px s')) = Inr (0, Some dev, px_mem (g_px s'))"
    by (simp add: vso_rpc_init_def vso_driver_rpc_init_def vso_rpc_driver_def vso_rpc_device_km_def vso_rpc_device_def Let_def)
  from sys_boot [OF demo_loaded_ok init [unfolded \<open>rc = 0\<close>] km dev] l acks \<open>rc = 0\<close> show ?thesis
    by (intro exI conjI) (assumption, simp add: waiting_def)
qed


lemma fault_served:
  assumes inv: "sys_inv S" and vcpu: "vcpu < SEL4_MMIO_MAX_VCPU" "vcpu \<notin> waiting (g_px (sys_mon S))" and len: "len \<le> 8"
  shows "\<exists>px. mmio_fault_handler E vcpu paddr len (g_px (sys_mon S)) vm = Inr (FAULT_HANDLED, px)
    \<and> waiting px = insert vcpu (waiting (g_px (sys_mon S)))"
proof -
  let ?px = "g_px (sys_mon S)"
  have slot: "unat (of_nat vcpu :: u32) = vcpu" "unat (of_nat vcpu :: u32) < 32"
    using vcpu(1) by (simp_all add: SEL4_MMIO_MAX_VCPU_def unat_of_nat)
  have free: "ack_callback (ioacks ?px ! unat (of_nat vcpu :: u32)) = None"
    using vcpu sys_inv_proxy(3) [OF inv] by (simp add: slot waiting_def SEL4_MMIO_MAX_VCPU_def)
  have start: "\<exists>px. ioreq_start ?px (of_nat vcpu) Ioack_Vcpu_Read Ioack_Vcpu_Write vcpu (ucast AS_GLOBAL) dir paddr len val = Inr (0, px)
      \<and> waiting px = insert vcpu (waiting ?px)" for dir val
  proof (rule start_effect [OF inv refl slot(2) free len, of Ioack_Vcpu_Read Ioack_Vcpu_Write vcpu "ucast AS_GLOBAL" dir paddr val])
    fix px
    assume run: "ioreq_start ?px (of_nat vcpu) Ioack_Vcpu_Read Ioack_Vcpu_Write vcpu (ucast AS_GLOBAL) dir paddr len val = Inr (0, px)"
    from start_inv(3) [OF inv slot(2) run] run show ?thesis by (simp add: slot(1))
  qed
  show ?thesis
  proof (cases "is_vcpu_read_fault E vcpu vm")
    case True
    with start [of SEL4_IO_DIR_READ 0] show ?thesis by (auto simp: mmio_fault_handler_def Let_def)
  next
    case False
    with start [of SEL4_IO_DIR_WRITE "get_vcpu_fault_data E vcpu vm AND
        drop_bit (unat ((get_vcpu_fault_address E vcpu vm AND 0x3) * 8)) (get_vcpu_fault_data_mask E vcpu vm)"]
    show ?thesis by (auto simp: mmio_fault_handler_def Let_def)
  qed
qed

lemma demo_busy: "\<exists>S. sys_reachable demo_env demo_level S \<and> waiting (g_px (sys_mon S)) = {3}"
proof -
  obtain S where S: "sys_reachable demo_env demo_level S" "waiting (g_px (sys_mon S)) = {}" using demo_reachable by blast
  have cpu: "(3 :: nat) < SEL4_MMIO_MAX_VCPU" by (simp add: SEL4_MMIO_MAX_VCPU_def)
  obtain px where px: "mmio_fault_handler (g_ops demo_env) 3 0x60000010 4 (g_px (sys_mon S)) (g_vm (sys_mon S)) = Inr (FAULT_HANDLED, px)" "waiting px = {3}"
    using fault_served [OF sys_reachable_inv [OF demo_env_ok S(1)] cpu, of 4 "g_ops demo_env" "0x60000010" "g_vm (sys_mon S)"] S(2) by auto
  from sys_next [OF S(1) sys_step.guest_faults [OF cpu px(1)]] px(2) show ?thesis
    by (intro exI [of _ "put_proxy px S"]) simp
qed

section \<open>Property\<close>



end
