(* ===== verification/Trace.thy ===== *)
theory Trace
  imports Format
begin

text \<open>
  The kernel trace of \<open>src/camkes/modules/trace.c\<close> and \<open>include/tii/trace.h\<close>: the table of
  trace points, starting, stopping and printing a trace, and the memory a trace is shared in.
  The kernel's log and the allocators are library code: fields of \<open>trace_ops\<close> on a state \<open>'k\<close>.
\<close>

section \<open>Definitions\<close>

definition TRACE_POINT_MAX :: nat where "TRACE_POINT_MAX = 256"

record trace_entry =
  start_time :: u64
  entry_path :: u32
  entry_next :: u64

record cspacepath =
  path_root :: u64
  path_capPtr :: u64
  path_capDepth :: u64

record 'k trace_ops =
  seL4_BenchmarkResetLog :: "'k \<Rightarrow> 'k"
  seL4_BenchmarkFinalizeLog :: "'k \<Rightarrow> u32 \<times> 'k"
  Entry_Switch :: u32
  vka_alloc_frame :: "u64 \<Rightarrow> 'k \<Rightarrow> int \<times> u64 \<times> 'k"
  vspace_reserve_range_at :: "u64 \<Rightarrow> u64 \<Rightarrow> 'k \<Rightarrow> nat option \<times> 'k"
  vspace_map_pages_at_vaddr :: "u64 \<Rightarrow> u64 \<Rightarrow> u64 \<Rightarrow> nat \<Rightarrow> 'k \<Rightarrow> int \<times> 'k"
  vka_cspace_alloc :: "'k \<Rightarrow> int \<times> u64 \<times> 'k"
  vka_cspace_make_path :: "u64 \<Rightarrow> cspacepath"
  seL4_CNode_Copy :: "cspacepath \<Rightarrow> cspacepath \<Rightarrow> 'k \<Rightarrow> int \<times> 'k"
  vspace_map_pages :: "u64 \<Rightarrow> u64 \<Rightarrow> 'k \<Rightarrow> u64 option \<times> 'k"

text \<open>\<open>trace_names\<close> is an array of \<open>TRACE_POINT_MAX\<close> pointers, initially null.\<close>
record trace_state =
  trace_names :: "string option list"
  trace_names_count :: nat
  trace_started :: bool
  benchmark_entries :: u32
  kernel_trace :: "trace_entry list option"

text \<open>The search of \<open>trace_index\<close> from index \<open>i\<close> on; \<open>strcmp\<close> dereferences the entry.\<close>
function find_name :: "string \<Rightarrow> nat \<Rightarrow> trace_state \<Rightarrow> nat option res" where
  "find_name str i st =
     (if i < trace_names_count st then
        if length (trace_names st) \<le> i then Inl Out_Of_Bounds
        else case trace_names st ! i of
          None \<Rightarrow> Inl Null_Deref
        | Some s \<Rightarrow> if s = str then Inr (Some i) else find_name str (Suc i) st
      else Inr None)"
  by pat_completeness auto
termination
  by (relation "measure (\<lambda>(str, i, st). trace_names_count st - i)") auto

declare find_name.simps [simp del]

definition trace_index :: "string \<Rightarrow> trace_state \<Rightarrow> (u32 \<times> trace_state) res" where
  "trace_index str st =
     res_bind (find_name str 1 st) (\<lambda>found.
       case found of
         Some i \<Rightarrow> Inr (of_nat i, st)
       | None \<Rightarrow>
           if trace_names_count st = TRACE_POINT_MAX then Inl Fatal
           else if length (trace_names st) \<le> trace_names_count st then Inl Out_Of_Bounds
           else Inr (of_nat (trace_names_count st),
             st\<lparr>trace_names := (trace_names st)[trace_names_count st := Some str], trace_names_count := Suc (trace_names_count st)\<rparr>))"

text \<open>The macro \<open>trace\<close>, with its static variable \<open>idx\<close>.\<close>
definition trace_point :: "string \<Rightarrow> u32 \<Rightarrow> trace_state \<Rightarrow> (u32 \<times> trace_state) res" where
  "trace_point str idx st = (if idx = 0 then trace_index str st else Inr (idx, st))"

text \<open>\<open>pmuserenr_el0 & 1 == 0\<close> is \<open>pmuserenr_el0 & (1 == 0)\<close>.\<close>
definition trace_start :: "'k trace_ops \<Rightarrow> u64 \<Rightarrow> trace_state \<Rightarrow> 'k \<Rightarrow> (trace_state \<times> 'k) res" where
  "trace_start B pmuserenr_el0 st k =
     (if trace_started st then Inr (st, k)
      else if and pmuserenr_el0 (if (1 :: nat) = 0 then 1 else 0) \<noteq> 0 then Inl Fatal
      else Inr (st\<lparr>trace_started := True\<rparr>, seL4_BenchmarkResetLog B k))"

definition trace_stop :: "'k trace_ops \<Rightarrow> trace_state \<Rightarrow> 'k \<Rightarrow> trace_state \<times> 'k" where
  "trace_stop B st k =
     (case seL4_BenchmarkFinalizeLog B k of (n, k) \<Rightarrow> (st\<lparr>benchmark_entries := n, trace_started := False\<rparr>, k))"

text \<open>The lines \<open>trace_dump\<close> prints: the time and the next thread of a switch.\<close>
function dump_from :: "'k trace_ops \<Rightarrow> nat \<Rightarrow> trace_state \<Rightarrow> (u64 \<times> u64) list res" where
  "dump_from B i st =
     (if i < unat (benchmark_entries st) then
        case kernel_trace st of
          None \<Rightarrow> Inl Null_Deref
        | Some es \<Rightarrow>
            if length es \<le> i then Inl Out_Of_Bounds
            else res_bind (dump_from B (Suc i) st) (\<lambda>lines.
              Inr (if entry_path (es ! i) = Entry_Switch B then (start_time (es ! i), entry_next (es ! i)) # lines else lines))
      else Inr [])"
  by pat_completeness auto
termination
  by (relation "measure (\<lambda>(B, i, st). unat (benchmark_entries st) - i)") auto

declare dump_from.simps [simp del]

definition trace_dump :: "'k trace_ops \<Rightarrow> trace_state \<Rightarrow> (u64 \<times> u64) list res" where
  "trace_dump B st = dump_from B 0 st"

text \<open>With all rights; \<open>seL4_CNode_Copy\<close> takes the destination's and the source's root, index and depth.\<close>
definition vka_cnode_copy :: "'k trace_ops \<Rightarrow> u64 \<Rightarrow> u64 \<Rightarrow> 'k \<Rightarrow> int \<times> 'k" where
  "vka_cnode_copy B slot_src slot_dst k =
     (let src_path = vka_cspace_make_path B slot_src; dest_path = vka_cspace_make_path B slot_dst
      in seL4_CNode_Copy B dest_path src_path k)"

text \<open>The shared memory: the frame, its address in the guest and in the monitor.\<close>
definition trace_init_shared_mem :: "'k trace_ops \<Rightarrow> u64 \<Rightarrow> u64 \<Rightarrow> 'k \<Rightarrow> (u64 \<times> u64 \<times> u64 \<times> 'k) res" where
  "trace_init_shared_mem B mem_addr mem_size k =
     (case vka_alloc_frame B mem_size k of (err, frame, k) \<Rightarrow>
        if err \<noteq> 0 then Inl Fatal
        else if 64 \<le> mem_size then Inl Undefined_Shift
        else
          case vspace_reserve_range_at B mem_addr (push_bit (unat mem_size) 1) k of (reservation, k) \<Rightarrow>
            case reservation of
              None \<Rightarrow> Inl Assert_Failed
            | Some r \<Rightarrow>
                case vspace_map_pages_at_vaddr B frame mem_addr mem_size r k of (err, k) \<Rightarrow>
                  if err \<noteq> 0 then Inl Assert_Failed
                  else
                    case vka_cspace_alloc B k of (err, slot, k) \<Rightarrow>
                      if err \<noteq> 0 then Inl Assert_Failed
                      else
                        case vka_cnode_copy B frame slot k of (err, k) \<Rightarrow>
                          if err \<noteq> 0 then Inl Assert_Failed
                          else
                            case vspace_map_pages B slot mem_size k of (vaddr, k) \<Rightarrow>
                              (case vaddr of None \<Rightarrow> Inl Assert_Failed | Some v \<Rightarrow> Inr (frame, mem_addr, v, k)))"

section \<open>The table of trace points\<close>

text \<open>The pointers below the count are names, distinct from index 1 on; the others are null.\<close>
definition table_ok :: "trace_state \<Rightarrow> bool" where
  "table_ok st \<longleftrightarrow>
     (\<exists>ns. trace_names st = map Some ns @ replicate (TRACE_POINT_MAX - trace_names_count st) None
       \<and> length ns = trace_names_count st \<and> trace_names_count st \<le> TRACE_POINT_MAX \<and> distinct (tl ns))"

lemma find_name_cases:
  assumes "trace_names st = map Some ns @ rest" "length ns = trace_names_count st" "i \<le> trace_names_count st"
  shows "(\<exists>j. find_name str i st = Inr (Some j) \<and> i \<le> j \<and> j < length ns \<and> ns ! j = str)
    \<or> (find_name str i st = Inr None \<and> (\<forall>j. i \<le> j \<longrightarrow> j < length ns \<longrightarrow> ns ! j \<noteq> str))"
  using assms(3)
proof (induction "trace_names_count st - i" arbitrary: i)
  case 0
  with assms(2) show ?case by (simp add: find_name.simps)
next
  case (Suc n)
  then have i: "i < trace_names_count st" by simp
  with assms have nth: "trace_names st ! i = Some (ns ! i)" "\<not> length (trace_names st) \<le> i" by (simp_all add: nth_append)
  have IH: "(\<exists>j. find_name str (Suc i) st = Inr (Some j) \<and> Suc i \<le> j \<and> j < length ns \<and> ns ! j = str)
    \<or> (find_name str (Suc i) st = Inr None \<and> (\<forall>j. Suc i \<le> j \<longrightarrow> j < length ns \<longrightarrow> ns ! j \<noteq> str))"
    using Suc by auto
  show ?case
  proof (cases "ns ! i = str")
    case True
    with i nth assms(2) show ?thesis by (simp add: find_name.simps [of str i])
  next
    case False
    then have "find_name str i st = find_name str (Suc i) st" using i nth by (simp add: find_name.simps [of str i])
    with IH False show ?thesis by (metis Suc_le_eq le_neq_implies_less less_imp_le)
  qed
qed

lemma find_name_unique:
  assumes "trace_names st = map Some ns @ rest" "length ns = trace_names_count st" "distinct (tl ns)" "0 < j" "j < length ns"
  shows "find_name (ns ! j) 1 st = Inr (Some j)"
proof -
  have le: "1 \<le> trace_names_count st" using assms(2,5) by simp
  have eq: "i = j" if "1 \<le> i" "i < length ns" "ns ! i = ns ! j" for i
  proof -
    have "tl ns ! (i - 1) = tl ns ! (j - 1)" "i - 1 < length (tl ns)" "j - 1 < length (tl ns)" using that assms(4,5) by (simp_all add: nth_tl)
    then have "i - 1 = j - 1" using assms(3) nth_eq_iff_index_eq by blast
    with that assms(4) show ?thesis by simp
  qed
  from find_name_cases [OF assms(1,2) le, of "ns ! j"] eq assms(4,5) show ?thesis by (metis One_nat_def Suc_leI)
qed

lemma distinct_tl_snoc:
  assumes "distinct (tl ns)" "\<forall>j. 0 < j \<longrightarrow> j < length ns \<longrightarrow> ns ! j \<noteq> x"
  shows "distinct (tl (ns @ [x]))"
proof (cases ns)
  case (Cons a l)
  have "l ! k \<noteq> x" if "k < length l" for k using assms(2) [rule_format, of "Suc k"] that Cons by simp
  then have "x \<notin> set l" by (auto simp: in_set_conv_nth)
  with assms(1) Cons show ?thesis by simp
qed simp

text \<open>A name that the search does not find gets the next index, and keeps it unless it is 0.\<close>
lemma trace_index_fresh:
  assumes ns: "trace_names st = map Some ns @ replicate (TRACE_POINT_MAX - trace_names_count st) None" "length ns = trace_names_count st"
      "distinct (tl ns)" "trace_names_count st < TRACE_POINT_MAX"
    and new: "\<forall>j. 0 < j \<longrightarrow> j < length ns \<longrightarrow> ns ! j \<noteq> str" and none: "find_name str 1 st = Inr None"
  obtains st' where "trace_index str st = Inr (of_nat (trace_names_count st), st')" "table_ok st'"
    "trace_names st' ! trace_names_count st = Some str" "\<forall>j < trace_names_count st. trace_names st' ! j = trace_names st ! j"
    "0 < trace_names_count st \<Longrightarrow> trace_index str st' = Inr (of_nat (trace_names_count st), st')"
proof
  let ?st = "st\<lparr>trace_names := (trace_names st)[trace_names_count st := Some str], trace_names_count := Suc (trace_names_count st)\<rparr>"
  from ns(4) obtain k where k: "TRACE_POINT_MAX - trace_names_count st = Suc k" "TRACE_POINT_MAX - Suc (trace_names_count st) = k"
    by (metis Suc_diff_Suc)
  then have names: "trace_names ?st = map Some (ns @ [str]) @ replicate k None" using ns(1,2) by (simp add: list_update_append)
  have dist: "distinct (tl (ns @ [str]))" using ns(3) new by (rule distinct_tl_snoc)
  show "table_ok ?st" using names k ns(2,4) dist unfolding table_ok_def by (intro exI [of _ "ns @ [str]"]) simp
  show "trace_index str st = Inr (of_nat (trace_names_count st), ?st)" using none ns by (simp add: trace_index_def)
  show "trace_index str ?st = Inr (of_nat (trace_names_count st), ?st)" if "0 < trace_names_count st"
    using find_name_unique [OF names _ dist, of "trace_names_count st"] that ns(2) by (simp add: trace_index_def nth_append)
qed (use ns in \<open>simp_all add: nth_append\<close>)

section \<open>Properties\<close>

text \<open>
  C31. The table of trace points stays well-formed: when a name is known or there is room,
  \<open>trace_index\<close> returns an index of the table that holds the name, keeps every earlier index,
  and, unless the index is 0, returns the same index for the name from then on. Without room
  an unknown name stops the monitor.\<close>
theorem trace_index_table:
  assumes "table_ok st"
  shows "if trace_names_count st = TRACE_POINT_MAX \<and> (\<forall>j. 0 < j \<longrightarrow> j < TRACE_POINT_MAX \<longrightarrow> trace_names st ! j \<noteq> Some str)
    then trace_index str st = Inl Fatal
    else \<exists>i st'. trace_index str st = Inr (of_nat i, st') \<and> table_ok st' \<and> i < TRACE_POINT_MAX \<and> trace_names st' ! i = Some str
      \<and> (\<forall>j < trace_names_count st. trace_names st' ! j = trace_names st ! j)
      \<and> (0 < i \<longrightarrow> trace_index str st' = Inr (of_nat i, st'))"
proof -
  obtain ns where ns: "trace_names st = map Some ns @ replicate (TRACE_POINT_MAX - trace_names_count st) None"
    "length ns = trace_names_count st" "trace_names_count st \<le> TRACE_POINT_MAX" "distinct (tl ns)"
    using assms by (auto simp: table_ok_def)
  have known: "trace_names st ! j = Some (ns ! j)" if "j < length ns" for j using that ns by (simp add: nth_append)
  consider (found) j where "0 < j" "j < length ns" "ns ! j = str" | (new) "\<forall>j. 0 < j \<longrightarrow> j < length ns \<longrightarrow> ns ! j \<noteq> str" by blast
  then show ?thesis
  proof cases
    case found
    then have "trace_index str st = Inr (of_nat j, st)" using find_name_unique [OF ns(1,2,4)] by (auto simp: trace_index_def)
    with found known [of j] assms ns show ?thesis by auto
  next
    case new
    have none: "find_name str 1 st = Inr None"
    proof (cases "1 \<le> trace_names_count st")
      case True
      from find_name_cases [OF ns(1,2) True, of str] new show ?thesis by (auto simp: Suc_le_eq)
    qed (simp add: find_name.simps)
    show ?thesis
    proof (cases "trace_names_count st = TRACE_POINT_MAX")
      case True
      with none new ns known show ?thesis by (auto simp: trace_index_def)
    next
      case False
      then have lt: "trace_names_count st < TRACE_POINT_MAX" using ns(3) by simp
      from False have room: "\<not> (trace_names_count st = TRACE_POINT_MAX \<and> (\<forall>j. 0 < j \<longrightarrow> j < TRACE_POINT_MAX \<longrightarrow> trace_names st ! j \<noteq> Some str))"
        by blast
      obtain st' where "trace_index str st = Inr (of_nat (trace_names_count st), st')" "table_ok st'"
          "trace_names st' ! trace_names_count st = Some str" "\<forall>j < trace_names_count st. trace_names st' ! j = trace_names st ! j"
          "0 < trace_names_count st \<longrightarrow> trace_index str st' = Inr (of_nat (trace_names_count st), st')"
        by (rule trace_index_fresh [OF ns(1,2,4) lt new none]) simp
      with lt show ?thesis
        unfolding if_not_P [OF room] by (intro exI [of _ "trace_names_count st"] exI [of _ st']) simp
    qed
  qed
qed

definition trace_initial :: trace_state where
  "trace_initial = \<lparr>trace_names = replicate TRACE_POINT_MAX None, trace_names_count = 0, trace_started = False,
     benchmark_entries = 0, kernel_trace = None\<rparr>"

lemma table_ok_initial: "table_ok trace_initial"
  by (simp add: table_ok_def trace_initial_def)

theorem trace_index_table_witness:
  "\<exists>i st'. trace_index ''fault'' trace_initial = Inr (of_nat i, st') \<and> trace_names st' ! i = Some ''fault''"
  using trace_index_table [OF table_ok_initial, of "''fault''"] by (auto simp: trace_initial_def TRACE_POINT_MAX_def)

text \<open>
  The first trace point ever asked for gets index 0, although the header promises an index
  of at least 1, and the promise of a fixed index fails for it: asked for again it gets the
  index 1, which it keeps.\<close>
lemma first_trace_index_zero:
  "\<exists>st1 st2. trace_index str trace_initial = Inr (0, st1) \<and> trace_point str 0 st1 = Inr (1, st2) \<and> trace_index str st2 = Inr (1, st2)
     \<and> trace_names st2 ! 0 = Some str \<and> trace_names st2 ! 1 = Some str"
  by (simp add: trace_index_def trace_point_def trace_initial_def find_name.simps TRACE_POINT_MAX_def numeral_eq_Suc)

text \<open>
  The check for the performance counters never fires: whatever \<open>pmuserenr_el0\<close> holds, and
  also with the counters disabled at EL0, \<open>trace_start\<close> returns and tracing is on.\<close>
lemma trace_start_unchecked: "\<exists>st' k'. trace_start B pmuserenr_el0 st k = Inr (st', k') \<and> trace_started st'"
  by (simp add: trace_start_def)

lemma dump_from_spec:
  assumes "kernel_trace st = Some es" "unat (benchmark_entries st) \<le> length es"
  shows "i \<le> unat (benchmark_entries st) \<Longrightarrow> dump_from B i st =
    Inr (map (\<lambda>e. (start_time e, entry_next e)) (filter (\<lambda>e. entry_path e = Entry_Switch B) (drop i (take (unat (benchmark_entries st)) es))))"
proof (induction "unat (benchmark_entries st) - i" arbitrary: i)
  case 0
  then show ?case by (simp add: dump_from.simps)
next
  case (Suc n)
  then have i: "i < unat (benchmark_entries st)" by simp
  with assms have "drop i (take (unat (benchmark_entries st)) es) = es ! i # drop (Suc i) (take (unat (benchmark_entries st)) es)"
    using Cons_nth_drop_Suc [of i "take (unat (benchmark_entries st)) es"] by simp
  with Suc i assms show ?case by (simp add: dump_from.simps [of B i])
qed

text \<open>
  A stopped trace prints its thread switches: after \<open>trace_stop\<close> the dump lists, in order,
  the time and the next thread of exactly those of the logged entries that are switches; a
  log longer than the buffer is read past its end.\<close>
lemma stopped_trace_dumps_switches:
  assumes "kernel_trace st = Some es" "trace_stop B st k = (st', k')"
  shows "\<not> trace_started st' \<and>
    (if unat (benchmark_entries st') \<le> length es
     then trace_dump B st' = Inr (map (\<lambda>e. (start_time e, entry_next e))
       (filter (\<lambda>e. entry_path e = Entry_Switch B) (take (unat (benchmark_entries st')) es)))
     else trace_dump B st' = Inl Out_Of_Bounds)"
proof -
  have st': "kernel_trace st' = Some es" "\<not> trace_started st'" using assms by (auto simp: trace_stop_def split: prod.splits)
  have past: "dump_from B i st' = Inl Out_Of_Bounds" if "length es < unat (benchmark_entries st')" "i \<le> length es" for i
    using that
  proof (induction "length es - i" arbitrary: i)
    case 0
    with st' show ?case by (simp add: dump_from.simps)
  next
    case (Suc n)
    then have "dump_from B (Suc i) st' = Inl Out_Of_Bounds" by simp
    with Suc st' show ?case by (simp add: dump_from.simps [of B i])
  qed
  show ?thesis using dump_from_spec [OF st'(1), of 0 B] past [of 0] st'(2) by (simp add: trace_dump_def not_le)
qed

end
