(* ===== verification/Trace_Init.thy ===== *)
theory Trace_Init
  imports Trace
begin

unbundle bit_operations_syntax

text \<open>
  The initialisation of \<open>src/camkes/modules/trace.c\<close>: the memory for the kernel's log and for
  the guest's ramoops, and their device tree nodes.

  \<open>fdt_generate_trace_nodes\<close> calls \<open>fdt_generate_reserved_node\<close> without a prototype, with \<open>int\<close>
  arguments for parameters of 64 bits and with one argument more than it has. What such a
  call does is not defined by C, so the call is a parameter (\<open>reserved_node_call\<close>).
\<close>

section \<open>Definitions\<close>

text \<open>The weak constants of the file, each an \<open>int\<close>.\<close>
record trace_config =
  tracebuffer_base :: u32
  tracebuffer_size :: u32
  ramoops_base :: u32
  ramoops_size :: u32

record ('k, 'f) trace_env =
  trace_lib :: "'k trace_ops"
  seL4_LargePageBits :: u64
  seL4_BenchmarkSetLogBuffer :: "u64 \<Rightarrow> 'k \<Rightarrow> int \<times> 'k"
  reserved_node_call :: "string \<Rightarrow> string \<Rightarrow> u32 \<Rightarrow> u32 \<Rightarrow> 'f \<Rightarrow> int \<times> 'f"

text \<open>A frame with its address in the guest and in the monitor.\<close>
record trace_mem =
  tm_frame :: u64
  tm_vm :: u64
  tm_vmm :: u64

definition fdt_generate_trace_nodes :: "('k, 'f) trace_env \<Rightarrow> trace_config \<Rightarrow> 'f \<Rightarrow> int \<times> 'f" where
  "fdt_generate_trace_nodes X c gen_fdt =
     (case (if tracebuffer_base c \<noteq> 0 \<and> tracebuffer_size c \<noteq> 0
            then reserved_node_call X ''sel4_tracebuffer'' ''sel4_tracebuffer'' (tracebuffer_base c) (tracebuffer_size c) gen_fdt
            else (0, gen_fdt)) of (err, gen_fdt) \<Rightarrow>
        if err < 0 then (err, gen_fdt)
        else
          case (if ramoops_base c \<noteq> 0 \<and> ramoops_size c \<noteq> 0
                then reserved_node_call X ''ramoops'' ''ramoops'' (ramoops_base c) (ramoops_size c) gen_fdt
                else (0, gen_fdt)) of (err, gen_fdt) \<Rightarrow>
            if err < 0 then (err, gen_fdt) else (0, gen_fdt))"

text \<open>
  One of the two blocks of \<open>trace_init\<close> up to the shared memory: nothing unless both constants
  are set; the size has to be that of a large page. The \<open>int\<close> values are sign-extended.
\<close>
definition trace_region :: "('k, 'f) trace_env \<Rightarrow> u32 \<Rightarrow> u32 \<Rightarrow> 'k \<Rightarrow> (trace_mem option \<times> 'k) res" where
  "trace_region X base sz k =
     (if base \<noteq> 0 \<and> sz \<noteq> 0 then
        if 64 \<le> seL4_LargePageBits X then Inl Undefined_Shift
        else if scast sz \<noteq> (push_bit (unat (seL4_LargePageBits X)) 1 :: u64) then Inl Fatal
        else res_bind (trace_init_shared_mem (trace_lib X) (scast base) (seL4_LargePageBits X) k) (\<lambda>(frame, va, v, k).
               Inr (Some \<lparr>tm_frame = frame, tm_vm = va, tm_vmm = v\<rparr>, k))
      else Inr (None, k))"

text \<open>The memory of the guest's ramoops and of the kernel's log, the device tree and the kernel.\<close>
definition trace_init :: "('k, 'f) trace_env \<Rightarrow> trace_config \<Rightarrow> 'f \<Rightarrow> 'k \<Rightarrow> (trace_mem option \<times> trace_mem option \<times> 'f \<times> 'k) res" where
  "trace_init X c gen_dtb_buf k =
     res_bind (trace_region X (ramoops_base c) (ramoops_size c) k) (\<lambda>(pstore, k).
     res_bind (trace_region X (tracebuffer_base c) (tracebuffer_size c) k) (\<lambda>(log, k).
     res_bind (case log of None \<Rightarrow> Inr k
               | Some m \<Rightarrow> (case seL4_BenchmarkSetLogBuffer X (tm_frame m) k of (err, k) \<Rightarrow> if err \<noteq> 0 then Inl Fatal else Inr k)) (\<lambda>k.
       case fdt_generate_trace_nodes X c gen_dtb_buf of (err, gen_dtb_buf) \<Rightarrow>
         if err \<noteq> 0 then Inl Fatal else Inr (pstore, log, gen_dtb_buf, k))))"

section \<open>The allocators\<close>

text \<open>
  What the capability and address space functions of seL4's libraries do: \<open>obj\<close> is the object
  a capability slot refers to, \<open>guest\<close> and \<open>vmm\<close> what is mapped at an address of the guest and
  of the monitor.
\<close>
definition trace_spec ::
  "'k trace_ops \<Rightarrow> ('k \<Rightarrow> u64 \<Rightarrow> nat option) \<Rightarrow> ('k \<Rightarrow> u64 \<Rightarrow> nat option) \<Rightarrow> ('k \<Rightarrow> u64 \<Rightarrow> nat option) \<Rightarrow> bool" where
  "trace_spec B obj guest vmm \<longleftrightarrow>
     (\<forall>b k c k'. vka_alloc_frame B b k = (0, c, k') \<longrightarrow> obj k c = None \<and> (\<exists>x. obj k' = (obj k)(c \<mapsto> x)) \<and> guest k' = guest k \<and> vmm k' = vmm k)
     \<and> (\<forall>a n k r k'. vspace_reserve_range_at B a n k = (r, k') \<longrightarrow> obj k' = obj k \<and> guest k' = guest k \<and> vmm k' = vmm k)
     \<and> (\<forall>c a b r k k'. vspace_map_pages_at_vaddr B c a b r k = (0, k') \<longrightarrow> guest k' = (guest k)(a := obj k c) \<and> obj k' = obj k \<and> vmm k' = vmm k)
     \<and> (\<forall>k s k'. vka_cspace_alloc B k = (0, s, k') \<longrightarrow> obj k s = None \<and> obj k' = obj k \<and> guest k' = guest k \<and> vmm k' = vmm k)
     \<and> (\<forall>d s k k'. seL4_CNode_Copy B (vka_cspace_make_path B d) (vka_cspace_make_path B s) k = (0, k') \<longrightarrow>
          obj k' = (obj k)(d := obj k s) \<and> guest k' = guest k \<and> vmm k' = vmm k)
     \<and> (\<forall>c b k v k'. vspace_map_pages B c b k = (Some v, k') \<longrightarrow> vmm k v = None \<and> vmm k' = (vmm k)(v := obj k c) \<and> obj k' = obj k \<and> guest k' = guest k)"

lemma trace_specD:
  assumes "trace_spec B obj guest vmm"
  shows "vka_alloc_frame B b k = (0, c, k') \<Longrightarrow> obj k c = None \<and> (\<exists>x. obj k' = (obj k)(c \<mapsto> x)) \<and> guest k' = guest k \<and> vmm k' = vmm k"
    "vspace_reserve_range_at B a n k = (r, k') \<Longrightarrow> obj k' = obj k \<and> guest k' = guest k \<and> vmm k' = vmm k"
    "vspace_map_pages_at_vaddr B c a b r' k = (0, k') \<Longrightarrow> guest k' = (guest k)(a := obj k c) \<and> obj k' = obj k \<and> vmm k' = vmm k"
    "vka_cspace_alloc B k = (0, s, k') \<Longrightarrow> obj k s = None \<and> obj k' = obj k \<and> guest k' = guest k \<and> vmm k' = vmm k"
    "seL4_CNode_Copy B (vka_cspace_make_path B d) (vka_cspace_make_path B s) k = (0, k') \<Longrightarrow>
       obj k' = (obj k)(d := obj k s) \<and> guest k' = guest k \<and> vmm k' = vmm k"
    "vspace_map_pages B c b k = (Some v, k') \<Longrightarrow> vmm k v = None \<and> vmm k' = (vmm k)(v := obj k c) \<and> obj k' = obj k \<and> guest k' = guest k"
proof -
  note s = assms [unfolded trace_spec_def]
  show "vka_alloc_frame B b k = (0, c, k') \<Longrightarrow> obj k c = None \<and> (\<exists>x. obj k' = (obj k)(c \<mapsto> x)) \<and> guest k' = guest k \<and> vmm k' = vmm k"
    using s [THEN conjunct1] by blast
  show "vspace_reserve_range_at B a n k = (r, k') \<Longrightarrow> obj k' = obj k \<and> guest k' = guest k \<and> vmm k' = vmm k"
    using s [THEN conjunct2, THEN conjunct1] by blast
  show "vspace_map_pages_at_vaddr B c a b r' k = (0, k') \<Longrightarrow> guest k' = (guest k)(a := obj k c) \<and> obj k' = obj k \<and> vmm k' = vmm k"
    using s [THEN conjunct2, THEN conjunct2, THEN conjunct1] by blast
  show "vka_cspace_alloc B k = (0, s, k') \<Longrightarrow> obj k s = None \<and> obj k' = obj k \<and> guest k' = guest k \<and> vmm k' = vmm k"
    using s [THEN conjunct2, THEN conjunct2, THEN conjunct2, THEN conjunct1] by blast
  show "seL4_CNode_Copy B (vka_cspace_make_path B d) (vka_cspace_make_path B s) k = (0, k') \<Longrightarrow>
       obj k' = (obj k)(d := obj k s) \<and> guest k' = guest k \<and> vmm k' = vmm k"
    using s [THEN conjunct2, THEN conjunct2, THEN conjunct2, THEN conjunct2, THEN conjunct1] by blast
  show "vspace_map_pages B c b k = (Some v, k') \<Longrightarrow> vmm k v = None \<and> vmm k' = (vmm k)(v := obj k c) \<and> obj k' = obj k \<and> guest k' = guest k"
    using s [THEN conjunct2, THEN conjunct2, THEN conjunct2, THEN conjunct2, THEN conjunct2] by blast
qed

text \<open>A frame as both sides see it.\<close>
definition shared_at :: "('k \<Rightarrow> u64 \<Rightarrow> nat option) \<Rightarrow> ('k \<Rightarrow> u64 \<Rightarrow> nat option) \<Rightarrow> ('k \<Rightarrow> u64 \<Rightarrow> nat option) \<Rightarrow> trace_mem \<Rightarrow> 'k \<Rightarrow> bool" where
  "shared_at obj guest vmm m k \<longleftrightarrow> (\<exists>x. obj k (tm_frame m) = Some x \<and> guest k (tm_vm m) = Some x \<and> vmm k (tm_vmm m) = Some x)"

lemma shared_mem_steps:
  assumes "trace_init_shared_mem B mem_addr bits k = Inr (frame, va, v, k')"
  obtains k1 k2 k3 k4 k5 r slot where "vka_alloc_frame B bits k = (0, frame, k1)"
    "vspace_reserve_range_at B mem_addr (push_bit (unat bits) 1) k1 = (Some r, k2)"
    "vspace_map_pages_at_vaddr B frame mem_addr bits r k2 = (0, k3)" "vka_cspace_alloc B k3 = (0, slot, k4)"
    "seL4_CNode_Copy B (vka_cspace_make_path B slot) (vka_cspace_make_path B frame) k4 = (0, k5)"
    "vspace_map_pages B slot bits k5 = (Some v, k')" "va = mem_addr"
proof -
  obtain e1 f k1 where 1: "vka_alloc_frame B bits k = (e1, f, k1)" by (metis prod_cases3)
  obtain r k2 where 2: "vspace_reserve_range_at B mem_addr (push_bit (unat bits) 1) k1 = (r, k2)" by fastforce
  obtain e3 k3 where 3: "vspace_map_pages_at_vaddr B f mem_addr bits (the r) k2 = (e3, k3)" by fastforce
  obtain e4 slot k4 where 4: "vka_cspace_alloc B k3 = (e4, slot, k4)" by (metis prod_cases3)
  obtain e5 k5 where 5: "seL4_CNode_Copy B (vka_cspace_make_path B slot) (vka_cspace_make_path B f) k4 = (e5, k5)" by fastforce
  obtain v' k6 where 6: "vspace_map_pages B slot bits k5 = (v', k6)" by fastforce
  obtain r' where r: "r = Some r'" using assms 1 2 by (cases r) (simp_all add: trace_init_shared_mem_def split: if_splits)
  have "e1 = 0" "e3 = 0" "e4 = 0" "e5 = 0" "v' = Some v" "k6 = k'" "f = frame" "va = mem_addr"
    using assms 1 2 3 4 5 6 r
    by (simp_all add: trace_init_shared_mem_def vka_cnode_copy_def Let_def split: if_splits option.splits)
  with that 1 2 3 4 5 6 r show thesis by simp
qed

lemma shared_mem_addr: "trace_init_shared_mem B mem_addr bits k = Inr (frame, va, v, k') \<Longrightarrow> va = mem_addr"
  by (rule shared_mem_steps)

lemma shared_mem_shared:
  assumes spec: "trace_spec B obj guest vmm" and run: "trace_init_shared_mem B mem_addr bits k = Inr (frame, va, v, k')"
  shows "va = mem_addr" "shared_at obj guest vmm \<lparr>tm_frame = frame, tm_vm = va, tm_vmm = v\<rparr> k'"
    "shared_at obj guest vmm m k \<Longrightarrow> tm_vm m \<noteq> mem_addr \<Longrightarrow> shared_at obj guest vmm m k'"
proof -
  obtain k1 k2 k3 k4 k5 r slot where s: "vka_alloc_frame B bits k = (0, frame, k1)"
    "vspace_reserve_range_at B mem_addr (push_bit (unat bits) 1) k1 = (Some r, k2)"
    "vspace_map_pages_at_vaddr B frame mem_addr bits r k2 = (0, k3)" "vka_cspace_alloc B k3 = (0, slot, k4)"
    "seL4_CNode_Copy B (vka_cspace_make_path B slot) (vka_cspace_make_path B frame) k4 = (0, k5)"
    "vspace_map_pages B slot bits k5 = (Some v, k')" "va = mem_addr"
    by (rule shared_mem_steps [OF run])
  note t = trace_specD(1) [OF spec s(1)] trace_specD(2) [OF spec s(2)] trace_specD(3) [OF spec s(3)] trace_specD(4) [OF spec s(4)]
    trace_specD(5) [OF spec s(5)] trace_specD(6) [OF spec s(6)]
  from t(1) obtain x where x: "obj k1 = (obj k)(frame \<mapsto> x)" by blast
  have keep: "guest k1 = guest k" "vmm k1 = vmm k" "obj k frame = None" using t(1) by blast+
  have o3: "obj k4 = (obj k)(frame \<mapsto> x)" "guest k4 = (guest k)(mem_addr \<mapsto> x)" "vmm k4 = vmm k"
    using t(2-4) x keep by simp_all
  have slot: "slot \<noteq> frame" "obj k slot = None" using t(2-4) x by (auto split: if_splits)
  have obj: "obj k' = (obj k)(frame \<mapsto> x, slot \<mapsto> x)" and guest: "guest k' = (guest k)(mem_addr \<mapsto> x)"
    and vmm: "vmm k' = (vmm k)(v \<mapsto> x)" and new: "vmm k v = None"
    using t(5,6) o3 by simp_all
  show "va = mem_addr" by (rule s(7))
  show "shared_at obj guest vmm \<lparr>tm_frame = frame, tm_vm = va, tm_vmm = v\<rparr> k'"
    using slot s(7) by (simp add: shared_at_def obj guest vmm)
  show "shared_at obj guest vmm m k'" if "shared_at obj guest vmm m k" "tm_vm m \<noteq> mem_addr"
    using that new keep(3) slot(2) by (auto simp: shared_at_def obj guest vmm)
qed

lemma trace_init_steps:
  assumes "trace_init X c dtb k = Inr (pstore, log, dtb', k')"
  obtains k1 k2 where "trace_region X (ramoops_base c) (ramoops_size c) k = Inr (pstore, k1)"
    "trace_region X (tracebuffer_base c) (tracebuffer_size c) k1 = Inr (log, k2)"
    "case log of None \<Rightarrow> k' = k2 | Some m \<Rightarrow> seL4_BenchmarkSetLogBuffer X (tm_frame m) k2 = (0, k')"
proof -
  obtain e0 d where fdt: "fdt_generate_trace_nodes X c dtb = (e0, d)" by fastforce
  obtain p k1 l k2 where r: "trace_region X (ramoops_base c) (ramoops_size c) k = Inr (p, k1)"
    "trace_region X (tracebuffer_base c) (tracebuffer_size c) k1 = Inr (l, k2)"
    using assms by (auto simp: trace_init_def res_simps)
  show thesis
  proof (cases l)
    case None
    with assms r fdt that show thesis by (auto simp: trace_init_def split: if_splits)
  next
    case (Some m)
    obtain e k3 where "seL4_BenchmarkSetLogBuffer X (tm_frame m) k2 = (e, k3)" by fastforce
    with assms r fdt that Some show thesis by (auto simp: trace_init_def split: if_splits)
  qed
qed

lemma scast_u32_inj: "scast a = (scast b :: u64) \<Longrightarrow> a = (b :: u32)"
proof (rule bit_word_eqI)
  fix n assume eq: "scast a = (scast b :: u64)" and n: "n < LENGTH(32)"
  then have "bit (scast a :: u64) n = bit (scast b :: u64) n" by simp
  with n show "bit a n = bit b n" by (simp add: bit_simps)
qed

section \<open>Properties\<close>



text \<open>
  An address from 2 GiB on is sign-extended on its way to the guest's address space, since
  the constant that holds it is an \<open>int\<close>.
\<close>
lemma trace_base_sign_extended:
  assumes "trace_init X c dtb k = Inr (pstore, Some m, dtb', k')" "bit (tracebuffer_base c) 31"
  shows "tm_vm m = scast (tracebuffer_base c)" "bit (tm_vm m) 63"
proof -
  obtain k1 k2 where "trace_region X (tracebuffer_base c) (tracebuffer_size c) k1 = Inr (Some m, k2)"
    by (rule trace_init_steps [OF assms(1)])
  then show eq: "tm_vm m = scast (tracebuffer_base c)"
    by (auto simp: trace_region_def res_simps dest: shared_mem_addr split: if_splits)
  show "bit (tm_vm m) 63" using assms(2) by (simp add: eq bit_simps)
qed

section \<open>A configuration\<close>

text \<open>A machine that never refuses: capability slots, the two address spaces and a counter.\<close>
record demo_kernel =
  dk_obj :: "u64 \<Rightarrow> nat option"
  dk_guest :: "u64 \<Rightarrow> nat option"
  dk_vmm :: "u64 \<Rightarrow> nat option"

definition first_free :: "(u64 \<Rightarrow> nat option) \<Rightarrow> u64 option" where
  "first_free f = find (\<lambda>c. f c = None) [1, 2, 3, 4, 5, 6, 7, 8]"

lemma first_free_None: "first_free f = Some c \<Longrightarrow> f c = None"
  unfolding first_free_def find_Some_iff by blast

definition demo_trace_ops :: "demo_kernel trace_ops" where
  "demo_trace_ops = \<lparr>seL4_BenchmarkResetLog = id, seL4_BenchmarkFinalizeLog = (\<lambda>k. (0, k)), Entry_Switch = 3,
     vka_alloc_frame = (\<lambda>bits k. case first_free (dk_obj k) of None \<Rightarrow> (-1, 0, k) | Some c \<Rightarrow> (0, c, k\<lparr>dk_obj := (dk_obj k)(c \<mapsto> unat c)\<rparr>)),
     vspace_reserve_range_at = (\<lambda>a n k. (Some 0, k)),
     vspace_map_pages_at_vaddr = (\<lambda>c a bits r k. (0, k\<lparr>dk_guest := (dk_guest k)(a := dk_obj k c)\<rparr>)),
     vka_cspace_alloc = (\<lambda>k. case first_free (dk_obj k) of None \<Rightarrow> (-1, 0, k) | Some c \<Rightarrow> (0, c, k)),
     vka_cspace_make_path = (\<lambda>c. \<lparr>path_root = 0, path_capPtr = c, path_capDepth = 64\<rparr>),
     seL4_CNode_Copy = (\<lambda>d s k. (0, k\<lparr>dk_obj := (dk_obj k)(path_capPtr d := dk_obj k (path_capPtr s))\<rparr>)),
     vspace_map_pages = (\<lambda>c bits k. case first_free (dk_vmm k) of None \<Rightarrow> (None, k) | Some v \<Rightarrow> (Some v, k\<lparr>dk_vmm := (dk_vmm k)(v := dk_obj k c)\<rparr>))\<rparr>"

lemma demo_trace_spec: "trace_spec demo_trace_ops dk_obj dk_guest dk_vmm"
  by (auto simp: trace_spec_def demo_trace_ops_def dest: first_free_None split: option.splits)

definition demo_trace_env :: "(demo_kernel, nat) trace_env" where
  "demo_trace_env = \<lparr>trace_lib = demo_trace_ops, seL4_LargePageBits = 21, seL4_BenchmarkSetLogBuffer = (\<lambda>c k. (0, k)),
     reserved_node_call = (\<lambda>name comp base sz f. (0, Suc f))\<rparr>"

definition demo_trace_config :: trace_config where
  "demo_trace_config = \<lparr>tracebuffer_base = 0x40000000, tracebuffer_size = 0x200000, ramoops_base = 0x40200000, ramoops_size = 0x200000\<rparr>"


end
