(* ===== verification/Camkes_Config.thy ===== *)
theory Camkes_Config
  imports Cmdline Ram_Dataport System Trace_Init
begin

unbundle bit_operations_syntax

text \<open>
  The static structure of a system: the macros of \<open>configurations/tii/vm.h\<close>, from which an
  application builds its CAmkES components, connections and attributes, and the data the
  two VM templates generate from those attributes.

  A pair (\<open>dev\<close>, \<open>drv\<close>) is a VM that provides virtio devices and a VM that uses them. The
  addresses (the macros \<open>VM<dev>_VM<drv>_VIRTIO_*\<close> of a platform's \<open>devices.camkes\<close>) are a
  function \<open>regions\<close> of the pair.
\<close>

section \<open>Definitions\<close>

subsection \<open>Components and connections\<close>

datatype interface_kind = Emits | Consumes | Dataport

record camkes_interface =
  if_kind :: interface_kind
  if_type :: string
  if_name :: string

datatype connector = SeL4SharedDataWithCaps | SeL4GlobalAsynch | SeL4Notification

text \<open>The ends are an instance and the name of its interface.\<close>
record camkes_connection =
  con_type :: connector
  con_name :: string
  con_from :: "string \<times> string"
  con_to :: "string \<times> string"

text \<open>The token \<open>vm##num\<close>.\<close>
definition vm_name :: "u32 \<Rightarrow> string" where
  "vm_name num = ''vm'' @ fmt_u num"

text \<open>The type and the name of the instance a component macro declares.\<close>
definition VM_COMPONENT_DEF :: "u32 \<Rightarrow> string \<times> string" where
  "VM_COMPONENT_DEF num = (''VM'' @ fmt_u num, vm_name num)"

definition VIRTIO_COMPONENT_DEF :: "u32 \<Rightarrow> camkes_interface list" where
  "VIRTIO_COMPONENT_DEF num =
     [\<lparr>if_kind = Emits, if_type = ''VirtIONotify'', if_name = vm_name num @ ''_ntfn_send''\<rparr>,
      \<lparr>if_kind = Consumes, if_type = ''VirtIONotify'', if_name = vm_name num @ ''_ntfn_recv''\<rparr>,
      \<lparr>if_kind = Dataport, if_type = ''Buf(4096)'', if_name = vm_name num @ ''_iobuf''\<rparr>,
      \<lparr>if_kind = Dataport, if_type = ''Buf(4096)'', if_name = vm_name num @ ''_memdev''\<rparr>]"

definition VIRTIO_DEVICE_COMPONENT_DEF :: "u32 \<Rightarrow> camkes_interface list" where
  "VIRTIO_DEVICE_COMPONENT_DEF num = VIRTIO_COMPONENT_DEF num"

definition VIRTIO_DRIVER_COMPONENT_DEF :: "u32 \<Rightarrow> camkes_interface list" where
  "VIRTIO_DRIVER_COMPONENT_DEF num = VIRTIO_COMPONENT_DEF num"

definition VIRTIO_COMPOSITION_DEF :: "u32 \<Rightarrow> u32 \<Rightarrow> camkes_connection list" where
  "VIRTIO_COMPOSITION_DEF dev drv =
     [\<lparr>con_type = SeL4SharedDataWithCaps, con_name = vm_name dev @ ''_'' @ vm_name drv @ ''_iobuf'',
       con_from = (vm_name dev, vm_name drv @ ''_iobuf''), con_to = (vm_name drv, vm_name dev @ ''_iobuf'')\<rparr>,
      \<lparr>con_type = SeL4SharedDataWithCaps, con_name = vm_name dev @ ''_'' @ vm_name drv @ ''_memdev'',
       con_from = (vm_name dev, vm_name drv @ ''_memdev''), con_to = (vm_name drv, vm_name dev @ ''_memdev'')\<rparr>,
      \<lparr>con_type = SeL4GlobalAsynch, con_name = vm_name dev @ ''_'' @ vm_name drv @ ''_upcall'',
       con_from = (vm_name drv, vm_name dev @ ''_ntfn_send''), con_to = (vm_name dev, vm_name drv @ ''_ntfn_recv'')\<rparr>,
      \<lparr>con_type = SeL4Notification, con_name = vm_name dev @ ''_'' @ vm_name drv @ ''_downcall'',
       con_from = (vm_name dev, vm_name drv @ ''_ntfn_send''), con_to = (vm_name drv, vm_name dev @ ''_ntfn_recv'')\<rparr>]"

subsection \<open>Attributes\<close>

datatype attr_value = Attr_Int int | Attr_Bool bool

text \<open>An entity (an instance or a connection), one of its attributes and the value.\<close>
type_synonym setting = "string \<times> string \<times> attr_value"

text \<open>The attributes a VM component has beside those of the VM components it is based on.\<close>
record vm_tii_attributes = trace_config +
  vm_virtio_devices :: "virtio_driver list"
  vm_virtio_drivers :: "virtio_driver list"

text \<open>Only the two lists have a default.\<close>
definition VM_TII_INIT_DEF :: "trace_config \<Rightarrow> vm_tii_attributes" where
  "VM_TII_INIT_DEF t = trace_config.extend t \<lparr>vm_virtio_devices = [], vm_virtio_drivers = []\<rparr>"

definition VM_TII_CONFIGURATION_DEF :: "u32 \<Rightarrow> setting list" where
  "VM_TII_CONFIGURATION_DEF num =
     [(vm_name num, ''fs_shmem_size'', Attr_Int 0x100000),
      (vm_name num, ''global_endpoint_base'', Attr_Int (push_bit 27 1)),
      (vm_name num, ''asid_pool'', Attr_Bool True),
      (vm_name num, ''simple'', Attr_Bool True),
      (vm_name num, ''sem_value'', Attr_Int 0),
      (vm_name num, ''heap_size'', Attr_Int 0x300000)]"

record virtio_region =
  VIRTIO_DATA_BASE :: u64
  VIRTIO_DATA_SIZE :: u64
  VIRTIO_CTRL_BASE :: u64
  VIRTIO_CTRL_SIZE :: u64

type_synonym regions = "u32 \<Rightarrow> u32 \<Rightarrow> virtio_region"

definition VIRTIO_CONFIGURATION_DEF :: "regions \<Rightarrow> u32 \<Rightarrow> u32 \<Rightarrow> setting list" where
  "VIRTIO_CONFIGURATION_DEF R dev drv =
     [(vm_name dev @ ''_'' @ vm_name drv @ ''_memdev'', ''base'', Attr_Int (uint (VIRTIO_DATA_BASE (R dev drv)))),
      (vm_name dev @ ''_'' @ vm_name drv @ ''_memdev'', ''size'', Attr_Int (uint (VIRTIO_DATA_SIZE (R dev drv)))),
      (vm_name dev @ ''_'' @ vm_name drv @ ''_iobuf'', ''size'', Attr_Int (uint (VIRTIO_DATA_SIZE (R dev drv))))]"

definition VIRTIO_DEVICE_CONFIGURATION_DEF :: "regions \<Rightarrow> u32 \<Rightarrow> u32 \<Rightarrow> virtio_driver" where
  "VIRTIO_DEVICE_CONFIGURATION_DEF R dev drv =
     \<lparr>drv_id = dev,
      drv_data_base = VIRTIO_DATA_BASE (R dev drv), drv_data_size = VIRTIO_DATA_SIZE (R dev drv),
      drv_ctrl_base = VIRTIO_CTRL_BASE (R dev drv), drv_ctrl_size = VIRTIO_CTRL_SIZE (R dev drv)\<rparr>"

definition VIRTIO_DRIVER_CONFIGURATION_DEF :: "regions \<Rightarrow> u32 \<Rightarrow> u32 \<Rightarrow> virtio_driver" where
  "VIRTIO_DRIVER_CONFIGURATION_DEF R dev drv =
     \<lparr>drv_id = drv,
      drv_data_base = VIRTIO_DATA_BASE (R dev drv), drv_data_size = VIRTIO_DATA_SIZE (R dev drv),
      drv_ctrl_base = VIRTIO_CTRL_BASE (R dev drv), drv_ctrl_size = VIRTIO_CTRL_SIZE (R dev drv)\<rparr>"

text \<open>\<open>VMSWIOTLB\<close> is the build option, \<open>VM_RAM_SIZE\<close> the macro \<open>VM<num>_RAM_SIZE\<close>.\<close>
definition VIRTIO_DRIVER_GUEST_RAM_CONFIGURATION_DEF :: "bool \<Rightarrow> (u32 \<Rightarrow> int) \<Rightarrow> u32 \<Rightarrow> setting" where
  "VIRTIO_DRIVER_GUEST_RAM_CONFIGURATION_DEF VMSWIOTLB VM_RAM_SIZE num =
     (vm_name num, ''simple_untyped24_pool'', Attr_Int (if VMSWIOTLB then 2 + drop_bit 24 (VM_RAM_SIZE num) else 12))"

subsection \<open>The monitor of a driver VM\<close>

text \<open>
  The static I/O proxy of a device, with its name and the dataport \<open>vm<id>_iobuf\<close>. The members
  without an initialiser are zero; \<open>vm<id>_notify\<close>, the doorbell, emits the notification
  towards the device VM.
\<close>
definition vm_io_proxy :: "nat \<Rightarrow> io_mem \<Rightarrow> virtio_driver \<Rightarrow> io_proxy" where
  "vm_io_proxy self vm_iobuf dev =
     \<lparr>px_id = self, backend_started = 0, ok_to_run = 0,
      px_rpc = zero_rpc\<lparr>doorbell := Some self\<rparr>, px_mem = vm_iobuf,
      data_base = drv_data_base dev, data_size = drv_data_size dev,
      ctrl_base = drv_ctrl_base dev, ctrl_size = drv_ctrl_size dev,
      ioacks = replicate num_ioacks \<lparr>ack_callback = None, ack_cookie = 0\<rparr>\<rparr>"

text \<open>The swiotlb node and the base address of the RAM dataport of a device.\<close>
definition vm_swiotlb :: "virtio_driver \<Rightarrow> fdt_dataport" where
  "vm_swiotlb dev = fdt_swiotlb_vm (drv_data_base dev) (drv_data_size dev)"

definition vm_ram_dataports :: "(u32 \<Rightarrow> dataport_caps_handle) \<Rightarrow> virtio_driver list \<Rightarrow> ram_dataport list \<Rightarrow> int \<times> ram_dataport list" where
  "vm_ram_dataports memdev_handle devs = ram_dataport_setup (map (\<lambda>dev. (drv_data_base dev, memdev_handle (drv_id dev))) devs)"

subsection \<open>The monitor of a device VM\<close>

datatype platform = Plat_Qemu_Arm_Virt | Plat_Bcm2711 | Plat_Other

definition CONNECTION_BASE_ADDRESS :: "platform \<Rightarrow> u64" where
  "CONNECTION_BASE_ADDRESS p = (case p of Plat_Qemu_Arm_Virt \<Rightarrow> 0xC0000000 | Plat_Bcm2711 \<Rightarrow> 0x60000000 | Plat_Other \<Rightarrow> 0x3F000000)"

text \<open>A dataport and a notification are named by the VM they lead to.\<close>
datatype dataport_name = Iobuf_Handle u32 | Memdev_Handle u32

record camkes_crossvm_connection =
  cvc_handle :: dataport_name
  cvc_emit :: "u32 option"
  consume_badge :: u64
  connection_name :: string

text \<open>The static array, before the badges are filled in.\<close>
definition connections :: "virtio_driver list \<Rightarrow> camkes_crossvm_connection list" where
  "connections drvs =
     map (\<lambda>drv. \<lparr>cvc_handle = Iobuf_Handle (drv_id drv), cvc_emit = Some (drv_id drv), consume_badge = 16,
                  connection_name = ''guest-iobuf-'' @ fmt_u (drv_id drv)\<rparr>) drvs
     @ map (\<lambda>drv. \<lparr>cvc_handle = Memdev_Handle (drv_id drv), cvc_emit = None, consume_badge = - 1,
                  connection_name = ''guest-ram-'' @ fmt_u (drv_id drv)\<rparr>) drvs"

text \<open>
  The functions of the CAmkES VM libraries. A handler is \<open>consume_callback\<close> with the index of
  the connection its cookie points to.
\<close>
record 'vm crossvm_ops =
  ntfn_recv_notification_badge :: "u32 \<Rightarrow> u64"
  register_async_event_handler :: "u64 \<Rightarrow> nat \<Rightarrow> 'vm \<Rightarrow> int \<times> 'vm"
  cross_vm_connections_init :: "u64 \<Rightarrow> camkes_crossvm_connection list \<Rightarrow> u64 \<Rightarrow> 'vm \<Rightarrow> int \<times> 'vm"
  consume_connection_event :: "u64 \<Rightarrow> bool \<Rightarrow> 'vm \<Rightarrow> 'vm"

definition consume_callback :: "'vm crossvm_ops \<Rightarrow> camkes_crossvm_connection list \<Rightarrow> nat \<Rightarrow> 'vm \<Rightarrow> (int \<times> 'vm) res" where
  "consume_callback C conns cookie vm =
     (if length conns \<le> cookie then Inl Out_Of_Bounds
      else Inr (0, consume_connection_event C (consume_badge (conns ! cookie)) True vm))"

text \<open>The statements the template's loop generates, from driver \<open>i\<close> on.\<close>
fun init_from ::
  "'vm crossvm_ops \<Rightarrow> nat \<Rightarrow> virtio_driver list \<Rightarrow> camkes_crossvm_connection list \<Rightarrow> 'vm \<Rightarrow> (camkes_crossvm_connection list \<times> 'vm) res" where
  "init_from C i [] conns vm = Inr (conns, vm)"
| "init_from C i (drv # drvs) conns vm =
     (let conns = conns[i := (conns ! i)\<lparr>consume_badge := ntfn_recv_notification_badge C (drv_id drv)\<rparr>] in
      case register_async_event_handler C (consume_badge (conns ! i)) i vm of (err, vm) \<Rightarrow>
        if err \<noteq> 0 then Inl Fatal else init_from C (Suc i) drvs conns vm)"

definition init_cross_vm_connections ::
  "'vm crossvm_ops \<Rightarrow> platform \<Rightarrow> virtio_driver list \<Rightarrow> camkes_crossvm_connection list \<Rightarrow> 'vm \<Rightarrow> (camkes_crossvm_connection list \<times> 'vm) res" where
  "init_cross_vm_connections C plat drvs conns vm =
     res_bind (init_from C 0 drvs conns vm) (\<lambda>(conns, vm).
       case cross_vm_connections_init C (CONNECTION_BASE_ADDRESS plat) conns (of_nat (length conns)) vm of (err, vm) \<Rightarrow>
         if err \<noteq> 0 then Inl Fatal else Inr (conns, vm))"

section \<open>A system\<close>

text \<open>The interfaces, connections and attributes of an application with the given pairs.\<close>
definition vm_interfaces :: "(u32 \<times> u32) list \<Rightarrow> u32 \<Rightarrow> camkes_interface list" where
  "vm_interfaces ps v = concat (map (\<lambda>(dev, drv).
     (if dev = v then VIRTIO_DRIVER_COMPONENT_DEF drv else []) @ (if drv = v then VIRTIO_DEVICE_COMPONENT_DEF dev else [])) ps)"

definition system_connections :: "(u32 \<times> u32) list \<Rightarrow> camkes_connection list" where
  "system_connections ps = concat (map (\<lambda>(dev, drv). VIRTIO_COMPOSITION_DEF dev drv) ps)"

definition system_settings :: "regions \<Rightarrow> (u32 \<times> u32) list \<Rightarrow> setting list" where
  "system_settings R ps = concat (map (\<lambda>(dev, drv). VIRTIO_CONFIGURATION_DEF R dev drv) ps)"

definition vm_attributes :: "regions \<Rightarrow> (u32 \<times> u32) list \<Rightarrow> trace_config \<Rightarrow> u32 \<Rightarrow> vm_tii_attributes" where
  "vm_attributes R ps t v = (VM_TII_INIT_DEF t)
     \<lparr>vm_virtio_devices := [VIRTIO_DEVICE_CONFIGURATION_DEF R dev drv. (dev, drv) \<leftarrow> ps, drv = v],
      vm_virtio_drivers := [VIRTIO_DRIVER_CONFIGURATION_DEF R dev drv. (dev, drv) \<leftarrow> ps, dev = v]\<rparr>"

text \<open>The roles of two VMs are not exchanged in another pair.\<close>
definition pairs_ok :: "(u32 \<times> u32) list \<Rightarrow> bool" where
  "pairs_ok ps \<longleftrightarrow> distinct ps \<and> (\<forall>(dev, drv) \<in> set ps. dev \<noteq> drv \<and> (drv, dev) \<notin> set ps)"

text \<open>An interface fits an end of a connection.\<close>
definition fits :: "camkes_interface \<Rightarrow> string \<times> string \<Rightarrow> camkes_connection \<Rightarrow> bool" where
  "fits i e c \<longleftrightarrow> (case if_kind i of
      Emits \<Rightarrow> con_from c = e \<and> con_type c \<in> {SeL4GlobalAsynch, SeL4Notification}
    | Consumes \<Rightarrow> con_to c = e \<and> con_type c \<in> {SeL4GlobalAsynch, SeL4Notification}
    | Dataport \<Rightarrow> (con_from c = e \<or> con_to c = e) \<and> con_type c = SeL4SharedDataWithCaps)"

lemma no_underscore: "CHR ''_'' \<notin> set (fmt_u w)"
  using set_radix_str [of 10 "unat w"] by (auto simp: fmt_u_def digits_def)

lemma vm_name_eq [simp]: "vm_name v = vm_name w \<longleftrightarrow> v = w"
  by (simp add: vm_name_def)

lemma vm_port_eq [simp]: "vm_name v @ CHR ''_'' # p = vm_name w @ CHR ''_'' # q \<longleftrightarrow> v = w \<and> p = q"
  by (simp add: vm_name_def split_at_char no_underscore)

lemmas camkes_defs = VIRTIO_DRIVER_COMPONENT_DEF_def VIRTIO_DEVICE_COMPONENT_DEF_def VIRTIO_COMPONENT_DEF_def VIRTIO_COMPOSITION_DEF_def

text \<open>Two VMs of a pair, in either role.\<close>
definition peer :: "(u32 \<times> u32) list \<Rightarrow> u32 \<Rightarrow> u32 \<Rightarrow> bool" where
  "peer ps v w \<longleftrightarrow> (v, w) \<in> set ps \<or> (w, v) \<in> set ps"

lemma vm_interfaces_iff: "i \<in> set (vm_interfaces ps v) \<longleftrightarrow> (\<exists>w. peer ps v w \<and> i \<in> set (VIRTIO_COMPONENT_DEF w))"
  unfolding vm_interfaces_def VIRTIO_DRIVER_COMPONENT_DEF_def VIRTIO_DEVICE_COMPONENT_DEF_def peer_def
  by (auto split: if_splits)

lemma system_connections_iff:
  "c \<in> set (system_connections ps) \<longleftrightarrow> (\<exists>dev drv. (dev, drv) \<in> set ps \<and> c \<in> set (VIRTIO_COMPOSITION_DEF dev drv))"
  by (auto simp: system_connections_def)

lemma component_names: "distinct (map if_name (VIRTIO_COMPONENT_DEF w))"
  "i \<in> set (VIRTIO_COMPONENT_DEF w) \<Longrightarrow> \<exists>r. if_name i = vm_name w @ CHR ''_'' # r"
  by (auto simp: VIRTIO_COMPONENT_DEF_def)

lemma composition_names: "distinct (map con_name (VIRTIO_COMPOSITION_DEF dev drv))"
  "c \<in> set (VIRTIO_COMPOSITION_DEF dev drv) \<Longrightarrow> \<exists>r. con_name c = vm_name dev @ CHR ''_'' # vm_name drv @ CHR ''_'' # r"
  by (auto simp: VIRTIO_COMPOSITION_DEF_def)

lemma pairs_ok_Cons:
  "pairs_ok ((dev, drv) # ps) \<Longrightarrow> pairs_ok ps \<and> dev \<noteq> drv \<and> \<not> peer ps dev drv \<and> \<not> peer ps drv dev \<and> (dev, drv) \<notin> set ps"
  by (auto simp: pairs_ok_def peer_def)

lemma interface_names_distinct: "pairs_ok ps \<Longrightarrow> distinct (map if_name (vm_interfaces ps v))"
proof (induction ps)
  case (Cons p ps)
  obtain dev drv where p: "p = (dev, drv)" by (cases p)
  note ok = pairs_ok_Cons [OF Cons.prems [unfolded p]]
  have fresh: "if_name i \<noteq> if_name j" if "\<not> peer ps v w" "i \<in> set (VIRTIO_COMPONENT_DEF w)" "j \<in> set (vm_interfaces ps v)" for i j w
    using that component_names(2) unfolding vm_interfaces_iff by (metis vm_port_eq)
  have new: "vm_interfaces (p # ps) v =
      (if dev = v then VIRTIO_COMPONENT_DEF drv else if drv = v then VIRTIO_COMPONENT_DEF dev else []) @ vm_interfaces ps v"
    using ok by (auto simp: p vm_interfaces_def VIRTIO_DRIVER_COMPONENT_DEF_def VIRTIO_DEVICE_COMPONENT_DEF_def)
  show ?case
    using Cons.IH ok fresh [of drv] fresh [of dev] component_names(1) [of drv] component_names(1) [of dev]
    unfolding new by auto
qed (simp add: vm_interfaces_def)

lemma connection_names_distinct: "pairs_ok ps \<Longrightarrow> distinct (map con_name (system_connections ps))"
proof (induction ps)
  case (Cons p ps)
  obtain dev drv where p: "p = (dev, drv)" by (cases p)
  note ok = pairs_ok_Cons [OF Cons.prems [unfolded p]]
  have "con_name c \<noteq> con_name c'" if "c \<in> set (VIRTIO_COMPOSITION_DEF dev drv)" "c' \<in> set (system_connections ps)" for c c'
    using that composition_names(2) ok unfolding system_connections_iff by (metis vm_port_eq)
  moreover have "system_connections (p # ps) = VIRTIO_COMPOSITION_DEF dev drv @ system_connections ps" by (simp add: p system_connections_def)
  ultimately show ?case using Cons.IH ok composition_names(1) [of dev drv] by auto
qed (simp add: system_connections_def)

text \<open>The connection of a pair that an interface belongs to.\<close>
definition joins :: "u32 \<Rightarrow> u32 \<Rightarrow> camkes_interface \<Rightarrow> camkes_connection \<Rightarrow> bool" where
  "joins v w i c \<longleftrightarrow> (vm_name v, if_name i) \<in> {con_from c, con_to c}"

lemma joins_pair:
  assumes "i \<in> set (VIRTIO_COMPONENT_DEF w)" "c \<in> set (VIRTIO_COMPOSITION_DEF dev drv)" "joins v w i c" "dev \<noteq> drv"
  shows "(dev = v \<and> drv = w) \<or> (dev = w \<and> drv = v)" "fits i (vm_name v, if_name i) c"
proof -
  have "(dev = v \<and> drv = w \<or> dev = w \<and> drv = v) \<and> fits i (vm_name v, if_name i) c"
    using assms unfolding VIRTIO_COMPONENT_DEF_def VIRTIO_COMPOSITION_DEF_def set_simps insert_iff empty_iff
    by (elim disjE) (simp_all add: joins_def fits_def, (blast | simp)+)
  then show "dev = v \<and> drv = w \<or> dev = w \<and> drv = v" "fits i (vm_name v, if_name i) c" by blast+
qed

lemma joins_one:
  assumes "i \<in> set (VIRTIO_COMPONENT_DEF w)" "v \<noteq> w" "(dev, drv) = (v, w) \<or> (dev, drv) = (w, v)"
  shows "\<exists>c. filter (joins v w i) (VIRTIO_COMPOSITION_DEF dev drv) = [c]"
proof -
  have "filter (joins v w i) (VIRTIO_COMPOSITION_DEF v w) = [VIRTIO_COMPOSITION_DEF v w ! k]
      \<and> filter (joins v w i) (VIRTIO_COMPOSITION_DEF w v) = [VIRTIO_COMPOSITION_DEF w v ! k']"
    if "i = VIRTIO_COMPONENT_DEF w ! n" "(n, k, k') \<in> {(0, 3, 2), (1, 2, 3), (2, 0, 0), (3, 1, 1)}" for n k k'
    using that assms(2) unfolding insert_iff empty_iff prod.inject
    by (elim disjE) (simp_all add: VIRTIO_COMPONENT_DEF_def VIRTIO_COMPOSITION_DEF_def joins_def numeral_eq_Suc)
  moreover have "i \<in> (!) (VIRTIO_COMPONENT_DEF w) ` {0, 1, 2, 3}"
    using assms(1) by (simp add: VIRTIO_COMPONENT_DEF_def numeral_eq_Suc)
  ultimately show ?thesis using assms(3) by (auto; metis)
qed

text \<open>What the two components of a pair call their interfaces.\<close>
definition pair_ends :: "u32 \<Rightarrow> u32 \<Rightarrow> (string \<times> string) set" where
  "pair_ends dev drv = {vm_name dev} \<times> if_name ` set (VIRTIO_COMPONENT_DEF drv) \<union> {vm_name drv} \<times> if_name ` set (VIRTIO_COMPONENT_DEF dev)"

lemma composition_ends: "c \<in> set (VIRTIO_COMPOSITION_DEF dev drv) \<Longrightarrow> con_from c \<in> pair_ends dev drv \<and> con_to c \<in> pair_ends dev drv"
  unfolding VIRTIO_COMPOSITION_DEF_def set_simps insert_iff empty_iff
  by (elim disjE) (simp_all add: VIRTIO_COMPONENT_DEF_def pair_ends_def)

lemma interface_one_connection:
  assumes ok: "pairs_ok ps" and i: "i \<in> set (vm_interfaces ps v)"
  shows "\<exists>c. {c' \<in> set (system_connections ps). (vm_name v, if_name i) \<in> {con_from c', con_to c'}} = {c} \<and> fits i (vm_name v, if_name i) c"
proof -
  have pair: "dev \<noteq> drv \<and> (drv, dev) \<notin> set ps" if "(dev, drv) \<in> set ps" for dev drv
    using ok that by (auto simp: pairs_ok_def)
  obtain w where w: "peer ps v w" "i \<in> set (VIRTIO_COMPONENT_DEF w)" using i unfolding vm_interfaces_iff by blast
  then obtain dev drv where d: "(dev, drv) \<in> set ps" "(dev, drv) = (v, w) \<or> (dev, drv) = (w, v)" by (auto simp: peer_def)
  have neq: "v \<noteq> w" using d pair by auto
  obtain c where c: "filter (joins v w i) (VIRTIO_COMPOSITION_DEF dev drv) = [c]" using joins_one [OF w(2) neq d(2)] by blast
  then have cs: "{x \<in> set (VIRTIO_COMPOSITION_DEF dev drv). joins v w i x} = {c}" by (metis set_filter list.set(1) list.set(2))
  have "(dev', drv') = (dev, drv)" if "(dev', drv') \<in> set ps" "x \<in> set (VIRTIO_COMPOSITION_DEF dev' drv')" "joins v w i x" for dev' drv' x
    using joins_pair(1) [OF w(2) that(2,3)] pair [OF that(1)] pair [OF d(1)] d that(1) by auto
  then have "{c' \<in> set (system_connections ps). joins v w i c'} = {c}"
    using cs d(1) unfolding system_connections_iff by (blast dest: prod.inject [THEN iffD1])
  moreover have "fits i (vm_name v, if_name i) c"
    using joins_pair(2) [OF w(2)] cs pair [OF d(1)] by blast
  ultimately show ?thesis by (auto simp: joins_def)
qed

lemma settings_named: "fst ` set (VIRTIO_CONFIGURATION_DEF R dev drv) \<subseteq> con_name ` set (VIRTIO_COMPOSITION_DEF dev drv)"
  by (simp add: VIRTIO_CONFIGURATION_DEF_def VIRTIO_COMPOSITION_DEF_def)

lemma system_settings_named: "fst ` set (system_settings R ps) \<subseteq> con_name ` set (system_connections ps)"
proof (induction ps)
  case (Cons p ps)
  then show ?case using settings_named [of R "fst p" "snd p"]
    by (simp only: system_settings_def system_connections_def list.map concat.simps set_append image_Un case_prod_unfold) (rule Un_mono)
qed (simp add: system_settings_def)

section \<open>The memory of a pair\<close>

lemma driver_entries:
  "(dev, drv) \<in> set ps \<Longrightarrow> {x \<in> set (vm_virtio_drivers (vm_attributes R ps t dev)). drv_id x = drv} = {VIRTIO_DRIVER_CONFIGURATION_DEF R dev drv}"
  by (auto simp: vm_attributes_def VIRTIO_DRIVER_CONFIGURATION_DEF_def)

lemma device_entries:
  "(dev, drv) \<in> set ps \<Longrightarrow> {x \<in> set (vm_virtio_devices (vm_attributes R ps t drv)). drv_id x = dev} = {VIRTIO_DEVICE_CONFIGURATION_DEF R dev drv}"
  by (auto simp: vm_attributes_def VIRTIO_DEVICE_CONFIGURATION_DEF_def)

lemma cmdline_has_clause:
  assumes "append_vm_virtio_device_cmdline capacity drvs buffer = Inr line" "d \<in> set drvs"
  shows "\<exists>p q. line = p @ uservm_clause d @ q"
proof -
  obtain xs ys where "drvs = xs @ d # ys" using assms(2) by (meson split_list)
  moreover have "line = buffer @ concat (map uservm_clause drvs)"
    using assms(1) by (simp add: cmdline_appends split: if_splits)
  ultimately have "line = (buffer @ concat (map uservm_clause xs)) @ uservm_clause d @ concat (map uservm_clause ys)" by simp
  then show ?thesis by blast
qed

lemma dataports_nth:
  assumes "length dps = length devs" "k < length devs"
  shows "snd (vm_ram_dataports h devs dps) ! k = \<lparr>frames = get_frame_caps (h (drv_id (devs ! k))), num_frames = get_num_frame_caps (h (drv_id (devs ! k))),
     frame_size_bits = get_frame_size_bits (h (drv_id (devs ! k))), addr = drv_data_base (devs ! k)\<rparr>"
  using assms setup_from_dataports [of dps 0 "map (\<lambda>dev. (drv_data_base dev, h (drv_id dev))) devs"]
  by (simp add: vm_ram_dataports_def ram_dataport_setup_def)

text \<open>With swiotlb, the untyped pool holds the guest's RAM and at least one page of 16 MB more.\<close>
lemma guest_ram_pool:
  assumes "VIRTIO_DRIVER_GUEST_RAM_CONFIGURATION_DEF True VM_RAM_SIZE num = (vm, attr, Attr_Int pool)"
  shows "VM_RAM_SIZE num + 2 ^ 24 < pool * 2 ^ 24"
proof -
  have "pool = 2 + VM_RAM_SIZE num div 2 ^ 24" using assms by (simp add: VIRTIO_DRIVER_GUEST_RAM_CONFIGURATION_DEF_def drop_bit_eq_div)
  then show ?thesis by simp
qed

section \<open>The static proxy\<close>

lemma zero_mem_queues: "k < 4 \<Longrightarrow> q_at zero_mem (iobuf_queue b k) = rpcmsg_queue_init zero_queue"
  "b_at zero_mem devevt_queue = replicate 32 zero_msg"
  by (simp_all add: q_at_def b_at_def zero_mem_def zero_queue_def rpcmsg_queue_init_def vso_refs)

lemma vm_io_proxy_static:
  "proxy_static (vm_io_proxy self zero_mem dev)" "events (vm_io_proxy self zero_mem dev) = []"
  "lent_ids (vm_io_proxy self zero_mem dev) = {}" "waiting (vm_io_proxy self zero_mem dev) = {}"
  "rpc_ok (q_at (px_mem (vm_io_proxy self zero_mem dev)) device_drvrpc_req)"
  "rpc_ids (q_at (px_mem (vm_io_proxy self zero_mem dev)) device_drvrpc_req) = []"
proof -
  note q = zero_mem_queues queue_init_ok [of zero_queue]
  have pool: "buffer_state (driver_rpc zero_rpc) = [0]" by (simp add: zero_rpc_def bitmap_words_def)
  have mem: "mem_ok zero_mem" by (simp add: mem_ok_def zero_mem_def)
  show "proxy_static (vm_io_proxy self zero_mem dev)"
    using mem q pool by (simp add: proxy_static_def vm_io_proxy_def pool_ok_def event_ok_def vso_refs)
  show "events (vm_io_proxy self zero_mem dev) = []"
    using q by (simp add: events_def event_msgs_def vm_io_proxy_def vso_refs)
  show "lent_ids (vm_io_proxy self zero_mem dev) = {}"
    using pool by (auto simp: lent_ids_def vm_io_proxy_def lent_Collect bitmap_test_def)
  show "waiting (vm_io_proxy self zero_mem dev) = {}"
    by (auto simp: waiting_def vm_io_proxy_def num_ioacks_def SEL4_MMIO_MAX_VCPU_def SEL4_MMIO_MAX_NATIVE_def)
  show "rpc_ok (q_at (px_mem (vm_io_proxy self zero_mem dev)) device_drvrpc_req)"
    "rpc_ids (q_at (px_mem (vm_io_proxy self zero_mem dev)) device_drvrpc_req) = []"
    using q by (simp_all add: vm_io_proxy_def vso_refs rpc_ok_def rpc_ids_def)
qed

section \<open>The handlers of a device VM\<close>

text \<open>Registering a handler adds it to the handlers of the monitor, \<open>handlers\<close>.\<close>
definition crossvm_spec :: "'vm crossvm_ops \<Rightarrow> ('vm \<Rightarrow> (u64 \<times> nat) set) \<Rightarrow> bool" where
  "crossvm_spec C handlers \<longleftrightarrow>
     (\<forall>b i vm vm'. register_async_event_handler C b i vm = (0, vm') \<longrightarrow> handlers vm' = insert (b, i) (handlers vm))
     \<and> (\<forall>a cs n vm vm'. cross_vm_connections_init C a cs n vm = (0, vm') \<longrightarrow> handlers vm' = handlers vm)"

text \<open>The connections with the badges of the drivers filled in.\<close>
definition with_badges :: "'vm crossvm_ops \<Rightarrow> virtio_driver list \<Rightarrow> camkes_crossvm_connection list \<Rightarrow> camkes_crossvm_connection list" where
  "with_badges C drvs conns = map (\<lambda>(drv, c). c\<lparr>consume_badge := ntfn_recv_notification_badge C (drv_id drv)\<rparr>) (zip drvs conns)
     @ drop (length drvs) conns"

lemma init_from_spec:
  assumes "crossvm_spec C handlers" "init_from C i drvs conns vm = Inr (conns', vm')" "i + length drvs \<le> length conns"
  shows "conns' = take i conns @ with_badges C drvs (drop i conns)
    \<and> handlers vm' = handlers vm \<union> (\<lambda>k. (ntfn_recv_notification_badge C (drv_id (drvs ! k)), i + k)) ` {..<length drvs}"
  using assms(2,3)
proof (induction drvs arbitrary: i conns vm)
  case Nil
  then show ?case by (simp add: with_badges_def)
next
  case (Cons drv drvs)
  let ?c = "(conns ! i)\<lparr>consume_badge := ntfn_recv_notification_badge C (drv_id drv)\<rparr>"
  obtain err vm1 where reg: "register_async_event_handler C (ntfn_recv_notification_badge C (drv_id drv)) i vm = (err, vm1)" by fastforce
  have i: "i < length conns" using Cons.prems(2) by simp
  have err: "err = 0" and rest: "init_from C (Suc i) drvs (conns[i := ?c]) vm1 = Inr (conns', vm')"
    using Cons.prems(1) reg i by (simp_all add: Let_def split: if_splits)
  have h1: "handlers vm1 = insert (ntfn_recv_notification_badge C (drv_id drv), i) (handlers vm)"
    using assms(1) reg err by (simp add: crossvm_spec_def)
  note IH = Cons.IH [OF rest]
  have "take (Suc i) (conns[i := ?c]) @ with_badges C drvs (drop (Suc i) conns) = take i conns @ with_badges C (drv # drvs) (drop i conns)"
    using i by (simp add: take_Suc_conv_app_nth Cons_nth_drop_Suc [symmetric] with_badges_def)
  then show ?case using IH Cons.prems(2) h1 i by (simp add: lessThan_Suc_eq_insert_0 image_image)
qed

section \<open>Properties\<close>

text \<open>
  C22. The VMs are wired up completely: in a system built from pairs of VMs, every interface
  a VM declares has a name of its own and is the end of exactly one connection, of its
  kind and in its direction; every connection has its own name and leads from an
  interface of one VM to an interface of the other, and every setting belongs to a
  connection.
\<close>
theorem interfaces_connected_once:
  assumes "pairs_ok ps"
  shows "distinct (map if_name (vm_interfaces ps v))
    \<and> distinct (map con_name (system_connections ps))
    \<and> (\<forall>i \<in> set (vm_interfaces ps v). \<exists>c. {c' \<in> set (system_connections ps). (vm_name v, if_name i) \<in> {con_from c', con_to c'}} = {c}
         \<and> fits i (vm_name v, if_name i) c)
    \<and> (\<forall>c \<in> set (system_connections ps). \<exists>dev drv. (dev, drv) \<in> set ps \<and> con_from c \<in> pair_ends dev drv \<and> con_to c \<in> pair_ends dev drv
         \<and> fst (con_from c) \<noteq> fst (con_to c))
    \<and> fst ` set (system_settings R ps) \<subseteq> con_name ` set (system_connections ps)"
proof (intro conjI ballI)
  have pair: "dev \<noteq> drv \<and> (drv, dev) \<notin> set ps" if "(dev, drv) \<in> set ps" for dev drv
    using assms that by (auto simp: pairs_ok_def)
  show "distinct (map if_name (vm_interfaces ps v))" by (rule interface_names_distinct [OF assms])
  show "distinct (map con_name (system_connections ps))" by (rule connection_names_distinct [OF assms])
  show "\<exists>c. {c' \<in> set (system_connections ps). (vm_name v, if_name i) \<in> {con_from c', con_to c'}} = {c} \<and> fits i (vm_name v, if_name i) c"
    if "i \<in> set (vm_interfaces ps v)" for i
    by (rule interface_one_connection [OF assms that])
  show "\<exists>dev drv. (dev, drv) \<in> set ps \<and> con_from c \<in> pair_ends dev drv \<and> con_to c \<in> pair_ends dev drv \<and> fst (con_from c) \<noteq> fst (con_to c)"
    if c: "c \<in> set (system_connections ps)" for c
  proof -
    obtain dev drv where d: "(dev, drv) \<in> set ps" "c \<in> set (VIRTIO_COMPOSITION_DEF dev drv)" using c unfolding system_connections_iff by blast
    have "fst (con_from c) \<noteq> fst (con_to c)" using d(2) pair [OF d(1)] by (auto simp: VIRTIO_COMPOSITION_DEF_def)
    with d composition_ends show ?thesis by blast
  qed
  show "fst ` set (system_settings R ps) \<subseteq> con_name ` set (system_connections ps)"
    by (rule system_settings_named)
qed

theorem interfaces_connected_once_witness:
  "\<exists>c. {c' \<in> set (system_connections [(0, 1), (0, 2)]). (vm_name 0, vm_name 2 @ ''_ntfn_recv'') \<in> {con_from c', con_to c'}} = {c}
     \<and> con_type c \<noteq> SeL4SharedDataWithCaps"
proof -
  have "pairs_ok [(0, 1), (0, 2)]" by (simp add: pairs_ok_def)
  moreover have "\<lparr>if_kind = Consumes, if_type = ''VirtIONotify'', if_name = vm_name 2 @ ''_ntfn_recv''\<rparr> \<in> set (vm_interfaces [(0, 1), (0, 2)] 0)"
    by (simp add: vm_interfaces_def camkes_defs)
  ultimately show ?thesis
    using interfaces_connected_once [of "[(0, 1), (0, 2)]" 0] by (fastforce simp: fits_def)
qed

text \<open>
  C21. The two VMs of a pair agree on their shared memory: the list of the device VM has
  exactly one entry for the driver VM and the list of the driver VM exactly one entry for
  the device VM, with equal regions. What the device VM's guest reads on its command line
  is the region of the driver VM's swiotlb node, of its RAM dataport, whose frames are those
  of the dataport towards the device VM, of its I/O proxy and of the connection.
\<close>
theorem pair_regions_agree:
  assumes "(dev, drv) \<in> set ps" "length dps = length (vm_virtio_devices (vm_attributes R ps t drv))"
  shows "\<exists>d e k.
      {x \<in> set (vm_virtio_drivers (vm_attributes R ps t dev)). drv_id x = drv} = {d}
    \<and> {x \<in> set (vm_virtio_devices (vm_attributes R ps t drv)). drv_id x = dev} = {e}
    \<and> (append_vm_virtio_device_cmdline capacity (vm_virtio_drivers (vm_attributes R ps t dev)) buffer = Inr line \<longrightarrow> (\<exists>p q. line = p @ uservm_clause d @ q))
    \<and> gpa (vm_swiotlb e) = drv_data_base d \<and> dp_size (vm_swiotlb e) = drv_data_size d
    \<and> k < length dps \<and> vm_virtio_devices (vm_attributes R ps t drv) ! k = e
    \<and> addr (snd (vm_ram_dataports h (vm_virtio_devices (vm_attributes R ps t drv)) dps) ! k) = drv_data_base d
    \<and> frames (snd (vm_ram_dataports h (vm_virtio_devices (vm_attributes R ps t drv)) dps) ! k) = get_frame_caps (h dev)
    \<and> data_base (vm_io_proxy self mem e) = drv_data_base d \<and> data_size (vm_io_proxy self mem e) = drv_data_size d
    \<and> ctrl_base (vm_io_proxy self mem e) = drv_ctrl_base d \<and> ctrl_size (vm_io_proxy self mem e) = drv_ctrl_size d
    \<and> {(vm_name dev @ ''_'' @ vm_name drv @ ''_memdev'', ''base'', Attr_Int (uint (drv_data_base d))),
       (vm_name dev @ ''_'' @ vm_name drv @ ''_memdev'', ''size'', Attr_Int (uint (drv_data_size d)))} \<subseteq> set (system_settings R ps)"
proof -
  let ?devs = "vm_virtio_devices (vm_attributes R ps t drv)"
  let ?d = "VIRTIO_DRIVER_CONFIGURATION_DEF R dev drv" and ?e = "VIRTIO_DEVICE_CONFIGURATION_DEF R dev drv"
  have d: "{x \<in> set (vm_virtio_drivers (vm_attributes R ps t dev)). drv_id x = drv} = {?d}" by (rule driver_entries [OF assms(1)])
  have e: "{x \<in> set ?devs. drv_id x = dev} = {?e}" by (rule device_entries [OF assms(1)])
  from e obtain k where k: "k < length ?devs" "?devs ! k = ?e" by (metis (no_types, lifting) in_set_conv_nth insertI1 mem_Collect_eq)
  have port: "addr (snd (vm_ram_dataports h ?devs dps) ! k) = drv_data_base ?e" "frames (snd (vm_ram_dataports h ?devs dps) ! k) = get_frame_caps (h (drv_id ?e))"
    using dataports_nth [OF assms(2) k(1)] k(2) by simp_all
  have clause: "append_vm_virtio_device_cmdline capacity (vm_virtio_drivers (vm_attributes R ps t dev)) buffer = Inr line \<longrightarrow> (\<exists>p q. line = p @ uservm_clause ?d @ q)"
    using cmdline_has_clause d by blast
  have "set (VIRTIO_CONFIGURATION_DEF R dev drv) \<subseteq> set (system_settings R ps)"
    using assms(1) by (force simp: system_settings_def)
  then have set: "{(vm_name dev @ ''_'' @ vm_name drv @ ''_memdev'', ''base'', Attr_Int (uint (drv_data_base ?d))),
       (vm_name dev @ ''_'' @ vm_name drv @ ''_memdev'', ''size'', Attr_Int (uint (drv_data_size ?d)))} \<subseteq> set (system_settings R ps)"
    by (simp add: VIRTIO_CONFIGURATION_DEF_def VIRTIO_DRIVER_CONFIGURATION_DEF_def)
  show ?thesis
    by (rule exI [of _ ?d], rule exI [of _ ?e], rule exI [of _ k])
      (use d e clause port k assms(2) set in \<open>simp add: VIRTIO_DRIVER_CONFIGURATION_DEF_def VIRTIO_DEVICE_CONFIGURATION_DEF_def
        vm_swiotlb_def fdt_swiotlb_vm_def vm_io_proxy_def\<close>)
qed

text \<open>
  C29. A notification from a driver VM reaches the guest of the device VM: when the cross-VM
  connections have been set up, the handlers added are one for each driver, under the
  badge of that driver's notification; called for driver \<open>k\<close> it raises the event of the
  connection that carries that badge, and this is the connection whose memory is the
  driver's I/O buffer and whose doorbell notifies the driver. Each driver's RAM is passed on
  too, and nothing else.
\<close>
theorem driver_notifications_handled:
  assumes "crossvm_spec C handlers" "init_cross_vm_connections C plat drvs (connections drvs) vm = Inr (conns, vm')"
  shows "handlers vm' = handlers vm \<union> (\<lambda>k. (ntfn_recv_notification_badge C (drv_id (drvs ! k)), k)) ` {..<length drvs}
    \<and> length conns = 2 * length drvs
    \<and> (\<forall>k < length drvs.
        consume_callback C conns k vm2 = Inr (0, consume_connection_event C (ntfn_recv_notification_badge C (drv_id (drvs ! k))) True vm2)
      \<and> cvc_handle (conns ! k) = Iobuf_Handle (drv_id (drvs ! k)) \<and> cvc_emit (conns ! k) = Some (drv_id (drvs ! k))
      \<and> cvc_handle (conns ! (length drvs + k)) = Memdev_Handle (drv_id (drvs ! k)) \<and> cvc_emit (conns ! (length drvs + k)) = None
      \<and> consume_badge (conns ! (length drvs + k)) = - 1)"
proof -
  obtain cs vm1 where first: "init_from C 0 drvs (connections drvs) vm = Inr (cs, vm1)"
    using assms(2) by (cases "init_from C 0 drvs (connections drvs) vm") (auto simp: init_cross_vm_connections_def)
  obtain err vm3 where "cross_vm_connections_init C (CONNECTION_BASE_ADDRESS plat) cs (of_nat (length cs)) vm1 = (err, vm3)" by fastforce
  with assms(2) first have run: "init_from C 0 drvs (connections drvs) vm = Inr (conns, vm1)"
    and init: "cross_vm_connections_init C (CONNECTION_BASE_ADDRESS plat) conns (of_nat (length conns)) vm1 = (0, vm')"
    by (auto simp: init_cross_vm_connections_def split: if_splits)
  have len: "length (connections drvs) = 2 * length drvs" by (simp add: connections_def)
  note spec = init_from_spec [OF assms(1) run]
  have conns: "conns = with_badges C drvs (connections drvs)" and h: "handlers vm1 = handlers vm \<union> (\<lambda>k. (ntfn_recv_notification_badge C (drv_id (drvs ! k)), k)) ` {..<length drvs}"
    using spec len by simp_all
  have "handlers vm' = handlers vm1" using assms(1) init by (simp add: crossvm_spec_def)
  then show ?thesis
    using h by (simp add: conns with_badges_def connections_def nth_append consume_callback_def)
qed


section \<open>A system of three VMs\<close>

text \<open>The virtio application with two driver VMs on the Raspberry Pi 4, with swiotlb.\<close>
definition multi_user :: "(u32 \<times> u32) list" where
  "multi_user = [(0, 1), (0, 2)]"

definition multi_user_regions :: regions where
  "multi_user_regions dev drv =
     \<lparr>VIRTIO_DATA_BASE = (if drv = 1 then 0x58000000 else 0x58800000), VIRTIO_DATA_SIZE = 0x800000,
      VIRTIO_CTRL_BASE = 0x60000000, VIRTIO_CTRL_SIZE = 0x80000\<rparr>"

theorem pair_regions_agree_witness:
  "\<exists>d e. {x \<in> set (vm_virtio_drivers (vm_attributes multi_user_regions multi_user demo_trace_config 0)). drv_id x = 2} = {d}
     \<and> {x \<in> set (vm_virtio_devices (vm_attributes multi_user_regions multi_user demo_trace_config 2)). drv_id x = 0} = {e}
     \<and> gpa (vm_swiotlb e) = drv_data_base d"
proof -
  have "(0, 2) \<in> set multi_user" "length (vm_virtio_devices (vm_attributes multi_user_regions multi_user demo_trace_config 2)) = 1"
    by (simp_all add: multi_user_def vm_attributes_def)
  then have "(0, 2) \<in> set multi_user" "length [rv_dps ! 0] = length (vm_virtio_devices (vm_attributes multi_user_regions multi_user demo_trace_config 2))"
    by simp_all
  from pair_regions_agree [OF this, of 100 "[]" "[]" "\<lambda>_. \<lparr>get_frame_caps = [], get_num_frame_caps = 0, get_frame_size_bits = 12\<rparr>" 4 zero_mem]
  show ?thesis by (elim exE conjE) (rule exI, rule exI, intro conjI, assumption+)
qed

text \<open>A monitor that only keeps its handlers.\<close>
definition demo_crossvm :: "(u64 \<times> nat) set crossvm_ops" where
  "demo_crossvm = \<lparr>ntfn_recv_notification_badge = (\<lambda>v. push_bit 27 1 + ucast v), register_async_event_handler = (\<lambda>b i hs. (0, insert (b, i) hs)),
     cross_vm_connections_init = (\<lambda>a cs n hs. (0, hs)), consume_connection_event = (\<lambda>b on hs. hs)\<rparr>"

theorem driver_notifications_handled_witness:
  "\<exists>conns hs. init_cross_vm_connections demo_crossvm Plat_Bcm2711 (vm_virtio_drivers (vm_attributes multi_user_regions multi_user demo_trace_config 0))
       (connections (vm_virtio_drivers (vm_attributes multi_user_regions multi_user demo_trace_config 0))) {} = Inr (conns, hs)
     \<and> hs = {(0x8000001, 0), (0x8000002, 1)} \<and> length conns = 4 \<and> cvc_handle (conns ! 1) = Iobuf_Handle 2"
proof -
  let ?drvs = "vm_virtio_drivers (vm_attributes multi_user_regions multi_user demo_trace_config 0)"
  have drvs: "?drvs = [VIRTIO_DRIVER_CONFIGURATION_DEF multi_user_regions 0 1, VIRTIO_DRIVER_CONFIGURATION_DEF multi_user_regions 0 2]"
    by (simp add: vm_attributes_def multi_user_def)
  have ids: "drv_id (?drvs ! 0) = 1" "drv_id (?drvs ! 1) = 2" "length ?drvs = 2" by (simp_all add: drvs VIRTIO_DRIVER_CONFIGURATION_DEF_def)
  have spec: "crossvm_spec demo_crossvm id" by (simp add: crossvm_spec_def demo_crossvm_def)
  have "\<exists>conns hs. init_cross_vm_connections demo_crossvm Plat_Bcm2711 ?drvs (connections ?drvs) {} = Inr (conns, hs)"
    by (simp add: drvs init_cross_vm_connections_def demo_crossvm_def Let_def)
  then obtain conns hs where run: "init_cross_vm_connections demo_crossvm Plat_Bcm2711 ?drvs (connections ?drvs) {} = Inr (conns, hs)" by blast
  have two: "{..<2 :: nat} = {0, 1}" by auto
  note handled = driver_notifications_handled [OF spec run]
  from handled have "hs = {(0x8000001, 0), (0x8000002, 1)}"
    using ids by (simp add: two demo_crossvm_def insert_commute)
  moreover from handled have "length conns = 4 \<and> cvc_handle (conns ! 1) = Iobuf_Handle 2" using ids by simp
  ultimately show ?thesis using run by blast
qed


end
