(* ===== verification/Io_Table.thy ===== *)
theory Io_Table
  imports System
begin

unbundle bit_operations_syntax

text \<open>
  What the queues, buffers and slots of an I/O proxy amount to: a table with one entry for
  each request slot, in which a client issues a request, the backend answers it and the
  monitor delivers the answer. \<open>System\<close> refines this table step by step, whatever the
  interleaving: the three ring queues, the pool of message buffers, the hand-over from the
  kernel module to the device and the out-of-order replies are not visible in it.
\<close>

section \<open>The table\<close>

text \<open>A request: its first word (direction, address space, slot, length), address and callback.\<close>
record io_request =
  rq_word :: seL4_Word
  rq_addr :: seL4_Word
  rq_ack :: ioack

text \<open>A pending request carries the data of a write, an answered one the data of the answer.\<close>
datatype io_slot = Slot_Free | Slot_Pending io_request seL4_Word | Slot_Answered io_request seL4_Word

type_synonym io_table = "nat \<Rightarrow> io_slot"

datatype io_event =
    Issue nat io_request seL4_Word
  | Answer nat seL4_Word
  | Deliver "(nat \<times> io_request \<times> seL4_Word) list"
  | Internal

text \<open>The request is for the slot and has a client.\<close>
definition request_for :: "nat \<Rightarrow> io_request \<Rightarrow> bool" where
  "request_for k r \<longleftrightarrow> k < num_ioacks \<and> BIT_FIELD_GET (rq_word r) RPC_MR0_MMIO_SLOT = of_nat k \<and> ack_callback (rq_ack r) \<noteq> None"

text \<open>A delivery takes all answers there are, each once.\<close>
definition all_answers :: "io_table \<Rightarrow> (nat \<times> io_request \<times> seL4_Word) list \<Rightarrow> bool" where
  "all_answers T ds \<longleftrightarrow> distinct (map fst ds) \<and> (\<forall>(k, r, d) \<in> set ds. T k = Slot_Answered r d)
     \<and> (\<forall>k < num_ioacks. (\<exists>r d. T k = Slot_Answered r d) \<longrightarrow> k \<in> fst ` set ds)"

fun table_next :: "io_table \<Rightarrow> io_event \<Rightarrow> io_table option" where
  "table_next T (Issue k r v) = (if request_for k r \<and> T k = Slot_Free then Some (T(k := Slot_Pending r v)) else None)"
| "table_next T (Answer k d) = (case T k of Slot_Pending r v \<Rightarrow> Some (T(k := Slot_Answered r d)) | _ \<Rightarrow> None)"
| "table_next T (Deliver ds) =
     (if all_answers T ds then Some (\<lambda>k. if k \<in> fst ` set ds then Slot_Free else T k) else None)"
| "table_next T Internal = Some T"

fun replay :: "('a \<Rightarrow> 'e \<Rightarrow> 'a option) \<Rightarrow> 'a \<Rightarrow> 'e list \<Rightarrow> 'a option" where
  "replay next_state T [] = Some T"
| "replay next_state T (e # es) = (case next_state T e of None \<Rightarrow> None | Some T' \<Rightarrow> replay next_state T' es)"

section \<open>Simulations\<close>

text \<open>
  A concrete system whose good states are closed under its steps, and whose every step is an
  event of an abstract machine.
\<close>
locale simulation =
  fixes good :: "'g \<Rightarrow> 'c \<Rightarrow> bool" and cstep :: "'g \<Rightarrow> 'c \<Rightarrow> 'c \<Rightarrow> bool"
    and next_state :: "'a \<Rightarrow> 'e \<Rightarrow> 'a option" and view :: "'c \<Rightarrow> 'a"
  assumes good_step: "good g c \<Longrightarrow> cstep g c c' \<Longrightarrow> good g c'"
    and simulated: "good g c \<Longrightarrow> cstep g c c' \<Longrightarrow> \<exists>e. next_state (view c) e = Some (view c')"
begin

lemma runs_good: "(cstep g)\<^sup>*\<^sup>* c c' \<Longrightarrow> good g c \<Longrightarrow> good g c'"
  by (induction rule: rtranclp_induct) (auto intro: good_step)

text \<open>The states of a run are, one by one, those of a run of the abstract machine.\<close>
lemma path_replay:
  "successively (cstep g) (c # cs) \<Longrightarrow> good g c \<Longrightarrow>
   \<exists>es. length es = length cs \<and> (\<forall>i \<le> length cs. replay next_state (view c) (take i es) = Some (view ((c # cs) ! i)))"
proof (induction cs arbitrary: c)
  case (Cons c' cs)
  from Cons.prems have step: "cstep g c c'" by simp
  obtain e where e: "next_state (view c) e = Some (view c')" using simulated [OF Cons.prems(2) step] by blast
  obtain es where es: "length es = length cs" "\<forall>i \<le> length cs. replay next_state (view c') (take i es) = Some (view ((c' # cs) ! i))"
    using Cons.IH [OF _ good_step [OF Cons.prems(2) step]] Cons.prems(1) by auto
  have "replay next_state (view c) (take i (e # es)) = Some (view ((c # c' # cs) ! i))" if "i \<le> length (c' # cs)" for i
    using that e es(2) by (cases i) simp_all
  with es(1) show ?case by (intro exI [of _ "e # es"]) simp
qed simp

text \<open>What no event changes while a condition on the abstract state holds, no run changes.\<close>
lemma runs_while:
  assumes run: "(\<lambda>c c'. cstep g c c' \<and> C (view c'))\<^sup>*\<^sup>* c c'" and good: "good g c" and start: "P (view c)"
    and keeps: "\<And>T e T'. P T \<Longrightarrow> next_state T e = Some T' \<Longrightarrow> C T' \<Longrightarrow> P T'"
  shows "P (view c')"
proof -
  from run have "good g c' \<and> P (view c')"
  proof (induction rule: rtranclp_induct)
    case (step c1 c2)
    with simulated [of g c1 c2] good_step [of g c1 c2] keeps show ?case by blast
  qed (use good start in blast)
  then show ?thesis ..
qed

end

section \<open>The table of a system\<close>

text \<open>The entry of the slot that message \<open>i\<close> names.\<close>
definition entry_of :: "io_proxy \<Rightarrow> msgptr \<Rightarrow> io_slot" where
  "entry_of px i =
     (let m = req_msg px i; r = \<lparr>rq_word = mr0 m, rq_addr = mr1 m, rq_ack = ioacks px ! msg_slot m\<rparr> in
      if i \<in> set (resp_ids px) then Slot_Answered r (mr2 m) else Slot_Pending r (mr2 m))"

definition table_of :: "io_proxy \<Rightarrow> io_table" where
  "table_of px k =
     (case find (\<lambda>i. i \<in> lent_ids px \<and> msg_slot (req_msg px i) = k) [0..<RPCMSG_BUFFER_SIZE] of
        None \<Rightarrow> Slot_Free | Some i \<Rightarrow> entry_of px i)"

lemma find_holds: "find P xs = Some x \<Longrightarrow> P x"
  unfolding find_Some_iff by blast

lemma lent_below: "i \<in> lent_ids px \<Longrightarrow> i < 32"
  using lent_subset [of "buffer_state (driver_rpc (px_rpc px))"] by (auto simp: lent_ids_def)

lemma table_of_lent:
  assumes "slots_match px" "i \<in> lent_ids px"
  shows "table_of px (msg_slot (req_msg px i)) = entry_of px i"
proof -
  let ?P = "\<lambda>j. j \<in> lent_ids px \<and> msg_slot (req_msg px j) = msg_slot (req_msg px i)"
  have "j = i" if "?P j" for j
    using that assms unfolding slots_match_def bij_betw_def inj_on_def by blast
  moreover have "i \<in> set [0..<32]" using lent_below [OF assms(2)] by simp
  then obtain j where j: "find ?P [0..<32] = Some j"
    using assms(2) by (cases "find ?P [0..<32]") (auto simp: find_None_iff)
  ultimately have "j = i" using find_holds [OF j] by blast
  with j show ?thesis by (simp add: table_of_def RPCMSG_BUFFER_SIZE_def)
qed

lemma table_of_free:
  assumes "slots_match px"
  shows "table_of px k = Slot_Free \<longleftrightarrow> k \<notin> waiting px"
proof (cases "k \<in> waiting px")
  case True
  then obtain i where "i \<in> lent_ids px" "k = msg_slot (req_msg px i)"
    using assms unfolding slots_match_def bij_betw_def by blast
  with table_of_lent [OF assms] True show ?thesis by (simp add: entry_of_def Let_def)
next
  case False
  then have "msg_slot (req_msg px i) \<noteq> k" if "i \<in> lent_ids px" for i
    using assms that unfolding slots_match_def bij_betw_def by blast
  then have "find (\<lambda>i. i \<in> lent_ids px \<and> msg_slot (req_msg px i) = k) [0..<32] = None" by (auto simp: find_None_iff)
  with False show ?thesis by (simp add: table_of_def RPCMSG_BUFFER_SIZE_def)
qed

text \<open>A table is determined by its entries for the lent messages.\<close>
lemma table_eqI:
  assumes "slots_match px'" "\<And>k. k \<notin> waiting px' \<Longrightarrow> T k = Slot_Free"
    and "\<And>i. i \<in> lent_ids px' \<Longrightarrow> T (msg_slot (req_msg px' i)) = entry_of px' i"
  shows "table_of px' = T"
proof
  fix k
  show "table_of px' k = T k"
  proof (cases "k \<in> waiting px'")
    case True
    then obtain i where "i \<in> lent_ids px'" "k = msg_slot (req_msg px' i)"
      using assms(1) unfolding slots_match_def bij_betw_def by blast
    with table_of_lent [OF assms(1)] assms(3) show ?thesis by simp
  qed (use table_of_free [OF assms(1)] assms(2) in simp)
qed

lemma table_same:
  assumes "lent_ids px' = lent_ids px" "ioacks px' = ioacks px" "\<And>i. i \<in> lent_ids px \<Longrightarrow> req_msg px' i = req_msg px i"
    and "resp_ids px' = resp_ids px"
  shows "table_of px' = table_of px"
proof
  fix k
  have "(\<lambda>i. i \<in> lent_ids px' \<and> msg_slot (req_msg px' i) = k) = (\<lambda>i. i \<in> lent_ids px \<and> msg_slot (req_msg px i) = k)"
    using assms(1,3) by auto
  moreover have "entry_of px' i = entry_of px i" if "i \<in> lent_ids px" for i
    using assms(2-4) that by (simp add: entry_of_def)
  ultimately show "table_of px' k = table_of px k"
    unfolding table_of_def by (auto dest!: find_holds split: option.split)
qed

section \<open>Steps that issue a request\<close>

text \<open>A request in a free slot: its message is lent and sits in no response.\<close>
lemma start_issues:
  assumes inv: "sys_inv S" and slot: "unat slot < 32"
    and run: "ioreq_start (g_px (sys_mon S)) slot ar aw cookie addr_space dir offset sz val = Inr (rc, px')"
  defines "r \<equiv> \<lparr>rq_word = mmio_request_mr0 dir addr_space slot sz, rq_addr = offset,
      rq_ack = \<lparr>ack_callback = Some (if dir = SEL4_IO_DIR_READ then ar else aw), ack_cookie = cookie\<rparr>\<rparr>"
  shows "table_next (table_of (g_px (sys_mon S))) (Issue (unat slot) r val) = Some (table_of px')"
    "table_of px' = (table_of (g_px (sys_mon S)))(unat slot := Slot_Pending r val)"
proof -
  define px where "px = g_px (sys_mon S)"
  let ?m = "\<lparr>mr0 = mmio_request_mr0 dir addr_space slot sz, mr1 = offset, mr2 = val, mr3 = 0\<rparr>"
  note i = sys_invD [OF inv, folded px_def]
  have mem: "mem_ok (px_mem px)" using session_invD(1) [OF i(1)] by (simp add: px_def)
  have free: "ack_callback (ioacks px ! unat slot) = None" "sz \<le> 8"
    using run slot by (auto simp: ioreq_start_def px_def not_less Let_def split: if_splits)
  obtain px1 j where start: "ioreq_start px slot ar aw cookie addr_space dir offset sz val = Inr (0, px1)"
    and acks: "ioacks px1 = (ioacks px)[unat slot := rq_ack r]"
    and j: "j < 32" "j \<notin> lent_ids px" "lent_ids px1 = insert j (lent_ids px)"
    and buf: "b_at (px_mem px1) driver_drvrpc_req = (b_at (px_mem px) driver_drvrpc_req)[j := ?m]"
    and q: "q_at (px_mem px1) driver_drvrpc_resp = q_at (px_mem px) driver_drvrpc_resp"
    by (rule start_effect [OF inv px_def slot free, of ar aw cookie addr_space dir offset val]) (use r_def in simp)
  with run have eq: "px' = px1" by (simp add: px_def)
  have match: "slots_match px'" using sys_invD(8) [OF start_inv(2) [OF inv slot run]] by simp
  have wait: "waiting px' = insert (unat slot) (waiting px)" using start_inv(3) [OF inv slot run] by (simp add: px_def)
  have len: "length (b_at (px_mem px) driver_drvrpc_req) = 32" "length (ioacks px) = 32"
    using mem sys_inv_proxy(3) [OF inv] by (simp_all add: vso_refs px_def)
  have resp: "resp_ids px' = resp_ids px" by (simp add: resp_ids_def q eq)
  have "set (resp_ids px) \<subseteq> lent_ids px" using inbox_answerable(3) [OF inv] by (simp add: px_def)
  then have new: "j \<notin> set (resp_ids px)" using j(2) by blast
  note acks = acks [folded eq] and lent = j(3) [folded eq]
  have msg: "req_msg px' a = (if a = j then ?m else req_msg px a)" for a
    using j(1) len by (auto simp: req_msg_def buf eq nth_list_update)
  have slot_of: "msg_slot ?m = unat slot" by (rule request_msg_slot [OF slot])
  have other: "msg_slot (req_msg px a) \<noteq> unat slot" if "a \<in> lent_ids px" for a
  proof -
    have "msg_slot (req_msg px a) \<in> waiting px" using i(8) that unfolding slots_match_def bij_betw_def by blast
    then show ?thesis using free(1) by (auto simp: waiting_def)
  qed
  have table: "table_of px' = (table_of px)(unat slot := Slot_Pending r val)"
  proof (rule table_eqI [OF match])
    show "((table_of px)(unat slot := Slot_Pending r val)) k = Slot_Free" if "k \<notin> waiting px'" for k
      using that wait table_of_free [OF i(8)] by auto
    show "((table_of px)(unat slot := Slot_Pending r val)) (msg_slot (req_msg px' a)) = entry_of px' a" if "a \<in> lent_ids px'" for a
    proof (cases "a = j")
      case True
      then show ?thesis using new slot len by (simp add: msg slot_of entry_of_def resp acks r_def Let_def)
    next
      case False
      with that lent have a: "a \<in> lent_ids px" by simp
      from False other [OF a] table_of_lent [OF i(8) a] show ?thesis
        by (simp add: msg entry_of_def resp acks Let_def)
    qed
  qed
  then show "table_of px' = (table_of (g_px (sys_mon S)))(unat slot := Slot_Pending r val)" by (simp add: px_def)
  have "request_for (unat slot) r"
  proof -
    have "unat (ucast slot :: u64) < 2 ^ 6" using slot by simp
    then have "BIT_FIELD_GET (mmio_request_mr0 dir addr_space slot sz) RPC_MR0_MMIO_SLOT = ucast slot"
      by (simp add: mmio_request_mr0_def mmio_mr0_get MASK_mask and_mask_unat)
    then show ?thesis using slot by (simp add: request_for_def r_def)
  qed
  moreover have "table_of px (unat slot) = Slot_Free" using free(1) table_of_free [OF i(8)] by (simp add: waiting_def)
  ultimately show "table_next (table_of (g_px (sys_mon S))) (Issue (unat slot) r val) = Some (table_of px')"
    by (simp add: table table_next.simps flip: px_def)
qed

section \<open>Steps of the backend\<close>

text \<open>
  A step of the backend moves one message on: it leaves the messages and the responses alone,
  or it answers one message that was not answered yet.
\<close>
definition answer_step :: "session \<Rightarrow> session \<Rightarrow> msgptr \<Rightarrow> seL4_Word \<Rightarrow> bool" where
  "answer_step s s' m data \<longleftrightarrow> m \<in> s_lent s \<and> m \<notin> set (rpc_ids (q_at (s_mem s) (iobuf_queue 0 2)))
     \<and> b_at (s_mem s') (iobuf_queue 0 0) = (b_at (s_mem s) (iobuf_queue 0 0))[m := (b_at (s_mem s) (iobuf_queue 0 0) ! m)\<lparr>mr2 := data\<rparr>]
     \<and> rpc_ids (q_at (s_mem s') (iobuf_queue 0 2)) = rpc_ids (q_at (s_mem s) (iobuf_queue 0 2)) @ [m]"

definition shift_step :: "session \<Rightarrow> session \<Rightarrow> bool" where
  "shift_step s s' \<longleftrightarrow> b_at (s_mem s') (iobuf_queue 0 0) = b_at (s_mem s) (iobuf_queue 0 0)
     \<and> rpc_ids (q_at (s_mem s') (iobuf_queue 0 2)) = rpc_ids (q_at (s_mem s) (iobuf_queue 0 2))"

lemma work_ids:
  "work s = 5 * length (rpc_ids (q_at (s_mem s) (iobuf_queue 0 0))) + 4 * length (km_held s)
     + 3 * length (rpc_ids (q_at (s_mem s) (iobuf_queue 0 1))) + 2 * length (dev_held s) + length (rpc_ids (q_at (s_mem s) (iobuf_queue 0 2)))"
  by (simp add: work_def length_rpc_ids)

lemma reply_answers:
  assumes I: "session_inv s" and m: "m \<in> set (km_held s) \<union> set (dev_held s)" and r: "r = s_km s \<or> r = s_dev s"
    and run: "driver_rpc_ack_mmio_finish (Some r) (Some m) data (s_mem s) = Inr (rc, w)"
  shows "rc = 0" "answer_step s (s\<lparr>s_mem := w, km_held := h, dev_held := h'\<rparr>) m data"
    "\<And>k. k < 2 \<Longrightarrow> q_at w (iobuf_queue 0 k) = q_at (s_mem s) (iobuf_queue 0 k)"
proof -
  note inv = session_invD [OF I] and f = in_flight_facts [OF I]
  obtain c where c: "response (driver_rpc r) = iobuf_queue 0 2" "doorbell r = Some c"
    using r inv(6,7) by (auto simp: endpoint_ok_def)
  have m32: "m < 32" "queue_len (q_at (s_mem s) (iobuf_queue 0 2)) < 32" using held_facts [OF I, of m] m by auto
  obtain q where q: "driver_rpc_ack_mmio_finish (Some r) (Some m) data (s_mem s) =
      Inr (0, (put_q (iobuf_queue 0 2) q (put_b (iobuf_queue 0 2)
        ((b_at (s_mem s) (iobuf_queue 0 2))[m := (b_at (s_mem s) (iobuf_queue 0 2) ! m)\<lparr>mr2 := data\<rparr>]) (s_mem s)))\<lparr>rung := c # rung (s_mem s)\<rparr>)"
    "rpc_ids q = rpc_ids (q_at (s_mem s) (iobuf_queue 0 2)) @ [m]"
    by (rule ack_ok [OF inv(1) c(1) inv(4) m32(2,1) c(2), of data])
  have same: "b_at v (iobuf_queue 0 2) = b_at v (iobuf_queue 0 0)" for v by (simp add: b_at_def)
  have len: "length (b_at (s_mem s) (iobuf_queue 0 0)) = 32" using inv(1) by simp
  show "rc = 0" using run q(1) by simp
  have "m \<in> s_lent s" "m \<notin> set (rpc_ids (q_at (s_mem s) (iobuf_queue 0 2)))"
    using f(1,2) m by (auto simp: in_flight_def)
  with run q inv(1) len show "answer_step s (s\<lparr>s_mem := w, km_held := h, dev_held := h'\<rparr>) m data"
    by (auto simp: answer_step_def same)
  show "q_at w (iobuf_queue 0 k) = q_at (s_mem s) (iobuf_queue 0 k)" if "k < 2" for k
    using run q(1) inv(1) that len by (auto simp: same)
qed

lemma backend_step_effect:
  assumes I: "session_inv s" and step: "backend_step s s'"
  shows "shift_step s s' \<or> (\<exists>m data. answer_step s s' m data)" "work s' < work s"
proof -
  note inv = session_invD [OF I]
  note ends = inv(5-7) [unfolded endpoint_ok_def]
  from step have st: "session_step s s'" "s_drv s' = s_drv s" "drv_held s' = drv_held s" by (simp_all add: backend_step_def)
  have less: "length (remove1 m h) < length h" if "m \<in> set h" for m and h :: "msgptr list"
    using that length_pos_if_in_set [OF that] by (simp add: length_remove1)
  from st(1) have "(shift_step s s' \<or> (\<exists>m data. answer_step s s' m data)) \<and> work s' < work s"
  proof cases
    case (drv_request op r0 r1 r2 r3 rc drv' w)
    obtain c where c: "doorbell (s_drv s) = Some c" using ends(1) by auto
    have rq: "request (driver_rpc (s_drv s)) = iobuf_queue 0 0" using ends(1) by simp
    have free: "lent (buffer_state (driver_rpc (s_drv s))) \<noteq> {..<32}"
      using drv_request(2) request_exhausted [OF inv(8)] rq by (auto simp: driver_rpc_request_def Let_def)
    note room = request_room [OF I free [folded s_lent_def]]
    have False
      by (rule drv_request_ok [OF inv(1) rq inv(2) room inv(8) free c, of op r0 r1 r2 r3])
        (use drv_request st(2) in \<open>auto dest!: buffer_state_fixed\<close>)
    then show ?thesis ..
  next
    case (km_receive b m q)
    with receive_cases [OF inv(2), of b m q] ends obtain ms where
      "rpc_ids (q_at (s_mem s) (iobuf_queue 0 0)) = m # ms" "rpc_ids q = ms" by auto
    with km_receive ends inv(1) show ?thesis by (simp add: shift_step_def work_ids)
  next
    case (km_forward m rc w)
    obtain q where q: "driver_rpc_request_fwd (Some (s_dev s)) (Some m) (s_mem s) = Inr (0, put_q (request (driver_rpc (s_dev s))) q (s_mem s))"
      "rpc_ids q = rpc_ids (q_at (s_mem s) (request (driver_rpc (s_dev s)))) @ [m]"
      by (rule forward_ok [of "s_mem s" "s_dev s" m]) (use held_facts [OF I, of m] km_forward ends inv in \<open>auto simp flip: One_nat_def\<close>)
    have rq: "request (driver_rpc (s_dev s)) = iobuf_queue 0 1" using ends(3) by simp
    from q km_forward inv(1) less [of m "km_held s"] show ?thesis
      by (simp add: shift_step_def work_ids rq)
  next
    case (km_reply m data rc w)
    note a = reply_answers [OF I _ _ km_reply(3)]
    from a(1) a(2) [where h = "remove1 m (km_held s)" and h' = "dev_held s"] a(3) km_reply less [of m "km_held s"] show ?thesis
      by (auto simp: work_ids answer_step_def)
  next
    case (dev_receive b m q)
    with receive_cases [OF inv(3), of b m q] ends obtain ms where
      "rpc_ids (q_at (s_mem s) (iobuf_queue 0 1)) = m # ms" "rpc_ids q = ms" by auto
    with dev_receive ends inv(1) show ?thesis by (simp add: shift_step_def work_ids)
  next
    case (dev_reply m data rc w)
    note a = reply_answers [OF I _ _ dev_reply(3)]
    from a(1) a(2) [where h = "km_held s" and h' = "remove1 m (dev_held s)"] a(3) dev_reply less [of m "dev_held s"] show ?thesis
      by (auto simp: work_ids answer_step_def)
  next
    case (drv_response b tid m t q)
    with st(3) show ?thesis by simp
  next
    case (drv_reclaim m st')
    with st(3) less [of m "drv_held s"] show ?thesis by simp
  qed
  then show "shift_step s s' \<or> (\<exists>m data. answer_step s s' m data)" "work s' < work s" by blast+
qed

lemma backend_moves_table:
  assumes inv: "sys_inv S" and step: "backend_step (session_of S) s'"
  defines "px' \<equiv> (g_px (sys_mon S))\<lparr>px_mem := s_mem s'\<rparr>"
  shows "\<exists>e. table_next (table_of (g_px (sys_mon S))) e = Some (table_of px')"
proof -
  let ?px = "g_px (sys_mon S)"
  note i = sys_invD [OF inv]
  have match: "slots_match px'" using sys_invD(8) [OF backend_moves_inv [OF inv step]] by (simp add: px'_def)
  have keep: "lent_ids px' = lent_ids ?px" "ioacks px' = ioacks ?px" by (simp_all add: px'_def lent_ids_def)
  consider "shift_step (session_of S) s'" | m data where "answer_step (session_of S) s' m data"
    using backend_step_effect(1) [OF i(1) step] by blast
  then show ?thesis
  proof cases
    case 1
    then have "table_of px' = table_of ?px"
      by (intro table_same keep) (simp_all add: px'_def shift_step_def req_msg_def resp_ids_def vso_refs)
    then show ?thesis by (intro exI [of _ Internal]) simp
  next
    case 2
    note a = 2 [unfolded answer_step_def session_of_simps]
    have len: "length (b_at (px_mem ?px) (iobuf_queue 0 0)) = 32" using session_invD(1) [OF i(1)] by simp
    have m: "m \<in> lent_ids ?px" "m \<notin> set (resp_ids ?px)" "m < 32"
      using a lent_below by (auto simp: resp_ids_def vso_refs)
    have msg: "req_msg px' j = (if j = m then (req_msg ?px m)\<lparr>mr2 := data\<rparr> else req_msg ?px j)" for j
      using a m(3) len by (auto simp: px'_def req_msg_def vso_refs nth_list_update)
    have resp: "set (resp_ids px') = insert m (set (resp_ids ?px))"
      using a by (auto simp: px'_def resp_ids_def vso_refs)
    let ?k = "msg_slot (req_msg ?px m)" and ?q = "\<lambda>j. \<lparr>rq_word = mr0 (req_msg ?px j), rq_addr = mr1 (req_msg ?px j), rq_ack = ioacks ?px ! msg_slot (req_msg ?px j)\<rparr>"
    have slot: "msg_slot (req_msg px' j) = msg_slot (req_msg ?px j)" for j by (simp add: msg msg_slot_def)
    have pending: "table_of ?px ?k = Slot_Pending (?q m) (mr2 (req_msg ?px m))"
      using table_of_lent [OF i(8) m(1)] m(2) by (simp add: entry_of_def Let_def)
    have "table_of px' = (table_of ?px)(?k := Slot_Answered (?q m) data)"
    proof (rule table_eqI [OF match])
      show "((table_of ?px)(?k := Slot_Answered (?q m) data)) k = Slot_Free" if "k \<notin> waiting px'" for k
      proof -
        have "k \<notin> waiting ?px" using that by (simp add: px'_def waiting_def)
        then show ?thesis using pending table_of_free [OF i(8), of k] by auto
      qed
      show "((table_of ?px)(?k := Slot_Answered (?q m) data)) (msg_slot (req_msg px' j)) = entry_of px' j" if "j \<in> lent_ids px'" for j
      proof (cases "j = m")
        case True
        then show ?thesis using resp by (simp add: slot entry_of_def msg keep Let_def) (simp add: msg_slot_def)
      next
        case False
        have j: "j \<in> lent_ids ?px" using that keep by simp
        have "msg_slot (req_msg ?px j) \<noteq> ?k"
          using i(8) j m(1) False unfolding slots_match_def bij_betw_def inj_on_def by blast
        with table_of_lent [OF i(8) j] resp False show ?thesis by (simp add: slot entry_of_def msg keep Let_def)
      qed
    qed
    with pending show ?thesis by (intro exI [of _ "Answer ?k data"]) simp
  qed
qed

lemma backend_signals_table:
  assumes inv: "sys_inv S" and r: "r = sys_km S \<or> r = sys_dev S"
    and tx: "device_event_tx (Some r) op 0 r1 r2 r3 (px_mem (g_px (sys_mon S))) = Inr (rc, w)"
  shows "table_of ((g_px (sys_mon S))\<lparr>px_mem := w\<rparr>) = table_of (g_px (sys_mon S))"
proof -
  note i = sys_invD [OF inv]
  have dev: "device_event r = devevt_queue" using i(3,4) r by auto
  have mem: "mem_ok (px_mem (g_px (sys_mon S)))" using session_invD(1) [OF i(1)] by simp
  have ev: "event_ok (q_at (px_mem (g_px (sys_mon S))) devevt_queue, b_at (px_mem (g_px (sys_mon S))) devevt_queue)"
    using i(2) by (simp add: events_ok_def)
  note c = event_tx_cases [OF ev mem dev tx]
  show ?thesis by (rule table_same) (simp_all add: lent_ids_def req_msg_def resp_ids_def vso_refs c)
qed

section \<open>Runs of the monitor\<close>

text \<open>An answer is handed to the client: the callback of its request runs on the data.\<close>
definition hand_answer :: "'vm vm_ops \<Rightarrow> ioack \<times> seL4_Word \<Rightarrow> natives \<times> 'vm \<Rightarrow> natives \<times> 'vm" where
  "hand_answer E a st =
     (case ack_callback (fst a) of None \<Rightarrow> st
      | Some f \<Rightarrow> snd (run_ioack E f (snd a) (ack_cookie (fst a)) (fst st) (snd st)))"

definition free_slots :: "nat set \<Rightarrow> ioack list \<Rightarrow> ioack list" where
  "free_slots K acks = map (\<lambda>k. if k \<in> K then (acks ! k)\<lparr>ack_callback := None\<rparr> else acks ! k) [0..<length acks]"

lemma free_slots_simps [simp]: "length (free_slots K acks) = length acks"
  "k < length acks \<Longrightarrow> free_slots K acks ! k = (if k \<in> K then (acks ! k)\<lparr>ack_callback := None\<rparr> else acks ! k)"
  by (simp_all add: free_slots_def)

lemma process_response:
  assumes len: "length (ioacks (g_px s)) = 32" and m: "is_mmio msg" "msg_slot msg \<in> waiting (g_px s)"
  shows "rpc_process G msg s = Inr (0, s\<lparr>g_px := (g_px s)\<lparr>ioacks := free_slots {msg_slot msg} (ioacks (g_px s))\<rparr>,
      g_nt := fst (hand_answer (g_ops G) (ioacks (g_px s) ! msg_slot msg, mr2 msg) (g_nt s, g_vm s)),
      g_vm := snd (hand_answer (g_ops G) (ioacks (g_px s) ! msg_slot msg, mr2 msg) (g_nt s, g_vm s))\<rparr>)"
proof -
  let ?k = "msg_slot msg"
  have k: "?k < 32" "ack_callback (ioacks (g_px s) ! ?k) \<noteq> None" using m(2) len by (simp_all add: waiting_def)
  then obtain f where f: "ack_callback (ioacks (g_px s) ! ?k) = Some f" by auto
  obtain rc nt vm where run: "run_ioack (g_ops G) f (mr2 msg) (ack_cookie (ioacks (g_px s) ! ?k)) (g_nt s) (g_vm s) = (rc, nt, vm)"
    by (metis prod_cases3)
  have "rc = 0" using run_ioack_keeps [OF run] by simp
  moreover have "(ioacks (g_px s))[?k := (ioacks (g_px s) ! ?k)\<lparr>ack_callback := None\<rparr>] = free_slots {?k} (ioacks (g_px s))"
    using k len by (intro nth_equalityI) (auto simp: nth_list_update)
  moreover have "rpc_process G msg s = verdict (cb_mmio G QEMU_OP_MMIO msg s)"
    using rpc_process_cases [OF refl, of G msg s] m(1) by (simp add: is_mmio_def)
  ultimately show ?thesis
    using k(1) f run len
    by (simp add: cb_mmio_def handle_mmio_def ioreq_finish_def Let_def verdict_Inr rc_defs hand_answer_def flip: msg_slot_def)
qed

text \<open>The answer a response carries.\<close>
definition answer_of :: "io_proxy \<Rightarrow> rpcmsg \<Rightarrow> ioack \<times> seL4_Word" where
  "answer_of px m = (ioacks px ! msg_slot m, mr2 m)"

lemma waiting_free_slots: "waiting (px\<lparr>ioacks := free_slots K (ioacks px)\<rparr>) = waiting px - K"
  by (auto simp: waiting_def split: if_splits)

lemma free_slots_twice: "free_slots K (free_slots L acks) = free_slots (K \<union> L) acks"
  by (intro nth_equalityI) auto

lemma free_slots_none: "free_slots {} acks = acks"
  by (intro nth_equalityI) auto

text \<open>Responses to different waiting requests are handed over in order, and free their slots.\<close>
lemma process_responses:
  assumes "length (ioacks (g_px s)) = 32" "\<forall>m \<in> set ms. is_mmio m \<and> msg_slot m \<in> waiting (g_px s)" "distinct (map msg_slot ms)"
  shows "process_msgs G 0 ms s = Inr (0, [], s\<lparr>g_px := (g_px s)\<lparr>ioacks := free_slots (msg_slot ` set ms) (ioacks (g_px s))\<rparr>,
      g_nt := fst (fold (hand_answer (g_ops G)) (map (answer_of (g_px s)) ms) (g_nt s, g_vm s)),
      g_vm := snd (fold (hand_answer (g_ops G)) (map (answer_of (g_px s)) ms) (g_nt s, g_vm s))\<rparr>)"
  using assms
proof (induction ms arbitrary: s)
  case Nil
  show ?case by (simp add: free_slots_none)
next
  case (Cons m ms)
  define s1 where "s1 = s\<lparr>g_px := (g_px s)\<lparr>ioacks := free_slots {msg_slot m} (ioacks (g_px s))\<rparr>,
      g_nt := fst (hand_answer (g_ops G) (answer_of (g_px s) m) (g_nt s, g_vm s)),
      g_vm := snd (hand_answer (g_ops G) (answer_of (g_px s) m) (g_nt s, g_vm s))\<rparr>"
  have one: "rpc_process G m s = Inr (0, s1)"
    using process_response [OF Cons.prems(1), of m G] Cons.prems(2) by (simp add: s1_def answer_of_def)
  have rest: "\<forall>m \<in> set ms. is_mmio m \<and> msg_slot m \<in> waiting (g_px s1)"
    using Cons.prems(2,3) by (auto simp: s1_def waiting_free_slots) (metis image_eqI)
  have answers: "answer_of (g_px s1) m' = answer_of (g_px s) m'" if "m' \<in> set ms" for m'
  proof -
    have "msg_slot m' < 32" using Cons.prems(1,2) that by (auto simp: waiting_def)
    moreover have "msg_slot m' \<noteq> msg_slot m" using Cons.prems(3) that by simp (metis image_eqI)
    ultimately show ?thesis using Cons.prems(1) by (simp add: answer_of_def s1_def)
  qed
  have maps: "map (answer_of (g_px s1)) ms = map (answer_of (g_px s)) ms" using answers by simp
  have "process_msgs G 0 ms s1 = Inr (0, [], s1\<lparr>g_px := (g_px s1)\<lparr>ioacks := free_slots (msg_slot ` set ms) (ioacks (g_px s1))\<rparr>,
      g_nt := fst (fold (hand_answer (g_ops G)) (map (answer_of (g_px s1)) ms) (g_nt s1, g_vm s1)),
      g_vm := snd (fold (hand_answer (g_ops G)) (map (answer_of (g_px s1)) ms) (g_nt s1, g_vm s1))\<rparr>)"
    by (rule Cons.IH) (use Cons.prems rest in \<open>simp_all add: s1_def\<close>)
  from this [unfolded maps] one show ?case by (simp add: s1_def free_slots_twice)
qed

text \<open>The answers that wait for the monitor, as entries of the table.\<close>
definition waiting_answers :: "io_proxy \<Rightarrow> (nat \<times> io_request \<times> seL4_Word) list" where
  "waiting_answers px = map (\<lambda>m. (msg_slot m, \<lparr>rq_word = mr0 m, rq_addr = mr1 m, rq_ack = ioacks px ! msg_slot m\<rparr>, mr2 m)) (responses px)"

lemma waiting_answers_all:
  assumes inv: "sys_inv S"
  defines "px \<equiv> g_px (sys_mon S)"
  shows "all_answers (table_of px) (waiting_answers px)"
proof -
  note i = sys_invD [OF inv, folded px_def] and box = inbox_answerable [OF inv, folded px_def]
  have resp: "responses px = map (req_msg px) (resp_ids px)"
    by (simp add: responses_def req_msg_def [abs_def] vso_refs b_at_def)
  have inj: "inj_on (\<lambda>i. msg_slot (req_msg px i)) (lent_ids px)" using i(8) by (simp add: slots_match_def bij_betw_def)
  have "distinct (map fst (waiting_answers px))"
    using inj_on_subset [OF inj box(3)] box(4) by (simp add: waiting_answers_def resp comp_def distinct_map)
  moreover have "table_of px k = Slot_Answered r d" if answer: "(k, r, d) \<in> set (waiting_answers px)" for k r d
  proof -
    from answer obtain j where j: "j \<in> set (resp_ids px)" "k = msg_slot (req_msg px j)"
      "r = \<lparr>rq_word = mr0 (req_msg px j), rq_addr = mr1 (req_msg px j), rq_ack = ioacks px ! k\<rparr>" "d = mr2 (req_msg px j)"
      by (auto simp: waiting_answers_def resp)
    with table_of_lent [OF i(8), of j] box(3) show ?thesis by (auto simp: entry_of_def Let_def)
  qed
  moreover have "k \<in> fst ` set (waiting_answers px)" if k: "table_of px k = Slot_Answered r d" for k r d
  proof -
    have "k \<in> waiting px" using table_of_free [OF i(8), of k] k by auto
    then obtain j where j: "j \<in> lent_ids px" "k = msg_slot (req_msg px j)" using i(8) unfolding slots_match_def bij_betw_def by blast
    with table_of_lent [OF i(8) j(1)] k have "j \<in> set (resp_ids px)" by (auto simp: entry_of_def Let_def split: if_splits)
    with j(2) show ?thesis by (force simp: waiting_answers_def resp)
  qed
  ultimately show ?thesis by (auto simp: all_answers_def)
qed

lemma event_keeps:
  assumes "\<not> is_mmio m" "rpc_process G m s = Inr (rc, s')"
  shows "g_nt s' = g_nt s \<and> ioacks (g_px s') = ioacks (g_px s)"
proof -
  note cb = cb_msi_def cb_pci_def cb_emudev_def cb_control_def verdict_def handle_control_def Let_def
  show ?thesis
    using assms rpc_process_cases [OF refl, of G m s]
    by (auto simp: is_mmio_def cb res_simps split: if_splits)
qed

lemma events_keep:
  assumes "\<forall>m \<in> set ms. \<not> is_mmio m" "process_msgs G rc ms s = Inr (rc', late, s')"
  shows "g_nt s' = g_nt s \<and> ioacks (g_px s') = ioacks (g_px s)"
  using assms
proof (induction ms arbitrary: rc s)
  case (Cons m ms)
  then obtain rc1 s1 where one: "rpc_process G m s = Inr (rc1, s1)" by (auto simp: res_simps)
  from Cons one event_keeps [OF _ one] show ?case by (auto split: if_splits)
qed simp

text \<open>A run hands over all answers, in the order of the replies, and then handles events.\<close>
lemma run_hands_over:
  assumes env: "env_ok G level" and inv: "sys_inv S"
  defines "s \<equiv> sys_mon S"
  obtains rc late s1 s2 s' where "process_msgs G 0 (responses (g_px s)) s = Inr (0, [], s1)"
    "(g_nt s1, g_vm s1) = fold (hand_answer (g_ops G)) (map (\<lambda>(k, r, d). (rq_ack r, d)) (waiting_answers (g_px s))) (g_nt s, g_vm s)"
    "process_msgs G 0 (events (g_px s)) s1 = Inr (rc, late, s2)" "rpc_run G s = Inr (rc, s')" "g_nt s' = g_nt s1" "g_vm s' = g_vm s2"
    "ioacks (g_px s') = free_slots (msg_slot ` set (responses (g_px s))) (ioacks (g_px s))"
proof -
  note i = sys_invD [OF inv, folded s_def] and box = inbox_answerable [OF inv, folded s_def]
  have len: "length (ioacks (g_px s)) = 32" and inbox: "inbox_ok (g_px s)" using sys_inv_proxy [OF inv] by (simp_all add: s_def)
  have E: "irq_spec (g_ops G) level" "lists_ok (g_lists G)" "bus_below_last (g_pci_env G)" using env by (simp_all add: env_ok_def)
  let ?ms = "responses (g_px s)"
  let ?st = "fold (hand_answer (g_ops G)) (map (answer_of (g_px s)) ?ms) (g_nt s, g_vm s)"
  define s1 where "s1 = s\<lparr>g_px := (g_px s)\<lparr>ioacks := free_slots (msg_slot ` set ?ms) (ioacks (g_px s))\<rparr>, g_nt := fst ?st, g_vm := snd ?st\<rparr>"
  have "filter is_mmio (?ms @ events (g_px s)) = ?ms"
    using box(2) i(2) by (simp add: events_ok_def filter_empty_conv)
  then have wait: "\<forall>m \<in> set ?ms. is_mmio m \<and> msg_slot m \<in> waiting (g_px s)" "distinct (map msg_slot ?ms)"
    using box(1,2) unfolding answerable_def by auto
  have r1: "process_msgs G 0 ?ms s = Inr (0, [], s1)" using process_responses [OF len wait] by (simp add: s1_def)
  obtain k1 s1' where "process_msgs G 0 ?ms s = Inr (0, drop k1 ?ms, s1')" "batch_state (events (g_px s)) ?ms k1 s s1'"
    using process_msgs_total [OF E i(5,6,7) box(1), of 0] box(2) by blast
  with r1 have b1: "batch_state (events (g_px s)) ?ms k1 s s1" "drop k1 ?ms = []" by simp_all
  note b1' = b1(1) [unfolded batch_state_def]
  have "answerable (waiting (g_px s1)) (drop k1 ?ms @ events (g_px s))" using b1' by blast
  then have rest: "answerable (waiting (g_px s1)) (events (g_px s) @ [])" using b1(2) by simp
  obtain rc late s2 where r2: "process_msgs G 0 (events (g_px s)) s1 = Inr (rc, late, s2)"
    using process_msgs_total [OF E _ _ _ rest, of 0] b1' by blast
  obtain s' where s': "rpc_run G s = Inr (rc, s')" "s' = with_io (px_rpc (g_px s')) (px_mem (g_px s')) s2"
    using rpc_run_spec [OF inbox r1 r2 refl] by blast
  have keep: "g_nt s2 = g_nt s1 \<and> ioacks (g_px s2) = ioacks (g_px s1)"
    by (rule events_keep [OF _ r2]) (use i(2) in \<open>simp add: events_ok_def\<close>)
  have "g_nt s' = g_nt s2" "g_vm s' = g_vm s2" "ioacks (g_px s') = ioacks (g_px s2)" by (subst s'(2); simp)+
  moreover have "map (\<lambda>(k, r, d). (rq_ack r, d)) (waiting_answers (g_px s)) = map (answer_of (g_px s)) ?ms"
    by (simp add: waiting_answers_def answer_of_def)
  ultimately show thesis using that [OF r1 _ r2 s'(1)] keep by (simp add: s1_def)
qed

lemma monitor_runs_table:
  assumes env: "env_ok G level" and inv: "sys_inv S" and run: "rpc_run G (sys_mon S) = Inr (rc, s')"
  defines "px \<equiv> g_px (sys_mon S)"
  shows "table_next (table_of px) (Deliver (waiting_answers px)) = Some (table_of (g_px s'))"
proof -
  let ?px' = "g_px s'"
  note i = sys_invD [OF inv, folded px_def] and i' = sys_invD [OF monitor_runs_inv [OF env inv run]]
  note box = inbox_answerable [OF inv, folded px_def]
  have len: "length (ioacks px) = 32" using sys_inv_proxy(3) [OF inv] by (simp add: px_def)
  obtain k where r: "resp_ids ?px' = []" "lent_ids ?px' = lent_ids px - set (resp_ids px)"
    "waiting ?px' = waiting px - msg_slot ` set (responses px)" "io_keeps px ?px'"
    by (rule rpc_run_total [OF env inv]) (use run in \<open>auto simp: px_def\<close>)
  have acks: "ioacks ?px' = free_slots (msg_slot ` set (responses px)) (ioacks px)"
    by (rule run_hands_over [OF env inv]) (use run in \<open>auto simp: px_def\<close>)
  have req: "req_msg ?px' = req_msg px" using r(4) by (simp add: io_keeps_def req_msg_def fun_eq_iff)
  have K: "fst ` set (waiting_answers px) = msg_slot ` set (responses px)" by (simp add: waiting_answers_def image_image)
  have "table_of ?px' = (\<lambda>k. if k \<in> fst ` set (waiting_answers px) then Slot_Free else table_of px k)"
  proof (rule table_eqI)
    show "slots_match ?px'" using i'(8) by simp
    show "(if k \<in> fst ` set (waiting_answers px) then Slot_Free else table_of px k) = Slot_Free" if "k \<notin> waiting ?px'" for k
      using that r(3) table_of_free [OF i(8), of k] by (auto simp: K)
    show "(if msg_slot (req_msg ?px' j) \<in> fst ` set (waiting_answers px) then Slot_Free else table_of px (msg_slot (req_msg ?px' j))) = entry_of ?px' j"
      if "j \<in> lent_ids ?px'" for j
    proof -
      have j: "j \<in> lent_ids px" "j \<notin> set (resp_ids px)" using that r(2) by auto
      have "slots_match ?px'" using i'(8) by simp
      then have "msg_slot (req_msg ?px' j) \<in> waiting ?px'" using that unfolding slots_match_def bij_betw_def by blast
      then have "msg_slot (req_msg px j) \<in> waiting ?px'" by (simp add: req)
      then have k: "msg_slot (req_msg px j) \<notin> msg_slot ` set (responses px)" "msg_slot (req_msg px j) < 32"
        using r(3) len by (auto simp: waiting_def)
      with table_of_lent [OF i(8) j(1)] j(2) len show ?thesis
        by (simp add: req K entry_of_def r(1) acks Let_def)
    qed
  qed
  with waiting_answers_all [OF inv, folded px_def] show ?thesis by simp
qed

section \<open>The system refines the table\<close>

definition sys_table :: "'vm system \<Rightarrow> io_table" where
  "sys_table S = table_of (g_px (sys_mon S))"

lemma sys_step_table:
  assumes env: "env_ok G level" and inv: "sys_inv S" and step: "sys_step G S S'"
  shows "\<exists>e. table_next (sys_table S) e = Some (sys_table S')"
proof -
  have issued: "\<exists>e. table_next (table_of (g_px (sys_mon S))) e = Some (table_of px)"
    if "unat slot < 32" "ioreq_start (g_px (sys_mon S)) slot ar aw cookie addr_space dir offset sz val = Inr (rc, px)"
    for slot ar aw cookie addr_space dir offset sz val rc px
    using start_issues(1) [OF inv that] by blast
  from step show ?thesis
  proof cases
    case (guest_runs vm)
    then show ?thesis by (intro exI [of _ Internal]) (simp add: sys_table_def)
  next
    case (guest_faults vcpu paddr len r px)
    obtain dir val rc where "ioreq_start (g_px (sys_mon S)) (of_nat vcpu) Ioack_Vcpu_Read Ioack_Vcpu_Write vcpu (ucast AS_GLOBAL) dir paddr len val = Inr (rc, px)"
      using fault_starts [OF guest_faults(3)] by blast
    moreover have "unat (of_nat vcpu :: u32) < 32" using guest_faults(2) by (simp add: SEL4_MMIO_MAX_VCPU_def unat_of_nat)
    ultimately show ?thesis using issued guest_faults(1) by (simp add: sys_table_def)
  next
    case (native_requests sem_err thread addr_space dir addr sz val rc px nt)
    from native_begin_cases(2) [OF native_requests(2) sys_invD(7) [OF inv]] show ?thesis
    proof
      assume "px = g_px (sys_mon S)"
      then show ?thesis using native_requests(1) by (intro exI [of _ Internal]) (simp add: sys_table_def)
    qed (use issued native_requests(1) in \<open>auto simp: sys_table_def\<close>)
  next
    case (native_resumes thread v nt)
    then show ?thesis by (intro exI [of _ Internal]) (simp add: sys_table_def)
  next
    case (backend_moves s')
    with backend_moves_table [OF inv] show ?thesis by (simp add: sys_table_def)
  next
    case (backend_signals r op r1 r2 r3 rc w)
    with backend_signals_table [OF inv backend_signals(2,4)] show ?thesis by (intro exI [of _ Internal]) (simp add: sys_table_def)
  next
    case (monitor_runs rc s')
    with monitor_runs_table [OF env inv monitor_runs(2)] show ?thesis
      by (intro exI [of _ "Deliver (waiting_answers (g_px (sys_mon S)))"]) (simp add: sys_table_def)
  qed
qed

interpretation io: simulation "\<lambda>g S. env_ok (fst g) (snd g) \<and> sys_inv S" "\<lambda>g. sys_step (fst g)" table_next sys_table
  by unfold_locales (auto intro: sys_step_inv sys_step_table)


section \<open>Turns of the backend\<close>

text \<open>The step \<open>backend_moves\<close> of the system, alone.\<close>
definition backend_turn :: "'vm system \<Rightarrow> 'vm system \<Rightarrow> bool" where
  "backend_turn S S' \<longleftrightarrow> (\<exists>s'. backend_step (session_of S) s' \<and>
     S' = put_proxy ((g_px (sys_mon S))\<lparr>px_mem := s_mem s'\<rparr>) S\<lparr>sys_km_held := km_held s', sys_dev_held := dev_held s'\<rparr>)"

lemma backend_turn_step: "backend_turn S S' \<Longrightarrow> sys_step G S S'"
  by (auto simp: backend_turn_def intro: sys_step.backend_moves)

lemma backend_turn_work:
  assumes "sys_inv S" "backend_turn S S'"
  shows "sys_inv S'" "work (session_of S') < work (session_of S)"
  using assms(2) backend_moves_inv [OF assms(1)] session_of_moves [OF assms(1)] backend_step_effect(2) [OF sys_invD(1) [OF assms(1)]]
  by (auto simp: backend_turn_def)

text \<open>A message on its way has at most five hops left, and there are 32.\<close>
lemma work_bound:
  assumes "session_inv s"
  shows "work s \<le> 160"
proof -
  note f = in_flight_facts [OF assms]
  have "length (in_flight s) = card (s_lent s)" using f(1,2) distinct_card by metis
  also have "card (s_lent s) \<le> card {..<32 :: nat}"
    by (rule card_mono) (use lent_subset [of "buffer_state (driver_rpc (s_drv s))"] in \<open>auto simp: s_lent_def\<close>)
  finally show ?thesis by (simp add: in_flight_def work_ids)
qed

lemma backend_turns:
  assumes "(backend_turn ^^ n) S S'" "sys_inv S"
  shows "sys_inv S' \<and> n + work (session_of S') \<le> work (session_of S)"
  using assms
proof (induction n arbitrary: S')
  case (Suc n)
  then obtain S1 where S1: "(backend_turn ^^ n) S S1" "backend_turn S1 S'" by auto
  from Suc.IH [OF S1(1) Suc.prems(2)] backend_turn_work [of S1 S'] S1(2) show ?case by auto
qed simp

text \<open>When the backend has nothing left to do, everything is answered.\<close>
lemma backend_rest_lent:
  assumes inv: "sys_inv S" and rest: "\<nexists>S'. backend_turn S S'"
  shows "lent_ids (g_px (sys_mon S)) = set (resp_ids (g_px (sys_mon S)))"
proof -
  note i = sys_invD(1) [OF inv]
  have "\<nexists>s'. backend_step (session_of S) s'" using rest by (auto simp: backend_turn_def)
  then have "in_flight (session_of S) = resp_ids (g_px (sys_mon S))"
    using session_progress [OF i] by (auto simp: in_flight_def resp_ids_def vso_refs)
  then show ?thesis using in_flight_facts(2) [OF i] by simp
qed

text \<open>Then a run of the monitor leaves no request.\<close>
lemma backend_done:
  assumes env: "env_ok G level" and inv: "sys_inv S" and rest: "\<nexists>S'. backend_turn S S'"
  shows "\<exists>rc s'. rpc_run G (sys_mon S) = Inr (rc, s') \<and> waiting (g_px s') = {}"
proof -
  let ?px = "g_px (sys_mon S)"
  have "responses ?px = map (req_msg ?px) (resp_ids ?px)"
    by (simp add: responses_def req_msg_def [abs_def] vso_refs b_at_def)
  with backend_rest_lent [OF inv rest] sys_invD(8) [OF inv] have "msg_slot ` set (responses ?px) = waiting ?px"
    by (auto simp: slots_match_def bij_betw_def image_image)
  then show ?thesis by (metis rpc_run_total [OF env inv] Diff_cancel)
qed

section \<open>Facts the properties share\<close>

lemma table_next_keeps:
  assumes "table_next T e = Some T'" "T' k \<noteq> Slot_Free"
  shows "T k = Slot_Pending r v \<Longrightarrow> T' k = Slot_Pending r v \<or> (\<exists>d. T' k = Slot_Answered r d)"
    "T k = Slot_Answered r d \<Longrightarrow> T' k = Slot_Answered r d"
  using assms by (cases e; auto split: if_splits io_slot.splits)+

text \<open>A fault enters its request in the slot of its CPU.\<close>
lemma fault_enters:
  fixes E :: "'vm vm_ops" and vm :: "'vm" and paddr :: seL4_Word
  assumes inv: "sys_inv S"
    and cpu: "vcpu < SEL4_MMIO_MAX_VCPU" and entry: "sys_table S vcpu = Slot_Free" and len: "len \<le> 8"
  defines "rd \<equiv> is_vcpu_read_fault E vcpu vm"
  defines "r \<equiv> \<lparr>rq_word = mmio_request_mr0 (if rd then SEL4_IO_DIR_READ else SEL4_IO_DIR_WRITE) (ucast AS_GLOBAL) (of_nat vcpu) len,
      rq_addr = paddr, rq_ack = \<lparr>ack_callback = Some (if rd then Ioack_Vcpu_Read else Ioack_Vcpu_Write), ack_cookie = vcpu\<rparr>\<rparr>"
  defines "val \<equiv> if rd then 0 else get_vcpu_fault_data E vcpu vm AND
      drop_bit (unat ((get_vcpu_fault_address E vcpu vm AND 0x3) * 8)) (get_vcpu_fault_data_mask E vcpu vm)"
  shows "\<exists>px. mmio_fault_handler E vcpu paddr len (g_px (sys_mon S)) vm = Inr (FAULT_HANDLED, px)
    \<and> table_of px = (sys_table S)(vcpu := Slot_Pending r val)"
proof -
  have free: "vcpu \<notin> waiting (g_px (sys_mon S))" using entry table_of_free [OF sys_invD(8) [OF inv]] by (simp add: sys_table_def)
  obtain px where px: "mmio_fault_handler E vcpu paddr len (g_px (sys_mon S)) vm = Inr (FAULT_HANDLED, px)"
    using fault_served [OF inv cpu free len, of E paddr vm] by auto
  obtain rc where start: "ioreq_start (g_px (sys_mon S)) (of_nat vcpu) Ioack_Vcpu_Read Ioack_Vcpu_Write vcpu (ucast AS_GLOBAL)
      (if rd then SEL4_IO_DIR_READ else SEL4_IO_DIR_WRITE) paddr len val = Inr (rc, px)"
    using px by (auto simp: mmio_fault_handler_def Let_def res_simps rd_def val_def split: if_splits)
  have slot: "unat (of_nat vcpu :: u32) = vcpu" "unat (of_nat vcpu :: u32) < 32"
    using cpu by (simp_all add: SEL4_MMIO_MAX_VCPU_def unat_of_nat)
  have "SEL4_IO_DIR_WRITE \<noteq> SEL4_IO_DIR_READ" by (simp add: SEL4_IO_DIR_WRITE_def SEL4_IO_DIR_READ_def)
  with start_issues(2) [OF inv slot(2) start] px show ?thesis by (auto simp: slot(1) r_def sys_table_def)
qed


text \<open>The backend comes to rest.\<close>
lemma backend_rests:
  assumes "sys_inv S"
  shows "\<exists>n S'. (backend_turn ^^ n) S S' \<and> (\<nexists>S''. backend_turn S' S'')"
  using assms
proof (induction "work (session_of S)" arbitrary: S rule: less_induct)
  case less
  show ?case
  proof (cases "\<exists>S1. backend_turn S S1")
    case True
    then obtain S1 where S1: "backend_turn S S1" by blast
    note w = backend_turn_work [OF less.prems S1]
    obtain n S' where "(backend_turn ^^ n) S1 S'" "\<nexists>S''. backend_turn S' S''" using less.hyps [OF w(2,1)] by blast
    then show ?thesis by (intro exI [of _ "Suc n"] exI [of _ S']) (blast intro: relpowp_Suc_I2 S1)
  qed (auto intro!: exI [of _ 0])
qed

lemma turns_reachable: "(backend_turn ^^ n) S S' \<Longrightarrow> sys_reachable G level S \<Longrightarrow> sys_reachable G level S'"
  by (induction n arbitrary: S') (auto intro: sys_next backend_turn_step)

lemma turns_wait: "(backend_turn ^^ n) S S' \<Longrightarrow> waiting (g_px (sys_mon S')) = waiting (g_px (sys_mon S))"
proof (induction n arbitrary: S')
  case (Suc n)
  then obtain S1 where S1: "(backend_turn ^^ n) S S1" "backend_turn S1 S'" by auto
  from S1(2) have "waiting (g_px (sys_mon S')) = waiting (g_px (sys_mon S1))" by (auto simp: backend_turn_def waiting_def)
  with Suc.IH [OF S1(1)] show ?case by simp
qed simp

section \<open>A system with a request and with an answer\<close>

lemma demo_pending:
  "\<exists>S r v. sys_reachable demo_env demo_level S \<and> sys_table S = (\<lambda>k. if k = 3 then Slot_Pending r v else Slot_Free)"
proof -
  obtain S where S: "sys_reachable demo_env demo_level S" "waiting (g_px (sys_mon S)) = {}" using demo_reachable by blast
  note inv = sys_reachable_inv [OF demo_env_ok S(1)]
  have free: "sys_table S k = Slot_Free" for k using S(2) table_of_free [OF sys_invD(8) [OF inv]] by (simp add: sys_table_def)
  have cpu: "(3 :: nat) < SEL4_MMIO_MAX_VCPU" "(4 :: u64) \<le> 8" by (simp_all add: SEL4_MMIO_MAX_VCPU_def)
  obtain px r v where px: "mmio_fault_handler (g_ops demo_env) 3 0x60000010 4 (g_px (sys_mon S)) (g_vm (sys_mon S)) = Inr (FAULT_HANDLED, px)"
    "table_of px = (sys_table S)(3 := Slot_Pending r v)"
    using fault_enters [OF inv cpu(1) free cpu(2), of "g_ops demo_env" "0x60000010" "g_vm (sys_mon S)"] by auto
  from sys_next [OF S(1) sys_step.guest_faults [OF cpu(1) px(1)]] px(2) free show ?thesis
    by (intro exI [of _ "put_proxy px S"] exI [of _ r] exI [of _ v]) (auto simp: sys_table_def)
qed

lemma demo_second:
  "\<exists>S S' r v. sys_reachable demo_env demo_level S \<and> sys_table S 3 = Slot_Pending r v \<and> sys_step demo_env S S'
     \<and> sys_table S' 5 \<noteq> sys_table S 5 \<and> sys_table S' 3 \<noteq> Slot_Free"
proof -
  obtain S r v where S: "sys_reachable demo_env demo_level S" "sys_table S = (\<lambda>k. if k = 3 then Slot_Pending r v else Slot_Free)"
    using demo_pending by blast
  have cpu: "(5 :: nat) < SEL4_MMIO_MAX_VCPU" "sys_table S 5 = Slot_Free" "(4 :: u64) \<le> 8" using S(2) by (simp_all add: SEL4_MMIO_MAX_VCPU_def)
  obtain px r' v' where px: "mmio_fault_handler (g_ops demo_env) 5 0x60000010 4 (g_px (sys_mon S)) (g_vm (sys_mon S)) = Inr (FAULT_HANDLED, px)"
    "table_of px = (sys_table S)(5 := Slot_Pending r' v')"
    using fault_enters [OF sys_reachable_inv [OF demo_env_ok S(1)] cpu, of "g_ops demo_env" "0x60000010" "g_vm (sys_mon S)"] by auto
  from S sys_step.guest_faults [OF cpu(1) px(1)] px(2) show ?thesis
    by (intro exI [of _ S] exI [of _ "put_proxy px S"] exI [of _ r] exI [of _ v]) (simp add: sys_table_def)
qed

lemma demo_answered: "\<exists>S r d. sys_reachable demo_env demo_level S \<and> sys_table S 3 = Slot_Answered r d"
proof -
  obtain S r v where S: "sys_reachable demo_env demo_level S" "sys_table S = (\<lambda>k. if k = 3 then Slot_Pending r v else Slot_Free)"
    using demo_pending by blast
  note inv = sys_reachable_inv [OF demo_env_ok S(1)]
  obtain n S' where S': "(backend_turn ^^ n) S S'" "\<nexists>S''. backend_turn S' S''" using backend_rests [OF inv] by blast
  have R: "sys_reachable demo_env demo_level S'" using turns_reachable [OF S'(1) S(1)] .
  note inv' = sys_reachable_inv [OF demo_env_ok R]
  have "3 \<in> waiting (g_px (sys_mon S))" using S(2) table_of_free [OF sys_invD(8) [OF inv], of 3] by (simp add: sys_table_def)
  then have "3 \<in> waiting (g_px (sys_mon S'))" using turns_wait [OF S'(1)] by simp
  then obtain i where i: "i \<in> lent_ids (g_px (sys_mon S'))" "3 = msg_slot (req_msg (g_px (sys_mon S')) i)"
    using sys_invD(8) [OF inv'] unfolding slots_match_def bij_betw_def by blast
  with backend_rest_lent [OF inv' S'(2)] table_of_lent [OF sys_invD(8) [OF inv'] i(1)] R show ?thesis
    by (auto simp: sys_table_def entry_of_def Let_def)
qed

section \<open>Properties\<close>











end
