(* ===== verification/Isolation.thy ===== *)
theory Isolation
  imports System
begin

unbundle bit_operations_syntax

text \<open>
  Several backends share one monitor: its registries of interrupts, regions and PCI devices
  and the four INTx lines. This theory shows that what a backend sends through its proxy
  leaves the other backends' entries alone.

  The locale \<open>monitor_preorder\<close> lifts a reflexive and transitive relation from the handlers of one
  message to the loops of \<open>rpc_run\<close>; it is interpreted on the isolation relation.
\<close>

section \<open>What belongs to other backends\<close>

text \<open>The entries of the registries that are not of backend \<open>p\<close>.\<close>
definition foreign :: "nat \<Rightarrow> 'vm vmm \<Rightarrow> irq_line list \<times> mmio_reservation list \<times> pcidev list" where
  "foreign p s = (filter (\<lambda>l. line_cookie l \<noteq> p) (emu_irqs (g_emu s)), filter (\<lambda>r. mmio_proxy r \<noteq> p) (emu_mmios (g_emu s)),
     filter (\<lambda>d. pci_io_proxy d \<noteq> p) (pci_devs (g_pci s)))"

text \<open>The bus slots of the devices of backend \<open>p\<close>.\<close>
definition slots_of :: "nat \<Rightarrow> pci_state \<Rightarrow> nat set" where
  "slots_of p st = {unat (PCI_SLOT (devfn d)) | d. d \<in> set (pci_devs st) \<and> pci_io_proxy d = p}"

text \<open>No source of an INTx line changes but those in \<open>K\<close>.\<close>
definition lines_kept :: "nat set \<Rightarrow> pci_state \<Rightarrow> pci_state \<Rightarrow> bool" where
  "lines_kept K st st' \<longleftrightarrow> length (pci_intx st') = length (pci_intx st)
     \<and> (\<forall>pin < length (pci_intx st). active_sources (pci_intx st' ! pin) - K = active_sources (pci_intx st ! pin) - K)"

definition isolates :: "nat \<Rightarrow> 'vm vmm \<Rightarrow> 'vm vmm \<Rightarrow> bool" where
  "isolates p s s' \<longleftrightarrow> (px_id (g_px s) = p \<longrightarrow> px_id (g_px s') = p \<and> foreign p s' = foreign p s \<and> slots_of p (g_pci s) \<subseteq> slots_of p (g_pci s')
     \<and> lines_kept (slots_of p (g_pci s')) (g_pci s) (g_pci s'))"

lemma isolates_refl: "isolates p s s"
  by (simp add: isolates_def lines_kept_def)

lemma lines_kept_mono: "lines_kept K st st' \<Longrightarrow> K \<subseteq> L \<Longrightarrow> lines_kept L st st'"
  unfolding lines_kept_def by blast

lemma lines_kept_trans: "lines_kept K st st1 \<Longrightarrow> lines_kept K st1 st2 \<Longrightarrow> lines_kept K st st2"
  by (simp add: lines_kept_def)

lemma isolates_trans: "isolates p s s1 \<Longrightarrow> isolates p s1 s2 \<Longrightarrow> isolates p s s2"
  unfolding isolates_def by (metis lines_kept_mono lines_kept_trans subset_trans)

text \<open>Only the registries, the lines and the identity of the proxy matter.\<close>
lemma isolates_same: "g_emu s' = g_emu s \<Longrightarrow> g_pci s' = g_pci s \<Longrightarrow> px_id (g_px s') = px_id (g_px s) \<Longrightarrow> isolates p s s'"
  by (simp add: isolates_def foreign_def slots_of_def lines_kept_def)

section \<open>From messages to runs\<close>

lemma io_updates:
  "s\<lparr>g_px := (g_px s)\<lparr>px_mem := w\<rparr>\<rparr> = with_io (px_rpc (g_px s)) w s"
  "s\<lparr>g_px := (g_px s)\<lparr>px_rpc := r\<rparr>\<rparr> = with_io r (px_mem (g_px s)) s"
  by (cases "g_px s"; simp add: with_io_def)+

locale monitor_preorder =
  fixes R :: "'vm vmm \<Rightarrow> 'vm vmm \<Rightarrow> bool" and G :: "'vm glue_env"
  assumes R_trans: "R s s1 \<Longrightarrow> R s1 s2 \<Longrightarrow> R s s2"
    and R_io: "R s (with_io r w s)"
    and R_process: "rpc_process G msg s = Inr (rc, s') \<Longrightarrow> R s s'"
begin

lemma R_next_response: "next_response s = Inr (x, s') \<Longrightarrow> R s s'"
  by (auto simp: next_response_def Let_def res_simps io_updates intro: R_io split: option.splits)

lemma R_next_event: "next_event s = Inr (x, s') \<Longrightarrow> R s s'"
  by (auto simp: next_event_def Let_def res_simps io_updates intro: R_io)

lemma R_reclaim: "reclaim_response m s = Inr s' \<Longrightarrow> R s s'"
  by (auto simp: reclaim_response_def Let_def res_simps io_updates intro: R_io)

lemma R_responses:
  assumes "response_loop G rc s = Some y"
  shows "\<forall>rc' s'. y = Inr (rc', s') \<longrightarrow> R s s'"
proof -
  have "G = G \<longrightarrow> (\<forall>rc' s'. y = Inr (rc', s') \<longrightarrow> R s s')"
  proof (rule response_loop.raw_induct [where P = "\<lambda>G' rc s y. G' = G \<longrightarrow> (\<forall>rc' s'. y = Inr (rc', s') \<longrightarrow> R s s')", OF _ assms], intro impI allI)
    fix loop G' rc s y rc' s'
    assume loop: "\<And>G' rc s y. loop G' rc s = Some y \<Longrightarrow> G' = G \<longrightarrow> (\<forall>rc' s'. y = Inr (rc', s') \<longrightarrow> R s s')" and "G' = G" "y = Inr (rc', s')"
      and body: "(case next_response s of Inl e \<Rightarrow> Some (Inl e) | Inr (None, s) \<Rightarrow> Some (Inr (rc, s))
      | Inr (Some (m, msg), s) \<Rightarrow> (case rpc_process G' msg s of Inl e \<Rightarrow> Some (Inl e)
        | Inr (rc, s) \<Rightarrow> if rc \<noteq> 0 then Some (Inr (rc, s)) else (case reclaim_response m s of Inl e \<Rightarrow> Some (Inl e) | Inr s \<Rightarrow> loop G' rc s))) = Some y"
    from loop have rest: "loop G rc1 s1 = Some (Inr (rc', s')) \<Longrightarrow> R s1 s'" for rc1 s1 by blast
    show "R s s'"
      using body \<open>G' = G\<close> \<open>y = _\<close>
      by (auto split: sum.splits option.splits if_splits dest!: R_next_response R_process R_reclaim rest)
         (blast intro: R_trans)+
  qed
  then show ?thesis by blast
qed

lemma R_events:
  assumes "event_loop G rc s = Some y"
  shows "\<forall>rc' s'. y = Inr (rc', s') \<longrightarrow> R s s'"
proof -
  have "G = G \<longrightarrow> (\<forall>rc' s'. y = Inr (rc', s') \<longrightarrow> R s s')"
  proof (rule event_loop.raw_induct [where P = "\<lambda>G' rc s y. G' = G \<longrightarrow> (\<forall>rc' s'. y = Inr (rc', s') \<longrightarrow> R s s')", OF _ assms], intro impI allI)
    fix loop G' rc s y rc' s'
    assume loop: "\<And>G' rc s y. loop G' rc s = Some y \<Longrightarrow> G' = G \<longrightarrow> (\<forall>rc' s'. y = Inr (rc', s') \<longrightarrow> R s s')" and "G' = G" "y = Inr (rc', s')"
      and body: "(case next_event s of Inl e \<Rightarrow> Some (Inl e) | Inr (None, s) \<Rightarrow> Some (Inr (rc, s))
      | Inr (Some msg, s) \<Rightarrow> (case rpc_process G' msg s of Inl e \<Rightarrow> Some (Inl e)
        | Inr (rc, s) \<Rightarrow> if rc \<noteq> 0 then Some (Inr (rc, s)) else loop G' rc s)) = Some y"
    from loop have rest: "loop G rc1 s1 = Some (Inr (rc', s')) \<Longrightarrow> R s1 s'" for rc1 s1 by blast
    show "R s s'"
      using body \<open>G' = G\<close> \<open>y = _\<close>
      by (auto split: sum.splits option.splits if_splits dest!: R_next_event R_process rest)
         (blast intro: R_trans)+
  qed
  then show ?thesis by blast
qed

lemma R_run: "rpc_run G s = Inr (rc, s') \<Longrightarrow> R s s'"
proof -
  assume "rpc_run G s = Inr (rc, s')"
  then obtain rc1 s1 where "response_loop G 0 s = Some (Inr (rc1, s1))" "event_loop G rc1 s1 = Some (Inr (rc, s'))"
    by (auto simp: rpc_run_def run_res_def res_simps split: option.splits)
  then show ?thesis using R_responses R_events R_trans by blast
qed

end

section \<open>One message\<close>

lemma filter_remove_match: "(\<And>y. P y \<Longrightarrow> \<not> Q y) \<Longrightarrow> filter Q (remove_match P xs) = filter Q xs"
  by (induction xs) auto

lemma irq_assign_foreign:
  assumes "list_spec L" "irq_res_assign E L irqs p vcpu irq vm = (rc, irqs', vm')"
  shows "filter (\<lambda>l. line_cookie l \<noteq> p) irqs' = filter (\<lambda>l. line_cookie l \<noteq> p) irqs"
  using irq_assign_cases [OF assms] by simp

lemma mmio_assign_foreign:
  assumes "list_spec L" "mmio_res_assign E L mmios cb p addr sz vm = (rc, mmios', vm')"
  shows "filter (\<lambda>r. mmio_proxy r \<noteq> p) mmios' = filter (\<lambda>r. mmio_proxy r \<noteq> p) mmios"
  using assms(2)
  by (auto simp: mmio_res_assign_def split: prod.splits option.splits if_splits dest!: list_specD(1) [OF assms(1)])

lemma mmio_free_foreign:
  assumes "list_spec L" "mmio_res_free E L mmios p addr sz vm = (rc, mmios', vm')"
  shows "filter (\<lambda>r. mmio_proxy r \<noteq> p) mmios' = filter (\<lambda>r. mmio_proxy r \<noteq> p) mmios"
proof -
  have "filter (\<lambda>r. mmio_proxy r \<noteq> p) (remove_match (\<lambda>y. mmio_res_cmp y (mmio_match p addr sz) = 0) mmios)
      = filter (\<lambda>r. mmio_proxy r \<noteq> p) mmios"
    by (rule filter_remove_match) (simp add: mmio_res_cmp_def mmio_match_def split: if_splits)
  then show ?thesis
    using assms(2)
    by (auto simp: mmio_res_free_def split: prod.splits option.splits if_splits dest!: list_specD(2) [OF assms(1)])
qed

text \<open>The emulated devices of other backends.\<close>
lemma emudev_foreign:
  assumes "lists_ok L" "handle_emudev E L p op msg st vm = Inr (rc, st', vm')"
  shows "filter (\<lambda>l. line_cookie l \<noteq> p) (emu_irqs st') = filter (\<lambda>l. line_cookie l \<noteq> p) (emu_irqs st)
    \<and> filter (\<lambda>r. mmio_proxy r \<noteq> p) (emu_mmios st') = filter (\<lambda>r. mmio_proxy r \<noteq> p) (emu_mmios st)"
proof -
  have L: "list_spec (irq_list_ops L)" "list_spec (mmio_list_ops L)" using assms(1) by (simp_all add: lists_ok_def)
  have mmio: "?thesis" if "emudev_mmio_config E L st p a b c vm = Inr (rc', st', vm')" for a b c rc'
    using that
    by (auto simp: emudev_mmio_config_def split: if_splits prod.splits option.splits dest: mmio_assign_foreign [OF L(2)] mmio_free_foreign [OF L(2)])
  have line: "filter (\<lambda>l. line_cookie l \<noteq> p) (emu_irqs st1) = filter (\<lambda>l. line_cookie l \<noteq> p) (emu_irqs st) \<and> emu_mmios st1 = emu_mmios st"
    if "emudev_irq_line E L st p irq vm = Inr (l, st1, vm1)" for irq l st1 vm1
    using that
    by (auto simp: emudev_irq_line_def emudev_irq_register_def Let_def split: if_splits prod.splits option.splits dest: irq_assign_foreign [OF L(1)])
  have irq: "?thesis" if "emudev_irq_set E L st p i irq_op vm = Inr (rc', st', vm')" for i irq_op rc'
  proof -
    have "st' = st \<or> (\<exists>l vm1. emudev_irq_line E L st p i vm = Inr (l, st', vm1))"
      using that by (auto simp: emudev_irq_set_def res_simps split: if_splits prod.splits option.splits)
    then show ?thesis using line by auto
  qed
  from assms(2) show ?thesis
    by (auto simp: handle_emudev_def Let_def res_simps split: if_splits dest: mmio irq)
qed

text \<open>The bus: a change of INTx touches one source, of a device of the backend.\<close>
lemma change_source:
  assumes "shared_irq_line_change E line source active vm = Inr (rc, line', vm')" "source < 32"
  shows "active_sources line' - {unat source} = active_sources line - {unat source}"
proof -
  have "source \<noteq> 31" using assms(1) by (auto simp: high_source_undefined)
  then have src: "source < 31" using assms(2) word_order.not_eq_extremum by (simp add: word_less_nat_alt word_unat_eq_iff)
  from assms(1) have "line' = with_source line source active"
    by (auto simp: change_with_source [OF src] split: if_splits prod.splits)
  then show ?thesis using with_source_active [OF src, of line active] by auto
qed

lemma intx_set_isolated:
  assumes "pcidev_intx_set E p bdf active st vm = Inr (rc, st', vm')"
    and K: "slots_of p st \<subseteq> K"
  shows "pci_devs st' = pci_devs st \<and> lines_kept K st st'"
proof -
  have found: "pci_io_proxy d = p \<and> d \<in> set ds" if "pcidev_find_from ds p bdf = Some d" for ds d
    using that by (induction ds) (auto split: if_splits)
  consider "st' = st" | d line where "pcidev_find st p bdf = Some d" "st' = st\<lparr>pci_intx := (pci_intx st)[pci_map_irq d := line]\<rparr>"
      "shared_irq_line_change E (pci_intx st ! pci_map_irq d) (PCI_SLOT (devfn d)) active vm = Inr (rc, line, vm')"
    using assms(1) by (auto simp: pcidev_intx_set_def Let_def res_simps split: if_splits option.splits)
  then show ?thesis
  proof cases
    case 2
    have "unat (PCI_SLOT (devfn d)) \<in> K" using found K 2(1) unfolding pcidev_find_def slots_of_def by blast
    moreover have "PCI_SLOT (devfn d) < 32" using PCI_SLOT_less by (simp add: word_less_nat_alt)
    ultimately have "active_sources line - K = active_sources (pci_intx st ! pci_map_irq d) - K" using change_source [OF 2(3)] by blast
    then have "active_sources ((pci_intx st)[pci_map_irq d := line] ! pin) - K = active_sources (pci_intx st ! pin) - K"
      if "pin < length (pci_intx st)" for pin
      using that by (cases "pin = pci_map_irq d") auto
    with 2(2) show ?thesis by (simp add: lines_kept_def)
  qed (simp add: lines_kept_def)
qed

lemma intx_isolated:
  assumes "handle_pci_intx E p bdf irq_op st vm = Inr (rc, st', vm')"
    and "slots_of p st \<subseteq> K"
  shows "pci_devs st' = pci_devs st \<and> lines_kept K st st'"
proof -
  note set = intx_set_isolated [where K = K]
  have two: "pci_devs st' = pci_devs st \<and> lines_kept K st st'"
    if "pcidev_intx_set E p bdf a st vm = Inr (rc1, st1, vm1)" "pcidev_intx_set E p bdf b st1 vm1 = Inr (rc, st', vm')" for a b rc1 st1 vm1
  proof -
    have "pci_devs st1 = pci_devs st" "lines_kept K st st1" using set [OF that(1) assms(2)] by simp_all
    moreover from this(1) assms(2) have "slots_of p st1 \<subseteq> K" by (simp add: slots_of_def)
    ultimately show ?thesis using set [OF that(2)] by (auto intro: lines_kept_trans)
  qed
  have none: "lines_kept K st st" by (simp add: lines_kept_def)
  consider "st' = st" | a where "pcidev_intx_set E p bdf a st vm = Inr (rc, st', vm')"
    | rc1 st1 vm1 where "pcidev_intx_set E p bdf True st vm = Inr (rc1, st1, vm1)" "pcidev_intx_set E p bdf False st1 vm1 = Inr (rc, st', vm')"
    using assms(1) by (auto simp: handle_pci_intx_def res_simps split: if_splits)
  then show ?thesis using none two set [OF _ assms(2)] by cases blast+
qed

lemma register_foreign:
  assumes "pcidev_register E X p bdf st vm = (rc, st', vm')"
  shows "filter (\<lambda>d. pci_io_proxy d \<noteq> p) (pci_devs st') = filter (\<lambda>d. pci_io_proxy d \<noteq> p) (pci_devs st)"
    "set (pci_devs st) \<subseteq> set (pci_devs st')" "pci_intx st' = pci_intx st"
  using assms by (auto simp: pcidev_register_def split: if_splits prod.splits)

lemma cb_pci_isolates:
  assumes "cb_pci G op msg s = Inr (rc, s')"
  shows "isolates p s s'"
proof -
  let ?p = "px_id (g_px s)"
  obtain rc1 st vm where run: "handle_pci (g_ops G) (g_pci_env G) ?p op msg (g_pci s) (g_vm s) = Inr (rc1, st, vm)"
    and s': "s' = s\<lparr>g_pci := st, g_vm := vm\<rparr>"
    using assms by (auto simp: cb_pci_def res_simps)
  consider "st = g_pci s" | bdf irq_op err where "handle_pci_intx (g_ops G) ?p bdf irq_op (g_pci s) (g_vm s) = Inr (err, st, vm)"
    | bdf err where "pcidev_register (g_ops G) (g_pci_env G) ?p bdf (g_pci s) (g_vm s) = (err, st, vm)"
    using run by (auto simp: handle_pci_def Let_def res_simps split: if_splits prod.splits)
  then show ?thesis
  proof cases
    case 1
    then show ?thesis by (intro isolates_same) (simp_all add: s')
  next
    case 2
    have "pci_devs st = pci_devs (g_pci s) \<and> lines_kept (slots_of ?p (g_pci s)) (g_pci s) st"
      by (rule intx_isolated [OF 2]) simp
    then show ?thesis by (auto simp: isolates_def foreign_def slots_of_def s')
  next
    case 3
    from register_foreign [OF 3] show ?thesis by (auto simp: isolates_def foreign_def slots_of_def lines_kept_def s')
  qed
qed

lemma cb_emudev_isolates:
  assumes "lists_ok (g_lists G)" "cb_emudev G op msg s = Inr (rc, s')"
  shows "isolates p s s'"
  using assms(2) by (auto simp: cb_emudev_def res_simps isolates_def foreign_def lines_kept_def dest!: emudev_foreign [OF assms(1)])

lemma handle_mmio_id:
  "handle_mmio E op msg px nt vm = Inr (rc, px', nt', vm') \<Longrightarrow> px_id px' = px_id px"
  by (auto simp: handle_mmio_def ioreq_finish_def Let_def res_simps split: if_splits option.splits prod.splits)

lemma process_isolates:
  assumes "lists_ok (g_lists G)" "rpc_process G msg s = Inr (rc, s')"
  shows "isolates p s s'"
proof -
  have v: "verdict m = Inr (rc, s') \<Longrightarrow> \<exists>rc. m = Inr (rc, s')" for m :: "(int \<times> 'a vmm) res"
    by (auto simp: verdict_def res_simps)
  have other: "cb_mmio G op msg s = Inr (rc1, s') \<Longrightarrow> isolates p s s'" "cb_msi G op msg s = Inr (rc1, s') \<Longrightarrow> isolates p s s'"
    "cb_control G op msg s = Inr (rc1, s') \<Longrightarrow> isolates p s s'" for op rc1
    by (rule isolates_same; auto simp: cb_mmio_def cb_msi_def cb_control_def handle_control_def res_simps dest: handle_mmio_id split: if_splits)+
  show ?thesis
    using assms(2) unfolding rpc_process_cases [OF refl, of G msg s]
    by (auto dest!: v dest: cb_pci_isolates cb_emudev_isolates [OF assms(1)] other intro: isolates_refl split: if_splits)
qed

interpretation iso: monitor_preorder "\<lambda>s s'. lists_ok (g_lists G) \<longrightarrow> isolates p s s'" G for G p
  by unfold_locales (auto intro: isolates_trans isolates_same process_isolates)

section \<open>Lookups of other backends\<close>

lemma find_foreign: "q \<noteq> p \<Longrightarrow> pcidev_find_from (filter (\<lambda>d. pci_io_proxy d \<noteq> p) ds) q bdf = pcidev_find_from ds q bdf"
  by (induction ds) auto

lemma item_foreign: "(\<And>x. cmp x d = 0 \<Longrightarrow> P x) \<Longrightarrow> list_item (filter P xs) d cmp = list_item xs d cmp"
  by (induction xs) auto

text \<open>A lookup of another backend sees only the foreign entries.\<close>
lemma lookups_foreign:
  assumes "foreign p s' = foreign p s" "q \<noteq> p"
  shows "pcidev_find (g_pci s') q bdf = pcidev_find (g_pci s) q bdf"
    "irq_res_find (emu_irqs (g_emu s')) q irq = irq_res_find (emu_irqs (g_emu s)) q irq"
    "mmio_res_find (emu_mmios (g_emu s')) q addr sz = mmio_res_find (emu_mmios (g_emu s)) q addr sz"
proof -
  have f: "filter (\<lambda>d. pci_io_proxy d \<noteq> p) (pci_devs (g_pci s')) = filter (\<lambda>d. pci_io_proxy d \<noteq> p) (pci_devs (g_pci s))"
    "filter (\<lambda>l. line_cookie l \<noteq> p) (emu_irqs (g_emu s')) = filter (\<lambda>l. line_cookie l \<noteq> p) (emu_irqs (g_emu s))"
    "filter (\<lambda>r. mmio_proxy r \<noteq> p) (emu_mmios (g_emu s')) = filter (\<lambda>r. mmio_proxy r \<noteq> p) (emu_mmios (g_emu s))"
    using assms(1) by (simp_all add: foreign_def)
  show "pcidev_find (g_pci s') q bdf = pcidev_find (g_pci s) q bdf"
    unfolding pcidev_find_def by (metis find_foreign [OF assms(2)] f(1))
  have irq: "list_item (filter (\<lambda>l. line_cookie l \<noteq> p) xs) \<lparr>line_vcpu = 0, line_irq = irq, line_cookie = q\<rparr> irq_line_cmp
      = irq_res_find xs q irq" for xs
    unfolding irq_res_find_def by (rule item_foreign) (use assms(2) in \<open>auto simp: irq_line_cmp_def split: if_splits\<close>)
  then show "irq_res_find (emu_irqs (g_emu s')) q irq = irq_res_find (emu_irqs (g_emu s)) q irq" by (metis f(2))
  have mmio: "list_item (filter (\<lambda>r. mmio_proxy r \<noteq> p) xs) (mmio_match q addr sz) mmio_res_cmp = mmio_res_find xs q addr sz" for xs
    unfolding mmio_res_find_def by (rule item_foreign) (use assms(2) in \<open>auto simp: mmio_res_cmp_def mmio_match_def split: if_splits\<close>)
  then show "mmio_res_find (emu_mmios (g_emu s')) q addr sz = mmio_res_find (emu_mmios (g_emu s)) q addr sz" by (metis f(3))
qed

section \<open>Properties\<close>



end
