(* ===== verification/Spec2Isabelle.thy ===== *)
theory Spec2Isabelle
  imports Rpc_Mpmc Queue_Init Pl011 Camkes_Config Io_Table Isolation
begin

unbundle bit_operations_syntax

text \<open>
  A model of the seL4 virtual machine monitor extension of this repository, in which
  devices of a guest are emulated by a backend (QEMU) in another virtual machine.

  \<^bold>\<open>The program.\<close> A guest's access to an emulated device faults into the monitor. The fault
  handler (\<open>src/libsel4vm_glue.c\<close>) hands it to the I/O proxy of the backend
  (\<open>src/io_proxy.c\<close>), which puts a request into memory shared with the backend's virtual
  machine, through the queues of \<open>include/sel4/rpc_queue.h\<close> and the endpoint layer of
  \<open>include/sel4/rpc.h\<close>. The backend answers, or posts events of its own: interrupts, PCI
  devices it provides, regions it emulates, its start. \<open>rpc_run\<close> drains responses and
  events and passes each message along a table of handlers: \<open>handle_mmio\<close> (I/O proxy),
  \<open>handle_msi\<close> (\<open>src/gicv2m.c\<close> and \<open>src/plat/*/msi.c\<close>), \<open>handle_pci\<close> (the virtual PCI bus in
  \<open>src/libsel4vm_glue.c\<close>), \<open>handle_emudev\<close> (\<open>src/emulated_device.c\<close>) and \<open>handle_control\<close>.
  Before the guest runs, the CAmkES modules (\<open>src/camkes/modules\<close>) map the frames of the
  dataports into its memory (\<open>src/ram_dataport.c\<close>), start the proxies, and write the memory
  regions of the backends and the PCI devices into the guest's device tree
  (\<open>src/guest_linux.c\<close>, \<open>src/fdt.c\<close>).

  \<^bold>\<open>Theories.\<close>
  \<^item> \<open>Machine\<close>: the prelude. Word types, the result type \<open>'a res\<close> (an error of type \<open>error\<close>
    or a value), lemmas on masks, casts and ring positions, the collections \<open>res_simps\<close>,
    \<open>ring_simps\<close> and \<open>bit_facts\<close>.
  \<^item> \<open>Bitmap\<close>, \<open>Msg_Pool\<close>: the bitmap helpers, message buffers, lending and reclaiming of
    \<open>rpc_queue.h\<close>. The locale \<open>slot_pool\<close> states what a lender of numbered slots promises;
    it is interpreted on \<open>rpcmsg_lend_buffer\<close> and \<open>rpcmsg_reclaim_buffer\<close>.
  \<^item> \<open>Rpc_Queue\<close>: the ring queue run by one thread at a time, event queues, request-reply
    queues. The locale \<open>bounded_fifo\<close> is the contract of a bounded queue, interpreted on
    both kinds.
  \<^item> \<open>Rpc_Mpmc\<close>: the same ring under any number of concurrent producers and consumers, as
    interleaved atomic steps (loads, compare-and-swap, ring access), with the
    compare-and-swap macro of the user-level and of the kernel build. Slots are exclusive,
    every entry is delivered once to one consumer, and a quiescent ring is a ring of
    \<open>Rpc_Queue\<close>.
  \<^item> \<open>Rpc_Msg\<close>: the bit fields of message words; \<open>Vso_Rpc\<close>: the shared I/O buffer, endpoints
    and the operations of both sides of \<open>rpc.h\<close>, and the request-reply protocol between
    driver, kernel module and device as a step relation whose invariant keeps every lent
    message at one place.
  \<^item> \<open>Queue_Init\<close>: the macros that open a queue in each of its roles and the compile-time
    assertions on the shared memory; also the copy of the MSI module for \<open>qemu-arm-virt\<close>.
  \<^item> \<open>Vm_Env\<close>: the interface of libsel4vm and of the list library, with their documented
    behaviour as the predicates \<open>irq_spec\<close> and \<open>list_spec\<close>, and a concrete instance on which
    the witnesses run.
  \<^item> \<open>Irq_Line\<close> (\<open>src/irq_line.c\<close>, \<open>src/shared_irq_line.c\<close>), \<open>Gicv2m\<close> (the MSI frame),
    \<open>Reservations\<close> (\<open>src/list.c\<close>, \<open>src/irq_reservations.c\<close>, \<open>src/mmio_reservations.c\<close>),
    \<open>Emulated_Device\<close>, \<open>Pci_Defs\<close> and \<open>Pci\<close>: one theory per device component. A shared line
    is the wired-OR of its sources; the registries are instances of one locale of keyed
    lists; every interrupt of a backend reaches the guest interrupt it is routed to.
  \<^item> \<open>Io_Proxy\<close>: requests of virtual CPUs and of native threads, and their acknowledgement.
  \<^item> \<open>Vmm_Glue\<close>: the table of handlers, \<open>rpc_process\<close>, \<open>rpc_run\<close>, the fault handler and
    \<open>libsel4vm_io_proxy_init\<close>, with the notification callback and the \<open>run\<close> function of the
    driver template. The locale \<open>handler_chain\<close> states what the table relies on.
  \<^item> \<open>Backend\<close>: what one message of a backend can do, whatever it contains. The messages that
    stop the monitor are characterised exactly; every other message is answered and keeps
    the monitor's state in shape.
  \<^item> \<open>System\<close>: the booted system as a step relation: faults of the guest's CPUs, requests of
    native threads, runs of the monitor, and a backend that takes requests, passes them on,
    answers them and posts events, in any order. Its reachable states keep every request
    tracked; in them a run of the monitor returns and the system can always drain.
  \<^item> \<open>Io_Table\<close>: the specification of the request path, a table with one entry for each of the 32
    slots (free, pending, answered) and the events issue, answer and deliver. The locale
    \<open>simulation\<close> lifts a step-wise simulation to runs; it is interpreted on \<open>System\<close> and the
    table. So every interleaving is one of the table, a request keeps its identity and its
    answer until it is delivered, a fault of a CPU enters its request, a run of the monitor
    delivers all answers once, and the backend is done after at most 160 turns (at most
    five hops for each of the 32 messages).
  \<^item> \<open>Isolation\<close>: several backends on one monitor. The locale \<open>monitor_preorder\<close> lifts a relation
    from the handlers to the loops of \<open>rpc_run\<close>; with it, a run for one backend leaves the
    devices, interrupts, regions and INTx sources of the others alone.
  \<^item> \<open>Format\<close>: the numbers and the truncation of \<open>snprintf\<close>, with the inverse of printing.
  \<^item> \<open>Fdt\<close> (\<open>src/fdt.c\<close>, \<open>src/plat/rpi4/fdt.c\<close>): node names, reserved-memory and PCI nodes,
    phandles and the registry of nodes, over libfdt as a parameter; \<open>fdt_spec\<close> is what its
    documentation promises, and \<open>building\<close> carries a node through the calls that fill it in.
    \<open>Fdt_Tree\<close> is a device tree that keeps \<open>fdt_spec\<close>, for the witnesses.
  \<^item> \<open>Guest_Config\<close>: \<open>src/guest_linux.c\<close> and the modules \<open>guest_config.c\<close>,
    \<open>fdt_plat_customize.c\<close> and \<open>io_proxy.c\<close>. A configured guest finds every PCI device with its
    address, tied to the memory of its backend.
  \<^item> \<open>Ram_Dataport\<close>: \<open>src/ram_dataport.c\<close>, the set-up function of the driver template and
    \<open>init_dataport_ram.c\<close>; \<open>ram_spec\<close> is what libsel4vm promises of guest RAM.
  \<^item> \<open>Pl011\<close> (the early UART), \<open>Trace\<close> (trace points and the kernel log of \<open>trace.c\<close>),
    \<open>Trace_Init\<close> (the memory the trace module shares with the guest) and \<open>Cmdline\<close> (the command
    line of a device VM in \<open>seL4VirtIODeviceVM.template.c\<close>).
  \<^item> \<open>Camkes_Config\<close>: the macros of \<open>configurations/tii/vm.h\<close> as the interfaces, connections and
    attributes they declare, the static proxy of the driver template and the cross-VM
    connections of the device template. Every interface is connected once, the two VMs of
    a pair agree on their memory, a driver's notification reaches its own connection, and
    the monitor that is generated is one \<open>System\<close> starts from.
  \<^item> This theory: two properties through all components, a guest's access from fault to
    completion and an interrupt from the backend to the guest.

  \<^bold>\<open>Conventions.\<close> A struct is a record, a function pointer the program stores is a datatype
  of the functions it can point to, an array is a list whose out-of-range access is the
  error \<open>Out_Of_Bounds\<close>; a failed assertion, a null dereference, an undefined shift and a
  fatal log are errors too, so a theorem that an operation returns \<open>Inr\<close> excludes them.
  Positions and counters are 32-bit words and wrap around. Loops that may not end are
  \<open>partial_function (option)\<close>, with \<open>None\<close> for divergence: no fuel is used, and the
  properties of \<open>rpc_run\<close> and of the queues prove that they return.

  \<^bold>\<open>Assumptions.\<close> Memory is sequentially consistent; an atomic access of the code is one
  step. The properties of concurrent runs assume that while a thread is between loading a
  tail and its compare-and-swap fewer than \<open>2 ^ 32\<close> other operations complete. Code outside
  the repository (the interrupt controller and memory reservations of libsel4vm, the
  list library, the PCI library, libfdt, the allocators, \<open>calloc\<close>) is a parameter; what is relied
  on is stated as a hypothesis.

  \<^bold>\<open>Not modelled.\<close> The order in which the CAmkES VM initialises its modules
  (\<open>DEFINE_MODULE_DEP\<close>) and the code CAmkES generates for a connector are not part of the
  repository; the call of \<open>fdt_generate_reserved_node\<close> in \<open>trace.c\<close>, made without its
  prototype and with one argument too many, is undefined in C and a parameter of
  \<open>Trace_Init\<close>. The structures of \<open>include/sel4/sel4_virt_types.h\<close> that only a Linux driver uses,
  the macros of \<open>include/tii/utils.h\<close> (absorbed by the records), prototypes and logging are left out.
\<close>

section \<open>A guest access through both sides\<close>

text \<open>The proxy after a virtual CPU's request \<open>msg\<close> was queued in buffer \<open>i\<close>.\<close>
definition after_request ::
  "io_proxy \<Rightarrow> nat \<Rightarrow> u32 \<Rightarrow> rpcmsg \<Rightarrow> msgptr \<Rightarrow> rpcmsg_queue \<Rightarrow> bitmap \<Rightarrow> nat \<Rightarrow> io_proxy" where
  "after_request px vcpu dir msg i q st c =
     px\<lparr>ioacks := (ioacks px)[vcpu := \<lparr>ack_callback = Some (if dir = SEL4_IO_DIR_READ then Ioack_Vcpu_Read else Ioack_Vcpu_Write),
                                    ack_cookie = vcpu\<rparr>],
        px_rpc := (px_rpc px)\<lparr>driver_rpc := (driver_rpc (px_rpc px))\<lparr>buffer_state := st\<rparr>\<rparr>,
        px_mem := (put_q driver_drvrpc_req q
          (put_b driver_drvrpc_req ((b_at (px_mem px) driver_drvrpc_req)[i := msg]) (px_mem px)))
          \<lparr>rung := c # rung (px_mem px)\<rparr>\<rparr>"

lemma fault_request:
  assumes "proxy_ok px" "vcpu < 16" "ack_callback (ioacks px ! vcpu) = None" "len \<le> 8" "lent_ids px \<noteq> {..<32}"
    and "rpc_ids (q_at (px_mem px) driver_drvrpc_req) = []" "doorbell (px_rpc px) = Some c"
    and "dir = (if is_vcpu_read_fault E vcpu vm then SEL4_IO_DIR_READ else SEL4_IO_DIR_WRITE)"
  obtains i q st msg where
    "ioreq_start px (of_nat vcpu) Ioack_Vcpu_Read Ioack_Vcpu_Write vcpu (ucast AS_GLOBAL) dir paddr len (mr2 msg)
       = Inr (0, after_request px vcpu dir msg i q st c)"
    "mmio_fault_handler E vcpu paddr len px vm = Inr (FAULT_HANDLED, after_request px vcpu dir msg i q st c)"
    "i < 32" "i \<notin> lent_ids px" "pool_ok st" "lent st = insert i (lent_ids px)" "rpc_ok q" "rpc_ids q = [i]"
    "mr0 msg = mmio_request_mr0 dir (ucast AS_GLOBAL) (of_nat vcpu) len"
proof -
  define val where "val = (if is_vcpu_read_fault E vcpu vm then 0 else get_vcpu_fault_data E vcpu vm
    AND drop_bit (unat ((get_vcpu_fault_address E vcpu vm AND 3) * 8)) (get_vcpu_fault_data_mask E vcpu vm))"
  have slot: "unat (of_nat vcpu :: u32) = vcpu" using assms(2) by (simp add: unat_of_nat)
  have ok: "mem_ok (px_mem px)" "request (driver_rpc (px_rpc px)) = iobuf_queue 0 0"
    "rpc_ok (q_at (px_mem px) (iobuf_queue 0 0))" "pool_ok (buffer_state (driver_rpc (px_rpc px)))"
    "lent (buffer_state (driver_rpc (px_rpc px))) \<noteq> {..<32}" "\<not> 8 < len" "\<not> 32 \<le> vcpu"
    using assms by (simp_all add: proxy_ok_def endpoint_ok_def lent_ids_def)
  have room: "queue_len (q_at (px_mem px) (iobuf_queue 0 0)) < 32" "rpc_ids (q_at (px_mem px) (iobuf_queue 0 0)) = []"
    using assms(6) length_rpc_ids [of "q_at (px_mem px) (iobuf_queue 0 0)"] by (simp_all add: vso_refs)
  obtain i q st where r: "driver_rpc_request (Some (px_rpc px)) QEMU_OP_MMIO (mmio_start_mr0 dir (ucast AS_GLOBAL) (of_nat vcpu) len) paddr val 0 (px_mem px) =
       Inr (0, (px_rpc px)\<lparr>driver_rpc := (driver_rpc (px_rpc px))\<lparr>buffer_state := st\<rparr>\<rparr>,
         (put_q (iobuf_queue 0 0) q (put_b (iobuf_queue 0 0)
           ((b_at (px_mem px) (iobuf_queue 0 0))[i := \<lparr>mr0 = mmio_request_mr0 dir (ucast AS_GLOBAL) (of_nat vcpu) len, mr1 = paddr, mr2 = val, mr3 = 0\<rparr>]) (px_mem px)))
         \<lparr>rung := c # rung (px_mem px)\<rparr>)"
    "i < 32" "i \<notin> lent_ids px" "pool_ok st" "lent st = insert i (lent_ids px)" "rpc_ok q" "rpc_ids q = [i]"
    by (rule drv_request_ok [OF ok(1-3) room(1) ok(4,5) assms(7), of QEMU_OP_MMIO
        "mmio_start_mr0 dir (ucast AS_GLOBAL) (of_nat vcpu) len" paddr val 0])
      (use room(2) in \<open>simp add: mmio_request_mr0_def lent_ids_def\<close>)
  show thesis
    by (rule that [where i = i and q = q and st = st and
        msg = "\<lparr>mr0 = mmio_request_mr0 dir (ucast AS_GLOBAL) (of_nat vcpu) len, mr1 = paddr, mr2 = val, mr3 = 0\<rparr>"])
      (use r ok assms(3,8) slot in \<open>auto simp: after_request_def Let_def driver_rpc_req_mmio_start_def vso_refs
        mmio_fault_handler_def ioreq_start_def val_def SEL4_IO_DIR_READ_def SEL4_IO_DIR_WRITE_def\<close>)
qed

text \<open>The backend receives the request and acknowledges it; what the monitor then finds.\<close>
lemma backend_answers:
  assumes "proxy_ok px" "inbox_ok px" "resp_ids px = []" "events px = []" "endpoint_ok 0 km"
    and "i < 32" "rpc_ok q" "rpc_ids q = [i]" "pool_ok st" "px1 = after_request px vcpu dir msg i q st c"
  obtains w where
    "rpcmsg_receive (q_at (px_mem px1) (request (driver_rpc km))) (b_at (px_mem px1) (request (driver_rpc km)))
       = Inr (Some i, advance_cons q)"
    "driver_rpc_ack_mmio_finish (Some km) (Some i) data (put_q (request (driver_rpc km)) (advance_cons q) (px_mem px1)) = Inr (0, w)"
    "inbox_ok (px1\<lparr>px_mem := w\<rparr>)" "resp_ids (px1\<lparr>px_mem := w\<rparr>) = [i]" "responses (px1\<lparr>px_mem := w\<rparr>) = [msg\<lparr>mr2 := data\<rparr>]"
    "events (px1\<lparr>px_mem := w\<rparr>) = []"
proof -
  let ?w2 = "put_q driver_drvrpc_req (advance_cons q) (px_mem px1)"
  have ok: "mem_ok (px_mem px)" "request (driver_rpc km) = driver_drvrpc_req" "response (driver_rpc km) = iobuf_queue 0 2"
    using assms(1,5) by (simp_all add: proxy_ok_def endpoint_ok_def vso_refs)
  obtain b where bell: "doorbell km = Some b" using assms(5) by (auto simp: endpoint_ok_def)
  have same_buffer: "b_at w (iobuf_queue 0 0) = b_at w (iobuf_queue 0 2)" for w by (simp add: b_at_def)
  have px1: "q_at (px_mem px1) driver_drvrpc_req = q" "mem_ok ?w2" "px_rpc px1 = (px_rpc px)\<lparr>driver_rpc := (driver_rpc (px_rpc px))\<lparr>buffer_state := st\<rparr>\<rparr>"
    "b_at ?w2 (iobuf_queue 0 2) = (b_at (px_mem px) (iobuf_queue 0 2))[i := msg]"
    "q_at ?w2 (iobuf_queue 0 2) = q_at (px_mem px) (iobuf_queue 0 2)"
    "q_at ?w2 devevt_queue = q_at (px_mem px) devevt_queue" "b_at ?w2 devevt_queue = b_at (px_mem px) devevt_queue"
    using ok(1) by (simp_all add: assms(10) after_request_def vso_refs same_buffer)
  have len: "length (b_at (px_mem px) (iobuf_queue 0 2)) = 32" using ok(1) by simp
  have resp: "rpc_ok (q_at ?w2 (iobuf_queue 0 2))" "rpc_ids (q_at ?w2 (iobuf_queue 0 2)) = []"
    using assms(2,3) px1(5) by (simp_all add: inbox_ok_def resp_ids_def vso_refs)
  then have room: "queue_len (q_at ?w2 (iobuf_queue 0 2)) < 32"
    using length_rpc_ids [of "q_at ?w2 (iobuf_queue 0 2)"] by simp
  obtain q2 where ack: "driver_rpc_ack_mmio_finish (Some km) (Some i) data ?w2 =
      Inr (0, (put_q (iobuf_queue 0 2) q2 (put_b (iobuf_queue 0 2)
        ((b_at ?w2 (iobuf_queue 0 2))[i := (b_at ?w2 (iobuf_queue 0 2) ! i)\<lparr>mr2 := data\<rparr>]) ?w2))\<lparr>rung := b # rung ?w2\<rparr>)"
    "rpc_ok q2" "rpc_ids q2 = [i]"
    using ack_ok [OF px1(2) ok(3) resp(1) room assms(6) bell] resp(2) by (metis append_Nil)
  let ?w3 = "(put_q (iobuf_queue 0 2) q2 (put_b (iobuf_queue 0 2)
        ((b_at ?w2 (iobuf_queue 0 2))[i := (b_at ?w2 (iobuf_queue 0 2) ! i)\<lparr>mr2 := data\<rparr>]) ?w2))\<lparr>rung := b # rung ?w2\<rparr>"
  have w3: "q_at ?w3 (iobuf_queue 0 2) = q2" "b_at ?w3 (iobuf_queue 0 2) = (b_at (px_mem px) (iobuf_queue 0 2))[i := msg\<lparr>mr2 := data\<rparr>]"
    "q_at ?w3 devevt_queue = q_at (px_mem px) devevt_queue" "b_at ?w3 devevt_queue = b_at (px_mem px) devevt_queue" "mem_ok ?w3"
    using px1 len assms(6) by (simp_all add: vso_refs)
  show thesis
  proof (rule that [of ?w3])
    show "rpcmsg_receive (q_at (px_mem px1) (request (driver_rpc km))) (b_at (px_mem px1) (request (driver_rpc km))) = Inr (Some i, advance_cons q)"
      using rpc_rx_ok [OF assms(7,8)] unfolding ok px1(1) by (simp add: rpcmsg_receive_def)
    show "driver_rpc_ack_mmio_finish (Some km) (Some i) data (put_q (request (driver_rpc km)) (advance_cons q) (px_mem px1)) = Inr (0, ?w3)"
      using ack(1) by (simp add: ok)
    show "inbox_ok (px1\<lparr>px_mem := ?w3\<rparr>)"
      using assms(2,9) w3 ack(2) len px1(3) by (simp add: inbox_ok_def vso_refs mem_ok_def)
    show ids: "resp_ids (px1\<lparr>px_mem := ?w3\<rparr>) = [i]" using w3 ack(3) by (simp add: resp_ids_def vso_refs)
    show "responses (px1\<lparr>px_mem := ?w3\<rparr>) = [msg\<lparr>mr2 := data\<rparr>]"
      using w3 len assms(6) unfolding responses_def ids by (simp add: vso_refs)
    show "events (px1\<lparr>px_mem := ?w3\<rparr>) = []" using assms(4) w3 by (simp add: events_def)
  qed
qed

text \<open>The monitor handles the response to a request of a virtual CPU.\<close>
lemma vcpu_response:
  assumes "ioreq_start px (of_nat vcpu) Ioack_Vcpu_Read Ioack_Vcpu_Write vcpu (ucast AS_GLOBAL) dir paddr len val = Inr (0, px1)"
    and "vcpu < 16" "length (ioacks px) = 32" "mr0 msg = mmio_request_mr0 dir (ucast AS_GLOBAL) (of_nat vcpu) len"
  obtains s' where "rpc_process G msg (s\<lparr>g_px := px1\<lparr>px_mem := w\<rparr>\<rparr>) = Inr (0, s')" "ack_callback (ioacks (g_px s') ! vcpu) = None"
    "g_vm s' = advance_vcpu_fault (g_ops G) vcpu
       (if dir = SEL4_IO_DIR_READ then set_vcpu_fault_data (g_ops G) vcpu
          (push_bit (unat ((get_vcpu_fault_address (g_ops G) vcpu (g_vm s) AND 3) * 8)) (mr2 msg)) (g_vm s)
        else g_vm s)"
proof -
  have slot: "unat (of_nat vcpu :: u32) = vcpu" using assms(2) by (simp add: unat_of_nat)
  have op: "QEMU_OP_MMIO = ucast (QEMU_OP (mr0 msg))"
    by (simp add: assms(4) mmio_request_mr0_def mmio_mr0_get QEMU_OP_MMIO_def)
  let ?s = "s\<lparr>g_px := px1\<rparr>"
  have s: "s\<lparr>g_px := px1\<lparr>px_mem := w\<rparr>\<rparr> = with_io (px_rpc px1) w ?s" by (simp add: with_io_def)
  have "unat (of_nat vcpu :: u32) < 32" using slot assms(2) by simp
  note finish = finish_started [OF assms(1) this assms(3,4), of "g_ops G" "g_nt s" "g_vm s"]
  let ?s' = "?s\<lparr>g_px := px1\<lparr>ioacks := (ioacks px)[vcpu := \<lparr>ack_callback = None, ack_cookie = vcpu\<rparr>]\<rparr>,
      g_vm := advance_vcpu_fault (g_ops G) vcpu
       (if dir = SEL4_IO_DIR_READ then set_vcpu_fault_data (g_ops G) vcpu
          (push_bit (unat ((get_vcpu_fault_address (g_ops G) vcpu (g_vm s) AND 3) * 8)) (mr2 msg)) (g_vm s)
        else g_vm s)\<rparr>"
  have "rpc_process G msg ?s = Inr (0, ?s')"
    by (cases "dir = SEL4_IO_DIR_READ") (use finish in \<open>simp_all add: rpc_process_cases [OF op] cb_mmio_def slot
      verdict_def rc_defs run_ioack_def ioack_vcpu_read_def ioack_vcpu_write_def Let_def\<close>)
  then have run: "rpc_process G msg (s\<lparr>g_px := px1\<lparr>px_mem := w\<rparr>\<rparr>) = Inr (0, with_io (px_rpc px1) w ?s')"
    by (simp add: s rpc_process_io)
  from assms(2,3) show thesis by (intro that [OF run]) simp_all
qed

text \<open>
  C5. A guest's access to a device of the backend, through all components: the fault of a
  virtual CPU puts a request into the shared memory, the backend receives that request and
  acknowledges it with some data, and one run of the monitor delivers the data to the
  register of the faulting CPU in the byte lanes of the address (for a read), advances the
  fault, frees the CPU's slot and takes back the buffer: nothing of the access is left.
\<close>
theorem guest_access_end_to_end:
  assumes "proxy_ok (g_px s)" "inbox_ok (g_px s)" "vcpu < 16" "ack_callback (ioacks (g_px s) ! vcpu) = None" "len \<le> 8"
    and "lent_ids (g_px s) \<noteq> {..<32}" "rpc_ids (q_at (px_mem (g_px s)) driver_drvrpc_req) = []"
    and "resp_ids (g_px s) = []" "events (g_px s) = []" "endpoint_ok 0 km"
    and "rd = is_vcpu_read_fault (g_ops G) vcpu (g_vm s)"
    and "lane = unat ((get_vcpu_fault_address (g_ops G) vcpu (g_vm s) AND 3) * 8)"
  shows "\<exists>px1 m q w s'. mmio_fault_handler (g_ops G) vcpu paddr len (g_px s) (g_vm s) = Inr (FAULT_HANDLED, px1)
    \<and> rpcmsg_receive (q_at (px_mem px1) (request (driver_rpc km))) (b_at (px_mem px1) (request (driver_rpc km))) = Inr (Some m, q)
    \<and> driver_rpc_ack_mmio_finish (Some km) (Some m) data (put_q (request (driver_rpc km)) q (px_mem px1)) = Inr (0, w)
    \<and> rpc_run G (s\<lparr>g_px := px1\<lparr>px_mem := w\<rparr>\<rparr>) = Inr (0, s')
    \<and> g_vm s' = advance_vcpu_fault (g_ops G) vcpu
        (if rd then set_vcpu_fault_data (g_ops G) vcpu (push_bit lane data) (g_vm s) else g_vm s)
    \<and> ack_callback (ioacks (g_px s') ! vcpu) = None \<and> lent_ids (g_px s') = lent_ids (g_px s)"
proof -
  let ?px = "g_px s"
  define dir where "dir = (if rd then SEL4_IO_DIR_READ else SEL4_IO_DIR_WRITE)"
  have dir: "dir = (if is_vcpu_read_fault (g_ops G) vcpu (g_vm s) then SEL4_IO_DIR_READ else SEL4_IO_DIR_WRITE)"
    "(dir = SEL4_IO_DIR_READ) = rd"
    by (simp_all add: dir_def assms(11) SEL4_IO_DIR_READ_def SEL4_IO_DIR_WRITE_def)
  obtain c where bell: "doorbell (px_rpc ?px) = Some c" using assms(1) by (auto simp: proxy_ok_def endpoint_ok_def)
  obtain i q st msg where req: "ioreq_start ?px (of_nat vcpu) Ioack_Vcpu_Read Ioack_Vcpu_Write vcpu (ucast AS_GLOBAL) dir paddr len (mr2 msg)
       = Inr (0, after_request ?px vcpu dir msg i q st c)"
    "mmio_fault_handler (g_ops G) vcpu paddr len ?px (g_vm s) = Inr (FAULT_HANDLED, after_request ?px vcpu dir msg i q st c)"
    "i < 32" "i \<notin> lent_ids ?px" "pool_ok st" "lent st = insert i (lent_ids ?px)" "rpc_ok q" "rpc_ids q = [i]"
    "mr0 msg = mmio_request_mr0 dir (ucast AS_GLOBAL) (of_nat vcpu) len"
    by (rule fault_request [OF assms(1,3-7) bell dir(1)])
  define px1 where "px1 = after_request ?px vcpu dir msg i q st c"
  obtain w where w: "rpcmsg_receive (q_at (px_mem px1) (request (driver_rpc km))) (b_at (px_mem px1) (request (driver_rpc km)))
       = Inr (Some i, advance_cons q)"
    "driver_rpc_ack_mmio_finish (Some km) (Some i) data (put_q (request (driver_rpc km)) (advance_cons q) (px_mem px1)) = Inr (0, w)"
    "inbox_ok (px1\<lparr>px_mem := w\<rparr>)" "resp_ids (px1\<lparr>px_mem := w\<rparr>) = [i]" "responses (px1\<lparr>px_mem := w\<rparr>) = [msg\<lparr>mr2 := data\<rparr>]"
    "events (px1\<lparr>px_mem := w\<rparr>) = []"
    by (rule backend_answers [OF assms(1,2,8-10) req(3,7,8,5) px1_def])
  let ?s = "s\<lparr>g_px := px1\<lparr>px_mem := w\<rparr>\<rparr>"
  have len: "length (ioacks ?px) = 32" using assms(1) by (simp add: proxy_ok_def)
  obtain s1 where s1: "rpc_process G (msg\<lparr>mr2 := data\<rparr>) ?s = Inr (0, s1)" "ack_callback (ioacks (g_px s1) ! vcpu) = None"
    "g_vm s1 = advance_vcpu_fault (g_ops G) vcpu
       (if dir = SEL4_IO_DIR_READ then set_vcpu_fault_data (g_ops G) vcpu
          (push_bit (unat ((get_vcpu_fault_address (g_ops G) vcpu (g_vm s) AND 3) * 8)) (mr2 (msg\<lparr>mr2 := data\<rparr>))) (g_vm s)
        else g_vm s)"
    by (rule vcpu_response [OF req(1) [folded px1_def] assms(3) len, where msg = "msg\<lparr>mr2 := data\<rparr>" and G = G and s = s and w = w]) (use req(9) in simp)
  have lent1: "lent_ids (g_px ?s) = insert i (lent_ids ?px)"
    by (simp add: lent_ids_def px1_def after_request_def) (use req(6) in \<open>simp add: lent_ids_def\<close>)
  have msgs: "process_msgs G 0 (responses (g_px ?s)) ?s = Inr (0, [], s1)" "process_msgs G 0 (events (g_px ?s)) s1 = Inr (0, [], s1)"
    using w(5,6) s1(1) by simp_all
  have "inbox_ok (g_px ?s)" using w(3) by simp
  from rpc_run_spec [OF this msgs refl] obtain s' where s': "rpc_run G ?s = Inr (0, s')"
      "s' = with_io (px_rpc (g_px s')) (px_mem (g_px s')) s1" "lent_ids (g_px s') = lent_ids (g_px ?s) - {i}"
    using w(4) by auto
  have "g_vm s' = g_vm s1" "ioacks (g_px s') = ioacks (g_px s1)" by (subst s'(2), simp)+
  moreover have "lent_ids (g_px s') = lent_ids ?px" using s'(3) lent1 req(4) by simp
  ultimately show ?thesis
    using req(2) w(1,2) s'(1) s1 unfolding px1_def [symmetric]
    by (intro exI [of _ px1] exI [of _ i] exI [of _ "advance_cons q"] exI [of _ w] exI [of _ s'])
      (simp add: dir(2) assms(12))
qed

text \<open>The concrete proxy is idle.\<close>
lemma demo_inbox:
  "inbox_ok demo_proxy" "resp_ids demo_proxy = []" "events demo_proxy = []"
  "rpc_ids (q_at (px_mem demo_proxy) driver_drvrpc_req) = []" "lent_ids demo_proxy \<noteq> {..<32}"
  "request (driver_rpc (px_rpc demo_proxy)) = driver_drvrpc_req" "endpoint_ok 0 (px_rpc demo_proxy)"
proof -
  have q: "q_at zero_mem r = rpcmsg_queue_init zero_queue" if "ref_queue r < 4" for r
    using that by (simp add: q_at_def zero_mem_def zero_queue_def rpcmsg_queue_init_def)
  have z: "rpc_ok (rpcmsg_queue_init zero_queue)" "rpc_ids (rpcmsg_queue_init zero_queue) = []"
    using queue_init_ok [of zero_queue] by (simp_all add: rpc_ok_def rpc_ids_def)
  have ev: "event_ok (rpcmsg_queue_init zero_queue, b_at zero_mem devevt_queue)"
    "event_msgs (rpcmsg_queue_init zero_queue, b_at zero_mem devevt_queue) = []"
    using queue_init_ok [of zero_queue] by (simp_all add: event_ok_def event_msgs_def b_at_def zero_mem_def vso_refs)
  have refs: "ref_queue driver_drvrpc_req < 4" "ref_queue driver_drvrpc_resp < 4" "ref_queue devevt_queue < 4"
    by (simp_all add: vso_refs)
  have mem: "px_mem demo_proxy = zero_mem" "buffer_state (driver_rpc (px_rpc demo_proxy)) = [0]"
    "request (driver_rpc (px_rpc demo_proxy)) = driver_drvrpc_req" "endpoint_ok 0 (px_rpc demo_proxy)"
    by (simp_all add: demo_proxy_def vso_refs endpoint_ok_def)
  show "inbox_ok demo_proxy" "resp_ids demo_proxy = []" "events demo_proxy = []"
    "rpc_ids (q_at (px_mem demo_proxy) driver_drvrpc_req) = []" "lent_ids demo_proxy \<noteq> {..<32}"
    using z ev refs demo_proxy_ok(2) unfolding inbox_ok_def resp_ids_def events_def lent_ids_def mem
    by (simp_all add: q) (simp add: demo_proxy_def vso_refs zero_mem_def b_at_def pool_ok_def)
  show "request (driver_rpc (px_rpc demo_proxy)) = driver_drvrpc_req" "endpoint_ok 0 (px_rpc demo_proxy)" by (fact mem)+
qed

theorem guest_access_end_to_end_witness:
  "\<exists>px1 m q w s'. mmio_fault_handler demo_ops 3 0x60000010 4 demo_proxy demo_vm0 = Inr (FAULT_HANDLED, px1)
    \<and> rpcmsg_receive (q_at (px_mem px1) driver_drvrpc_req) (b_at (px_mem px1) driver_drvrpc_req) = Inr (Some m, q)
    \<and> driver_rpc_ack_mmio_finish (Some (px_rpc demo_proxy)) (Some m) 42 (put_q driver_drvrpc_req q (px_mem px1)) = Inr (0, w)
    \<and> rpc_run demo_env (demo_vmm (px1\<lparr>px_mem := w\<rparr>)) = Inr (0, s')
    \<and> demo_data (g_vm s') = 42 \<and> demo_advanced (g_vm s') = 1"
proof -
  have px: "g_px (demo_vmm demo_proxy) = demo_proxy" "g_ops demo_env = demo_ops" "g_vm (demo_vmm demo_proxy) = demo_vm0"
    "(demo_vmm demo_proxy)\<lparr>g_px := p\<rparr> = demo_vmm p" for p by (simp_all add: demo_vmm_def demo_env_def)
  have free: "ack_callback (ioacks demo_proxy ! 3) = None" by (simp add: demo_proxy_def)
  show ?thesis
    using guest_access_end_to_end [where s = "demo_vmm demo_proxy" and vcpu = 3 and len = 4 and km = "px_rpc demo_proxy" and
        G = demo_env and paddr = "0x60000010" and data = 42, OF _ _ _ _ _ _ _ _ _ _ refl refl]
      demo_proxy_ok(1) demo_inbox free
    unfolding px by (force simp: demo_ops_def demo_vm0_def)
qed

section \<open>An interrupt through both sides\<close>

lemma set_irq_message:
  assumes "irq_spec (g_ops G) level" "lists_ok (g_lists G)" "emudev_ok (g_emu s)"
    and "ucast (QEMU_OP (mr0 msg)) = QEMU_OP_SET_IRQ" "mr1 msg = ucast irq" "32 \<le> irq" "\<not> v2m_irq_valid (g_v2m s) irq"
  obtains rc s' where "rpc_process G msg s = Inr (rc, s')" "rc = 0 \<Longrightarrow> level (g_vm s') BOOT_VCPU irq = (ucast (mr2 msg) = (ucast RPC_IRQ_SET :: u32))"
    "\<And>v i. (v, i) \<noteq> (BOOT_VCPU, irq) \<Longrightarrow> level (g_vm s') v i = level (g_vm s) v i"
proof -
  have irq: "ucast (mr1 msg) = irq" by (simp add: assms(5))
  have pci: "\<not> irq_is_pci irq" using assms(6) by (simp add: irq_is_pci_def PCI_NUM_SLOTS_def)
  obtain rc st vm where run: "emudev_irq_set (g_ops G) (g_lists G) (g_emu s) (px_id (g_px s)) irq (ucast (mr2 msg)) (g_vm s) = Inr (rc, st, vm)"
    "rc = 0 \<Longrightarrow> level vm BOOT_VCPU irq = (ucast (mr2 msg) = (ucast RPC_IRQ_SET :: u32))"
    "\<And>v i. (v, i) \<noteq> (BOOT_VCPU, irq) \<Longrightarrow> level vm v i = level (g_vm s) v i"
    using emudev_irq_set_level [OF assms(1-3,6), of "px_id (g_px s)" "ucast (mr2 msg)" "g_vm s"] by blast
  show thesis
    by (rule that [of "if rc \<noteq> 0 then -1 else 0" "s\<lparr>g_emu := st, g_vm := vm\<rparr>"])
      (use run pci assms(4,7) in \<open>simp_all add: rpc_process_cases [OF assms(4) [symmetric]] irq op_defs cb_emudev_def handle_emudev_def
        verdict_def rc_defs Let_def split: if_splits\<close>)
qed

text \<open>A posted event is the last of those the monitor finds.\<close>
lemma event_posted:
  assumes "inbox_ok px" "mem_ok (px_mem px)" "length (events px) < 32" "device_event dev = devevt_queue" "doorbell dev = Some c"
  obtains w where "device_event_tx (Some dev) op r0 r1 r2 r3 (px_mem px) = Inr (0, w)" "inbox_ok (px\<lparr>px_mem := w\<rparr>)"
    "events (px\<lparr>px_mem := w\<rparr>) = events px @ [\<lparr>mr0 = BIT_FIELD_SET r0 RPC_MR0_OP (ucast op), mr1 = r1, mr2 = r2, mr3 = r3\<rparr>]"
    "resp_ids (px\<lparr>px_mem := w\<rparr>) = resp_ids px" "responses (px\<lparr>px_mem := w\<rparr>) = responses px" "mem_ok w"
proof -
  let ?w = "px_mem px" let ?q = "q_at ?w devevt_queue" let ?b = "b_at ?w devevt_queue"
  let ?m = "\<lparr>mr0 = BIT_FIELD_SET r0 RPC_MR0_OP (ucast op), mr1 = r1, mr2 = r2, mr3 = r3\<rparr>"
  have q: "event_ok (?q, ?b)" "queue_len ?q < 32"
    using assms(1,3) by (simp_all add: inbox_ok_def events_def)
  note tx = event_tx_ok [OF q, of ?m]
  let ?q' = "advance_prod ?q ((queue_ring ?q)[prod_slot ?q := of_nat (prod_slot ?q)])" and ?b' = "?b[prod_slot ?q := ?m]"
  let ?w' = "(put_q devevt_queue ?q' (put_b devevt_queue ?b' ?w))\<lparr>rung := c # rung ?w\<rparr>"
  have w': "q_at ?w' devevt_queue = ?q'" "b_at ?w' devevt_queue = ?b'" "mem_ok ?w'"
    "q_at ?w' driver_drvrpc_resp = q_at ?w driver_drvrpc_resp" "b_at ?w' driver_drvrpc_resp = b_at ?w driver_drvrpc_resp"
    using assms(2) q(1) by (simp_all add: vso_refs event_ok_def)
  show thesis
  proof (rule that [of ?w'])
    show "device_event_tx (Some dev) op r0 r1 r2 r3 ?w = Inr (0, ?w')"
      using tx(1) assms(4,5) by (simp add: device_event_tx_def rpcmsg_event_tx_def Let_def doorbell_ok)
    show "inbox_ok (px\<lparr>px_mem := ?w'\<rparr>)"
      unfolding inbox_ok_def using assms(1) w' tx(2) by (simp add: inbox_ok_def mem_ok_def)
    show "events (px\<lparr>px_mem := ?w'\<rparr>) = events px @ [?m]" using tx(3) w' by (simp add: events_def)
    show ids: "resp_ids (px\<lparr>px_mem := ?w'\<rparr>) = resp_ids px" using w' by (simp add: resp_ids_def)
    show "responses (px\<lparr>px_mem := ?w'\<rparr>) = responses px" using w' unfolding responses_def ids by simp
  qed (rule w'(3))
qed



end
